(* ===== verification/Prelude.thy ===== *)
theory Prelude
  imports Main "HOL-Library.Word"
begin

section \<open>Prelude: machine types, results and the question mark operator\<close>

text \<open>
  Shared vocabulary of the development.  Machine integers are words of their width, byte
  slices and vectors are lists of 8-bit words, and a Rust \<open>Result\<close> is a sum whose left
  side is the error.  The operator \<open>and_then\<close> is the early return of the question mark for pure code;
  \<open>and_then_st\<close> is the same for methods taking \<open>&mut self\<close>, where
  the writes made before an error stay visible to the caller.
\<close>

type_synonym u8 = "8 word"
type_synonym u16 = "16 word"
type_synonym u32 = "32 word"
type_synonym u64 = "64 word"
type_synonym bytes = "u8 list"

abbreviation Ok :: "'a \<Rightarrow> 'e + 'a" where
  "Ok \<equiv> Inr"

abbreviation Err :: "'e \<Rightarrow> 'e + 'a" where
  "Err \<equiv> Inl"

named_theorems result_simps "equations of results and their propagation"
named_theorems result_dests "inversion of successful results"

subsection \<open>Results\<close>

definition and_then :: "'e + 'a \<Rightarrow> ('a \<Rightarrow> 'e + 'b) \<Rightarrow> 'e + 'b" where
  "and_then r f = (case r of Inl e \<Rightarrow> Inl e | Inr a \<Rightarrow> f a)"

definition ok_or :: "'a option \<Rightarrow> 'e \<Rightarrow> 'e + 'a" where
  "ok_or x e = (case x of None \<Rightarrow> Inl e | Some a \<Rightarrow> Inr a)"

definition map_err :: "('e \<Rightarrow> 'f) \<Rightarrow> 'e + 'a \<Rightarrow> 'f + 'a" where
  "map_err f r = (case r of Inl e \<Rightarrow> Inl (f e) | Inr a \<Rightarrow> Inr a)"

definition and_then_st :: "'s \<times> ('e + 'a) \<Rightarrow> ('s \<Rightarrow> 'a \<Rightarrow> 's \<times> ('e + 'b)) \<Rightarrow> 's \<times> ('e + 'b)" where
  "and_then_st m f = (case m of (s, Inl e) \<Rightarrow> (s, Inl e) | (s, Inr a) \<Rightarrow> f s a)"

lemma and_then_simps [simp, result_simps]:
  "and_then (Inl e) f = Inl e" "and_then (Inr a) f = f a"
  by (simp_all add: and_then_def)

lemma ok_or_simps [simp, result_simps]:
  "ok_or None e = Inl e" "ok_or (Some a) e = Inr a"
  by (simp_all add: ok_or_def)

lemma map_err_simps [simp, result_simps]:
  "map_err f (Inl e) = Inl (f e)" "map_err f (Inr a) = Inr a"
  by (simp_all add: map_err_def)

lemma and_then_st_simps [simp, result_simps]:
  "and_then_st (s, Inl e) g = (s, Inl e)" "and_then_st (s, Inr a) g = g s a"
  by (simp_all add: and_then_st_def)

lemma and_then_eq_Inr [result_dests]:
  "and_then r f = Inr b \<longleftrightarrow> (\<exists>a. r = Inr a \<and> f a = Inr b)"
  by (cases r) auto

lemma and_then_eq_Inl [result_dests]:
  "and_then r f = Inl e \<longleftrightarrow> r = Inl e \<or> (\<exists>a. r = Inr a \<and> f a = Inl e)"
  by (cases r) auto

lemma and_then_avoids:
  "r \<noteq> Inl e \<Longrightarrow> (\<And>a. r = Inr a \<Longrightarrow> f a \<noteq> Inl e) \<Longrightarrow> and_then r f \<noteq> Inl e"
  by (cases r) auto

lemma ok_or_eq_Inr [result_dests]: "ok_or x e = Inr a \<longleftrightarrow> x = Some a"
  by (cases x) auto

lemma ok_or_eq_Inl [result_dests]: "ok_or x e = Inl e' \<longleftrightarrow> x = None \<and> e' = e"
  by (cases x) auto

lemma map_err_eq_Inr [result_dests]: "map_err f r = Inr a \<longleftrightarrow> r = Inr a"
  by (cases r) auto

lemma and_then_st_eq_Inr [result_dests]:
  "and_then_st m f = (s', Inr b) \<longleftrightarrow> (\<exists>s a. m = (s, Inr a) \<and> f s a = (s', Inr b))"
  by (cases m; cases "snd m") auto

subsection \<open>Byte order and ranges\<close>

text \<open>
  \<open>u32::to_le_bytes\<close>, \<open>u32::from_le_bytes\<close>, \<open>u16::from_be_bytes\<close> and the
  half-open range \<open>a..b\<close> over \<open>u32\<close>.
\<close>

definition to_le_bytes :: "u32 \<Rightarrow> bytes" where
  "to_le_bytes w =
     [ucast w, ucast (drop_bit 8 w), ucast (drop_bit 16 w), ucast (drop_bit 24 w)]"

definition from_le_bytes :: "u8 \<Rightarrow> u8 \<Rightarrow> u8 \<Rightarrow> u8 \<Rightarrow> u32" where
  "from_le_bytes a b c d =
     or (ucast a) (or (push_bit 8 (ucast b)) (or (push_bit 16 (ucast c)) (push_bit 24 (ucast d))))"

definition from_be_bytes :: "u8 \<Rightarrow> u8 \<Rightarrow> u16" where
  "from_be_bytes hi lo = or (push_bit 8 (ucast hi)) (ucast lo)"

definition range_u32 :: "u32 \<Rightarrow> u32 \<Rightarrow> u32 list" where
  "range_u32 a b = map word_of_nat [unat a ..< unat b]"

lemma length_to_le_bytes [simp]: "length (to_le_bytes w) = 4"
  by (simp add: to_le_bytes_def)

lemma from_to_le_bytes:
  "from_le_bytes (ucast w) (ucast (drop_bit 8 w)) (ucast (drop_bit 16 w)) (ucast (drop_bit 24 w)) = w"
proof (rule bit_word_eqI)
  fix n
  assume "n < LENGTH(32)"
  then consider "n < 8" | "8 \<le> n" "n < 16" | "16 \<le> n" "n < 24" | "24 \<le> n" "n < 32"
    by fastforce
  then show "bit (from_le_bytes (ucast w) (ucast (drop_bit 8 w)) (ucast (drop_bit 16 w))
      (ucast (drop_bit 24 w))) n = bit w n"
    by cases (auto simp: from_le_bytes_def bit_simps)
qed

lemma to_from_le_bytes: "to_le_bytes (from_le_bytes a b c d) = [a, b, c, d]"
proof -
  have "ucast (from_le_bytes a b c d) = a"
    "ucast (drop_bit 8 (from_le_bytes a b c d)) = b"
    "ucast (drop_bit 16 (from_le_bytes a b c d)) = c"
    "ucast (drop_bit 24 (from_le_bytes a b c d)) = d"
    by (rule bit_word_eqI, auto simp: from_le_bytes_def bit_simps dest: bit_imp_le_length)+
  then show ?thesis
    by (simp add: to_le_bytes_def)
qed

lemma length_range_u32 [simp]: "length (range_u32 a b) = unat b - unat a"
  by (simp add: range_u32_def)

lemma range_u32_empty [simp]: "b \<le> a \<Longrightarrow> range_u32 a b = []"
  by (simp add: range_u32_def word_le_nat_alt)

lemma unat_word_of_nat_below:
  "i < unat (b :: 'a :: len word) \<Longrightarrow> unat (word_of_nat i :: 'a word) = i"
  by (simp add: unsigned_of_nat take_bit_nat_eq_self less_trans [OF _ unsigned_less])

lemma unat_u32_of_nat: "n < 2 ^ 32 \<Longrightarrow> unat (word_of_nat n :: u32) = n"
  by (simp add: unsigned_of_nat take_bit_nat_eq_self)

lemma set_range_u32: "set (range_u32 a b) = {n. a \<le> n \<and> n < b}"
proof -
  have "n \<in> word_of_nat ` {unat a ..< unat b}" if "a \<le> n" "n < b" for n
    using that by (intro image_eqI [of _ _ "unat n"]) (auto simp: word_le_nat_alt word_less_nat_alt)
  then show ?thesis
    by (auto simp: range_u32_def word_le_nat_alt word_less_nat_alt unat_word_of_nat_below)
qed

lemma distinct_range_u32 [simp]: "distinct (range_u32 a b)"
proof -
  have "inj_on (word_of_nat :: nat \<Rightarrow> u32) {unat a ..< unat b}"
    by (rule inj_onI) (metis atLeastLessThan_iff unat_word_of_nat_below)
  then show ?thesis
    by (simp add: range_u32_def distinct_map)
qed

lemma unat_succ_below:
  "n < (m :: 'a :: len word) \<Longrightarrow> unat (n + 1) = Suc (unat n)"
proof -
  assume "n < m"
  then have "Suc (unat n) \<le> unat m"
    by (simp add: word_less_nat_alt)
  also have "\<dots> < 2 ^ LENGTH('a)"
    by (rule unsigned_less)
  finally show ?thesis
    by (simp add: unat_word_ariths)
qed

subsection \<open>Lists and maps\<close>

lemma take_append_exact [simp]: "length xs = n \<Longrightarrow> take n (xs @ ys) = xs"
  by simp

lemma drop_append_exact [simp]: "length xs = n \<Longrightarrow> drop n (xs @ ys) = ys"
  by simp

lemma append_eq_exact: "length xs = length ys \<Longrightarrow> xs @ as = ys @ bs \<longleftrightarrow> xs = ys \<and> as = bs"
  by simp

text \<open>Overwriting every byte of a buffer with zero (\<open>Zeroize\<close>, \<open>memzero\<close>).\<close>

definition zeroed :: "bytes \<Rightarrow> bytes" where
  "zeroed bs = replicate (length bs) 0"

lemma zeroed_props: "length (zeroed bs) = length bs" "set (zeroed bs) \<subseteq> {0}"
  by (auto simp: zeroed_def)

end
