(* ===== verification/Rust_Std.thy ===== *)
theory Rust_Std
  imports Prelude "HOL-Library.Sublist" "HOL-Library.List_Lexorder"
begin

section \<open>The parts of the Rust standard library the sources use\<close>

text \<open>
  A \<open>String\<close> or \<open>&str\<close> is the list of its UTF-8 bytes, written as a HOL
  \<open>string\<close> (a HOL character is one byte), so \<open>length\<close> is Rust's \<open>len\<close>.
  Modelled here: the byte view and \<open>String::from_utf8\<close>, decimal and hexadecimal
  formatting, \<open>u64::from_str\<close>, ASCII case and digit tests, \<open>trim\<close>,
  \<open>starts_with\<close>, \<open>contains\<close>, \<open>join\<close>, and the integer operations
  \<open>next_power_of_two\<close>, \<open>div_ceil\<close>, \<open>saturating_sub\<close> and
  \<open>abs_diff\<close>.
\<close>

subsection \<open>Strings as bytes\<close>

definition as_bytes :: "string \<Rightarrow> bytes" where
  "as_bytes s = map of_char s"

definition string_of_bytes :: "bytes \<Rightarrow> string" where
  "string_of_bytes bs = map (\<lambda>b. char_of (unat b)) bs"

lemma of_char_word: "(of_char c :: u8) = word_of_nat (of_char c)"
  by (simp add: of_char_def horner_sum_of_bool_2_less)

lemma char_of_unat_of_char [simp]: "char_of (unat (of_char c :: u8)) = c"
  using nat_of_char_less_256 [of c]
  by (simp add: of_char_word unsigned_of_nat take_bit_nat_eq_self)

lemma string_of_as_bytes [simp]: "string_of_bytes (as_bytes s) = s"
  by (simp add: string_of_bytes_def as_bytes_def comp_def)

lemma length_as_bytes [simp]: "length (as_bytes s) = length s"
  by (simp add: as_bytes_def)

lemma as_bytes_append [simp]: "as_bytes (s @ t) = as_bytes s @ as_bytes t"
  by (simp add: as_bytes_def)

lemma as_bytes_inject [simp]: "as_bytes s = as_bytes t \<longleftrightarrow> s = t"
  by (metis string_of_as_bytes)

text \<open>
  UTF-8 validity, by the byte ranges of the Unicode standard: no overlong form, no
  surrogate, nothing above U+10FFFF.
\<close>

definition cont_byte :: "u8 \<Rightarrow> bool" where
  "cont_byte b \<longleftrightarrow> 0x80 \<le> b \<and> b \<le> 0xBF"

fun utf8_valid :: "bytes \<Rightarrow> bool" where
  "utf8_valid [] = True"
| "utf8_valid (a # bs) =
     (if a < 0x80 then utf8_valid bs
      else if 0xC2 \<le> a \<and> a \<le> 0xDF then
        (case bs of b # r \<Rightarrow> cont_byte b \<and> utf8_valid r | [] \<Rightarrow> False)
      else if 0xE0 \<le> a \<and> a \<le> 0xEF then
        (case bs of b # c # r \<Rightarrow>
             cont_byte b \<and> cont_byte c \<and> (a = 0xE0 \<longrightarrow> 0xA0 \<le> b) \<and> (a = 0xED \<longrightarrow> b \<le> 0x9F)
             \<and> utf8_valid r
         | _ \<Rightarrow> False)
      else if 0xF0 \<le> a \<and> a \<le> 0xF4 then
        (case bs of b # c # d # r \<Rightarrow>
             cont_byte b \<and> cont_byte c \<and> cont_byte d
             \<and> (a = 0xF0 \<longrightarrow> 0x90 \<le> b) \<and> (a = 0xF4 \<longrightarrow> b \<le> 0x8F) \<and> utf8_valid r
         | _ \<Rightarrow> False)
      else False)"

text \<open>\<open>String::from_utf8\<close>; the text of its error is \<open>from_utf8_error_text\<close> below.\<close>

definition from_utf8 :: "bytes \<Rightarrow> string option" where
  "from_utf8 bs = (if utf8_valid bs then Some (string_of_bytes bs) else None)"

lemma utf8_valid_ascii: "\<forall>b \<in> set bs. b < 0x80 \<Longrightarrow> utf8_valid bs"
  by (induction bs) auto

lemma from_utf8_as_bytes: "utf8_valid (as_bytes s) \<Longrightarrow> from_utf8 (as_bytes s) = Some s"
  by (simp add: from_utf8_def)

subsection \<open>Decimal and hexadecimal text\<close>

definition digit_char :: "nat \<Rightarrow> char" where
  "digit_char d = char_of (48 + d)"

definition is_digit :: "char \<Rightarrow> bool" where
  "is_digit c \<longleftrightarrow> 48 \<le> (of_char c :: nat) \<and> (of_char c :: nat) \<le> 57"

definition digit_value :: "char \<Rightarrow> nat" where
  "digit_value c = of_char c - 48"

definition is_ascii_hexdigit :: "char \<Rightarrow> bool" where
  "is_ascii_hexdigit c \<longleftrightarrow>
     (let n = (of_char c :: nat) in (48 \<le> n \<and> n \<le> 57) \<or> (65 \<le> n \<and> n \<le> 70) \<or> (97 \<le> n \<and> n \<le> 102))"

lemma hexdigit_bytes:
  assumes "list_all is_ascii_hexdigit s"
  shows "\<forall>b \<in> set (as_bytes s). b < 0x80"
proof
  fix b
  assume "b \<in> set (as_bytes s)"
  then obtain c where c: "b = of_char c" "is_ascii_hexdigit c"
    using assms by (auto simp: as_bytes_def list_all_iff)
  then have "unat b < 128"
    by (auto simp: is_ascii_hexdigit_def Let_def of_char_word unsigned_of_nat take_bit_nat_eq_self)
  then show "b < 0x80"
    by (simp add: word_less_nat_alt)
qed

text \<open>\<open>Display\<close> for unsigned integers, and the width flag of \<open>{:05}\<close>.\<close>

fun show_nat :: "nat \<Rightarrow> string" where
  "show_nat n = (if n < 10 then [digit_char n] else show_nat (n div 10) @ [digit_char (n mod 10)])"

declare show_nat.simps [simp del]

definition pad_zeros :: "nat \<Rightarrow> string \<Rightarrow> string" where
  "pad_zeros w s = replicate (w - length s) (CHR ''0'') @ s"

text \<open>\<open>u64::from_str\<close>: an optional plus sign, then at least one digit, no overflow.\<close>

definition digits_value :: "string \<Rightarrow> nat" where
  "digits_value s = foldl (\<lambda>a c. 10 * a + digit_value c) 0 s"

definition parse_u64 :: "string \<Rightarrow> u64 option" where
  "parse_u64 s =
     (let ds = (if s \<noteq> [] \<and> hd s = CHR ''+'' then tl s else s) in
      if ds \<noteq> [] \<and> list_all is_digit ds \<and> digits_value ds < 2 ^ 64
      then Some (word_of_nat (digits_value ds)) else None)"

lemma digit_char_props:
  "d < 10 \<Longrightarrow> is_digit (digit_char d)" "d < 10 \<Longrightarrow> digit_value (digit_char d) = d"
  by (simp_all add: digit_char_def is_digit_def digit_value_def of_char_of)

lemma show_nat_digits: "list_all is_digit (show_nat n)"
proof (induction n rule: show_nat.induct)
  case (1 n)
  then show ?case
    by (cases "n < 10") (simp_all add: show_nat.simps [of n] digit_char_props)
qed

lemma show_nat_nonempty: "show_nat n \<noteq> []"
  by (simp add: show_nat.simps [of n])

lemma digits_value_show_nat: "digits_value (show_nat n) = n"
proof (induction n rule: show_nat.induct)
  case (1 n)
  show ?case
  proof (cases "n < 10")
    case True
    then show ?thesis
      by (simp add: show_nat.simps [of n] digits_value_def digit_char_props)
  next
    case False
    then have "digits_value (show_nat (n div 10)) = n div 10"
      by (rule 1)
    with False show ?thesis
      by (simp add: show_nat.simps [of n] digits_value_def digit_char_props)
  qed
qed

lemma show_nat_inject: "show_nat m = show_nat n \<longleftrightarrow> m = n"
  by (metis digits_value_show_nat)

lemma length_show_nat: "n < 10 ^ Suc k \<Longrightarrow> length (show_nat n) \<le> Suc k"
proof (induction k arbitrary: n)
  case 0
  then show ?case
    by (simp add: show_nat.simps [of n])
next
  case (Suc k)
  show ?case
  proof (cases "n < 10")
    case True
    then show ?thesis
      by (simp add: show_nat.simps [of n])
  next
    case False
    from Suc.prems have "n div 10 < 10 ^ Suc k"
      by (simp add: less_mult_imp_div_less mult.commute)
    then have "length (show_nat (n div 10)) \<le> Suc k"
      by (rule Suc.IH)
    with False show ?thesis
      by (simp add: show_nat.simps [of n])
  qed
qed

lemma is_digit_not_plus: "is_digit c \<Longrightarrow> c \<noteq> CHR ''+''"
  by (auto simp: is_digit_def)

lemma hd_show_nat_not_plus: "hd (show_nat n) \<noteq> CHR ''+''"
proof -
  have "hd (show_nat n) \<in> set (show_nat n)"
    by (rule hd_in_set) (rule show_nat_nonempty)
  with show_nat_digits [of n] have "is_digit (hd (show_nat n))"
    by (auto simp: list_all_iff)
  then show ?thesis
    by (rule is_digit_not_plus)
qed

lemma parse_show_u64: "parse_u64 (show_nat (unat t)) = Some t"
proof -
  have "digits_value (show_nat (unat t)) < 2 ^ 64"
    unfolding digits_value_show_nat using unsigned_less [of t] by simp
  then show ?thesis
    unfolding parse_u64_def Let_def
    by (simp only: hd_show_nat_not_plus show_nat_nonempty show_nat_digits digits_value_show_nat
        of_nat_unat ucast_id simp_thms if_True if_False)
qed

text \<open>
  The error of \<open>String::from_utf8\<close>: the index up to which the text is valid, and the
  number of bytes of the broken sequence, absent when the input ends inside a sequence.
\<close>

fun utf8_error :: "nat \<Rightarrow> bytes \<Rightarrow> (nat \<times> nat option) option" where
  "utf8_error i [] = None"
| "utf8_error i (a # bs) =
     (if a < 0x80 then utf8_error (i + 1) bs
      else if 0xC2 \<le> a \<and> a \<le> 0xDF then
        (case bs of
           [] \<Rightarrow> Some (i, None)
         | b # r \<Rightarrow> if cont_byte b then utf8_error (i + 2) r else Some (i, Some 1))
      else if 0xE0 \<le> a \<and> a \<le> 0xEF then
        (case bs of
           [] \<Rightarrow> Some (i, None)
         | b # r \<Rightarrow>
             if \<not> (cont_byte b \<and> (a = 0xE0 \<longrightarrow> 0xA0 \<le> b) \<and> (a = 0xED \<longrightarrow> b \<le> 0x9F)) then Some (i, Some 1)
             else (case r of
                 [] \<Rightarrow> Some (i, None)
               | c # r \<Rightarrow> if cont_byte c then utf8_error (i + 3) r else Some (i, Some 2)))
      else if 0xF0 \<le> a \<and> a \<le> 0xF4 then
        (case bs of
           [] \<Rightarrow> Some (i, None)
         | b # r \<Rightarrow>
             if \<not> (cont_byte b \<and> (a = 0xF0 \<longrightarrow> 0x90 \<le> b) \<and> (a = 0xF4 \<longrightarrow> b \<le> 0x8F)) then Some (i, Some 1)
             else (case r of
                 [] \<Rightarrow> Some (i, None)
               | c # r \<Rightarrow> if \<not> cont_byte c then Some (i, Some 2)
                   else (case r of
                       [] \<Rightarrow> Some (i, None)
                     | d # r \<Rightarrow> if cont_byte d then utf8_error (i + 4) r else Some (i, Some 3))))
      else Some (i, Some 1))"

definition from_utf8_error_text :: "bytes \<Rightarrow> string" where
  "from_utf8_error_text bs = (case utf8_error 0 bs of
     Some (i, Some n) \<Rightarrow> ''invalid utf-8 sequence of '' @ show_nat n @ '' bytes from index '' @ show_nat i
   | Some (i, None) \<Rightarrow> ''incomplete utf-8 byte sequence from index '' @ show_nat i
   | None \<Rightarrow> [])"

lemma utf8_error_iff: "utf8_error i bs = None \<longleftrightarrow> utf8_valid bs"
  by (induction i bs rule: utf8_error.induct) (auto split: list.splits)

text \<open>\<open>{:02X}\<close> of one byte: two upper-case hexadecimal digits.\<close>

definition hex_upper :: "nat \<Rightarrow> char" where
  "hex_upper d = (if d < 10 then char_of (48 + d) else char_of (55 + d))"

definition show_byte_02X :: "u8 \<Rightarrow> string" where
  "show_byte_02X b = [hex_upper (unat b div 16), hex_upper (unat b mod 16)]"

lemma hex_upper_hexdigit: "d < 16 \<Longrightarrow> is_ascii_hexdigit (hex_upper d)"
  by (simp add: hex_upper_def is_ascii_hexdigit_def of_char_of Let_def)

lemma hex_upper_inject: "d < 16 \<Longrightarrow> e < 16 \<Longrightarrow> hex_upper d = hex_upper e \<longleftrightarrow> d = e"
proof -
  assume d: "d < 16" and e: "e < 16"
  have nat_eq: "(of_char (hex_upper k) :: nat) = (if k < 10 then 48 + k else 55 + k)" if "k < 16" for k
    using that by (simp add: hex_upper_def of_char_of)
  have "d = e" if "hex_upper d = hex_upper e"
  proof -
    have "(if d < 10 then 48 + d else 55 + d) = (if e < 10 then 48 + e else 55 + e)"
      using nat_eq [OF d] nat_eq [OF e] that by metis
    then show ?thesis
      using d e by presburger
  qed
  then show ?thesis
    by blast
qed

subsection \<open>String tests and trimming\<close>

definition starts_with :: "string \<Rightarrow> string \<Rightarrow> bool" where
  "starts_with s p \<longleftrightarrow> take (length p) s = p"

fun contains_str :: "string \<Rightarrow> string \<Rightarrow> bool" where
  "contains_str [] p = (p = [])"
| "contains_str (c # s) p = (starts_with (c # s) p \<or> contains_str s p)"

lemma contains_str_iff: "contains_str s p \<longleftrightarrow> (\<exists>a b. s = a @ p @ b)"
proof (induction s)
  case Nil
  then show ?case by simp
next
  case (Cons c s)
  have "starts_with (c # s) p \<longleftrightarrow> (\<exists>b. c # s = p @ b)"
    unfolding starts_with_def by (metis append_take_drop_id append_eq_conv_conj)
  moreover have "(\<exists>a b. c # s = a @ p @ b) \<longleftrightarrow> (\<exists>b. c # s = p @ b) \<or> (\<exists>a b. s = a @ p @ b)"
    by (metis append_Cons append_Nil list.inject neq_Nil_conv)
  ultimately show ?case
    by (simp add: Cons.IH)
qed

text \<open>
  \<open>to_uppercase\<close> on ASCII text (the sources apply it to an HTTP method, a token of
  ASCII characters).
\<close>

definition ascii_upper :: "char \<Rightarrow> char" where
  "ascii_upper c =
     (let n = (of_char c :: nat) in if 97 \<le> n \<and> n \<le> 122 then char_of (n - 32) else c)"

definition to_uppercase :: "string \<Rightarrow> string" where
  "to_uppercase s = map ascii_upper s"

text \<open>
  \<open>str::trim\<close> removes leading and trailing characters of the Unicode property
  White\_Space; these are their UTF-8 encodings.
\<close>

definition white_space :: "string list" where
  "white_space = map (map char_of)
     ([[9], [10], [11], [12], [13], [32], [0xC2, 0x85], [0xC2, 0xA0], [0xE1, 0x9A, 0x80]]
      @ map (\<lambda>i. [0xE2, 0x80, 0x80 + i]) [0 ..< 11]
      @ [[0xE2, 0x80, 0xA8], [0xE2, 0x80, 0xA9], [0xE2, 0x80, 0xAF], [0xE2, 0x81, 0x9F],
         [0xE3, 0x80, 0x80 :: nat]])"

function strip_front :: "string list \<Rightarrow> string \<Rightarrow> string" where
  "strip_front ws s =
     (case find (\<lambda>w. w \<noteq> [] \<and> starts_with s w) ws of
        None \<Rightarrow> s
      | Some w \<Rightarrow> strip_front ws (drop (length w) s))"
  by pat_completeness auto
termination
proof (relation "measure (\<lambda>(ws, s). length s)", simp)
  fix ws s w
  assume "find (\<lambda>w. w \<noteq> [] \<and> starts_with s w) ws = Some w"
  then have "w \<noteq> []" "starts_with s w"
    by (auto simp: find_Some_iff)
  then have "0 < length w" "0 < length s"
    by (auto simp: starts_with_def)
  then show "((ws, drop (length w) s), ws, s) \<in> measure (\<lambda>(ws, s). length s)"
    by simp
qed

declare strip_front.simps [simp del]

definition trim :: "string \<Rightarrow> string" where
  "trim s = rev (strip_front (map rev white_space) (rev (strip_front white_space s)))"

lemma strip_front_none:
  "\<forall>w \<in> set ws. w \<noteq> [] \<longrightarrow> \<not> starts_with s w \<Longrightarrow> strip_front ws s = s"
  by (subst strip_front.simps) (auto split: option.splits simp: find_Some_iff)

lemma white_space_hexdigit:
  "w \<in> set white_space \<Longrightarrow> w \<noteq> [] \<and> \<not> is_ascii_hexdigit (hd w) \<and> \<not> is_ascii_hexdigit (last w)"
proof -
  have "list_all (\<lambda>w. w \<noteq> [] \<and> \<not> is_ascii_hexdigit (hd w) \<and> \<not> is_ascii_hexdigit (last w)) white_space"
    by (simp add: white_space_def upt_rec is_ascii_hexdigit_def of_char_of Let_def)
  then show "w \<in> set white_space \<Longrightarrow> ?thesis"
    by (simp add: list_all_iff)
qed

lemma starts_with_hd: "starts_with s w \<Longrightarrow> w \<noteq> [] \<Longrightarrow> s \<noteq> [] \<and> hd s = hd w"
  by (cases w; cases s) (auto simp: starts_with_def)

text \<open>A string of hexadecimal digits has nothing to trim.\<close>

lemma trim_hex: "list_all is_ascii_hexdigit s \<Longrightarrow> trim s = s"
proof -
  assume hex: "list_all is_ascii_hexdigit s"
  have none: "\<not> starts_with t w"
    if "list_all is_ascii_hexdigit t" "w \<noteq> []" "\<not> is_ascii_hexdigit (hd w)" for t w
  proof
    assume "starts_with t w"
    with that(2) have "t \<noteq> []" "hd t = hd w"
      by (auto dest: starts_with_hd)
    with that(1,3) show False
      by (cases t) auto
  qed
  have front: "strip_front white_space s = s"
    using hex by (intro strip_front_none) (auto dest: white_space_hexdigit none)
  have "strip_front (map rev white_space) (rev s) = rev s"
  proof (intro strip_front_none ballI impI)
    fix v
    assume "v \<in> set (map rev white_space)" "v \<noteq> []"
    then obtain w where "w \<in> set white_space" "v = rev w"
      by auto
    then have "\<not> is_ascii_hexdigit (hd v)"
      by (simp add: hd_rev white_space_hexdigit)
    with hex \<open>v \<noteq> []\<close> show "\<not> starts_with (rev s) v"
      by (intro none) simp_all
  qed
  with front show ?thesis
    by (simp add: trim_def)
qed

text \<open>\<open>[String]::join\<close>.\<close>

fun join :: "string \<Rightarrow> string list \<Rightarrow> string" where
  "join sep [] = []"
| "join sep [x] = x"
| "join sep (x # y # zs) = x @ sep @ join sep (y # zs)"

subsection \<open>Integer operations\<close>

text \<open>
  \<open>usize\<close> values of the sources are slice lengths and small constants added to them;
  a slice holds at most \<open>isize::MAX\<close> bytes, so these sums stay below \<open>2 ^ 64\<close> and
  \<open>usize\<close> is \<open>nat\<close> here.
\<close>

function next_pow2_from :: "nat \<Rightarrow> nat \<Rightarrow> nat" where
  "next_pow2_from p n = (if n \<le> p \<or> p = 0 then p else next_pow2_from (2 * p) n)"
  by pat_completeness auto
termination
  by (relation "measure (\<lambda>(p, n). n - p)") auto

declare next_pow2_from.simps [simp del]

definition next_power_of_two :: "nat \<Rightarrow> nat" where
  "next_power_of_two n = next_pow2_from 1 n"

definition div_ceil :: "nat \<Rightarrow> nat \<Rightarrow> nat" where
  "div_ceil a b = (if 0 < a mod b then a div b + 1 else a div b)"

definition saturating_sub :: "u64 \<Rightarrow> u64 \<Rightarrow> u64" where
  "saturating_sub a b = (if a < b then 0 else a - b)"

definition abs_diff :: "u64 \<Rightarrow> u64 \<Rightarrow> u64" where
  "abs_diff a b = (if a < b then b - a else a - b)"

lemma next_pow2_from_ge: "0 < p \<Longrightarrow> n \<le> next_pow2_from p n \<and> p \<le> next_pow2_from p n"
proof (induction p n rule: next_pow2_from.induct)
  case (1 p n)
  show ?case
    by (cases "n \<le> p") (use 1 in \<open>auto simp: next_pow2_from.simps [of p n]\<close>)
qed

lemma next_pow2_from_power: "\<exists>k. next_pow2_from (2 ^ j) n = 2 ^ k"
proof (induction "2 ^ j :: nat" n arbitrary: j rule: next_pow2_from.induct)
  case (1 n)
  show ?case
  proof (cases "n \<le> 2 ^ j")
    case True
    then show ?thesis
      by (auto simp: next_pow2_from.simps [of "2 ^ j" n])
  next
    case False
    then have "\<exists>k. next_pow2_from (2 ^ Suc j) n = 2 ^ k"
      by (intro 1) auto
    with False show ?thesis
      by (auto simp: next_pow2_from.simps [of "2 ^ j" n])
  qed
qed

lemma next_pow2_from_least: "n \<le> 2 ^ k \<Longrightarrow> next_pow2_from (2 ^ j) n \<le> 2 ^ max j k"
proof (induction "2 ^ j :: nat" n arbitrary: j rule: next_pow2_from.induct)
  case (1 n)
  show ?case
  proof (cases "n \<le> 2 ^ j")
    case True
    then show ?thesis
      by (auto simp: next_pow2_from.simps [of "2 ^ j" n])
  next
    case False
    with 1(2) have "(2 :: nat) ^ j < 2 ^ k"
      by linarith
    then have "Suc j \<le> k"
      by simp
    moreover have "next_pow2_from (2 ^ Suc j) n \<le> 2 ^ max (Suc j) k"
      using False 1(2) by (intro 1) auto
    ultimately show ?thesis
      using False by (simp add: next_pow2_from.simps [of "2 ^ j" n] max_def)
  qed
qed

lemma next_power_of_two_ge: "n \<le> next_power_of_two n"
  by (simp add: next_power_of_two_def next_pow2_from_ge)

lemma next_power_of_two_power: "\<exists>k. next_power_of_two n = 2 ^ k"
  using next_pow2_from_power [of 0 n] by (simp add: next_power_of_two_def)

lemma next_power_of_two_least: "n \<le> 2 ^ k \<Longrightarrow> next_power_of_two n \<le> 2 ^ k"
  using next_pow2_from_least [of n k 0] by (simp add: next_power_of_two_def)

lemma div_ceil_bounds: "0 < b \<Longrightarrow> a \<le> div_ceil a b * b \<and> div_ceil a b * b < a + b"
proof -
  assume "0 < b"
  then have lt: "a mod b < b"
    by simp
  have eq: "a div b * b + a mod b = a"
    by simp
  show ?thesis
  proof (cases "0 < a mod b")
    case True
    then have "div_ceil a b * b = a div b * b + b"
      by (simp add: div_ceil_def)
    with True lt eq show ?thesis
      by linarith
  next
    case False
    then have "div_ceil a b * b = a div b * b"
      by (simp add: div_ceil_def)
    with False lt eq show ?thesis
      by linarith
  qed
qed

lemma unat_saturating_sub: "unat (saturating_sub a b) = unat a - unat b"
  by (auto simp: saturating_sub_def word_less_nat_alt unat_sub word_le_nat_alt)

lemma unat_abs_diff: "unat (abs_diff a b) = (if unat a < unat b then unat b - unat a else unat a - unat b)"
  by (auto simp: abs_diff_def word_less_nat_alt unat_sub word_le_nat_alt)

end
