(* ===== verification/Errors.thy ===== *)
theory Errors
  imports Rust_Std
begin

section \<open>Errors\<close>

text \<open>
  \<open>CryptoError\<close> of \<open>crates/vaultex-crypto/src/errors.rs\<close> and the texts of its
  \<open>#[error(...)]\<close> attributes.  A \<open>usize\<close> field is a natural number.
\<close>

datatype CryptoError =
    InitFailed
  | SignatureVerificationFailed
  | InvalidKeyLength (expected: nat) (actual: nat)
  | HkdfExpandFailed
  | EncryptionFailed
  | DecryptionFailed
  | MissingOneTimePreKey u32
  | InvalidPreKeySignature
  | SealedSenderError string
  | RatchetError string
  | PaddingError string
  | SerializationError string

type_synonym 'a result = "CryptoError + 'a"

fun error_to_string :: "CryptoError \<Rightarrow> string" where
  "error_to_string InitFailed = ''sodiumoxide initialization failed''"
| "error_to_string SignatureVerificationFailed = ''signature verification failed''"
| "error_to_string (InvalidKeyLength e a) =
     ''invalid key length: expected '' @ show_nat e @ '', got '' @ show_nat a"
| "error_to_string HkdfExpandFailed = ''HKDF expansion failed''"
| "error_to_string EncryptionFailed = ''encryption failed''"
| "error_to_string DecryptionFailed = ''decryption failed: ciphertext authentication failed''"
| "error_to_string (MissingOneTimePreKey i) =
     ''missing one-time prekey with id '' @ show_nat (unat i)"
| "error_to_string InvalidPreKeySignature = ''invalid prekey signature''"
| "error_to_string (SealedSenderError s) = ''sealed sender: '' @ s"
| "error_to_string (RatchetError s) = ''ratchet error: '' @ s"
| "error_to_string (PaddingError s) = ''padding error: '' @ s"
| "error_to_string (SerializationError s) = ''serialization error: '' @ s"

end
