(* ===== verification/Primitives.thy ===== *)
theory Primitives
  imports Errors
begin

section \<open>The third-party packages as a parameter\<close>

text \<open>
  The crate calls sodiumoxide and libsodium-sys, the RustCrypto crates hkdf, hmac and sha2,
  and hex.  None of them is part of the repository, so everything the crate calls is a field
  of the record \<open>prims\<close>, an argument of every definition that uses it.  Random choices
  (key pairs, nonces, fill bytes) and the clock are arguments of the operation that draws
  them.  What the packages document is stated as predicates on \<open>prims\<close>; a theorem names
  those it needs.  \<open>demo_prims\<close> is a concrete instance that satisfies all of them and
  serves the witnesses only.
\<close>

record prims =
  sodium_init :: bool
    \<comment> \<open>\<open>sodiumoxide::init()\<close> succeeds\<close>
  from_slice :: "nat \<Rightarrow> bytes \<Rightarrow> bytes option"
    \<comment> \<open>\<open>from_slice\<close> of sodiumoxide's newtypes over \<open>[u8; n]\<close>\<close>
  box_keypair :: "bytes \<Rightarrow> bytes \<Rightarrow> bool"
    \<comment> \<open>the pairs \<open>(pk, sk)\<close> that \<open>box_::gen_keypair\<close> returns\<close>
  sign_keypair :: "bytes \<Rightarrow> bytes \<Rightarrow> bool"
    \<comment> \<open>the pairs \<open>(pk, sk)\<close> that \<open>sign::gen_keypair\<close> returns\<close>
  scalarmult :: "bytes \<Rightarrow> bytes \<Rightarrow> bytes option"
    \<comment> \<open>\<open>curve25519::scalarmult\<close> of a scalar and a group element\<close>
  ed_pk_to_curve :: "bytes \<Rightarrow> bytes option"
    \<comment> \<open>\<open>crypto_sign_ed25519_pk_to_curve25519\<close>, None for a non-zero return\<close>
  ed_sk_to_curve :: "bytes \<Rightarrow> bytes option"
  sign_detached :: "bytes \<Rightarrow> bytes \<Rightarrow> bytes"
    \<comment> \<open>message, secret key\<close>
  verify_detached :: "bytes \<Rightarrow> bytes \<Rightarrow> bytes \<Rightarrow> bool"
    \<comment> \<open>signature, message, public key\<close>
  signature_from_bytes :: "bytes \<Rightarrow> bytes option"
    \<comment> \<open>\<open>sign::Signature::from_bytes\<close>\<close>
  hkdf_sha256 :: "bytes option \<Rightarrow> bytes \<Rightarrow> bytes \<Rightarrow> nat \<Rightarrow> bytes option"
    \<comment> \<open>salt, input key, info, output length\<close>
  hmac_sha256 :: "bytes \<Rightarrow> bytes \<Rightarrow> bytes option"
    \<comment> \<open>key, data; None when \<open>new_from_slice\<close> refuses the key\<close>
  sha256 :: "bytes \<Rightarrow> bytes"
  aead_seal :: "bytes \<Rightarrow> bytes option \<Rightarrow> bytes \<Rightarrow> bytes \<Rightarrow> bytes"
    \<comment> \<open>\<open>xchacha20poly1305_ietf::seal\<close>: message, associated data, nonce, key\<close>
  aead_open :: "bytes \<Rightarrow> bytes option \<Rightarrow> bytes \<Rightarrow> bytes \<Rightarrow> bytes option"
  secretbox_seal :: "bytes \<Rightarrow> bytes \<Rightarrow> bytes \<Rightarrow> bytes"
    \<comment> \<open>message, nonce, key\<close>
  secretbox_open :: "bytes \<Rightarrow> bytes \<Rightarrow> bytes \<Rightarrow> bytes option"
  box_seal :: "bytes \<Rightarrow> bytes \<Rightarrow> bytes \<Rightarrow> bytes \<Rightarrow> bytes"
    \<comment> \<open>message, nonce, their public key, our secret key\<close>
  box_open :: "bytes \<Rightarrow> bytes \<Rightarrow> bytes \<Rightarrow> bytes \<Rightarrow> bytes option"
  sealedbox_seal :: "bytes \<Rightarrow> bytes \<Rightarrow> bytes \<Rightarrow> bytes"
    \<comment> \<open>the randomness it draws, message, recipient public key\<close>
  sealedbox_open :: "bytes \<Rightarrow> bytes \<Rightarrow> bytes \<Rightarrow> bytes option"
    \<comment> \<open>ciphertext, our public key, our secret key\<close>
  memcmp :: "bytes \<Rightarrow> bytes \<Rightarrow> bool"
  hex_encode :: "bytes \<Rightarrow> string"
  hex_decode :: "string \<Rightarrow> bytes option"

text \<open>
  A run of \<open>randombytes\<close>: the bytes it yields, by position.  A buffer of length
  \<open>n\<close> is filled with the first \<open>n\<close> of them.
\<close>

type_synonym random = "nat \<Rightarrow> u8"

definition random_bytes :: "random \<Rightarrow> nat \<Rightarrow> bytes" where
  "random_bytes rnd n = map rnd [0 ..< n]"

lemma length_random_bytes [simp]: "length (random_bytes rnd n) = n"
  by (simp add: random_bytes_def)

subsection \<open>Documented behaviour\<close>

named_theorems prims_laws "definitions of the documented laws of the packages"

text \<open>A fixed-size newtype accepts exactly the slices of its size.\<close>

definition slices_ok :: "prims \<Rightarrow> bool" where [prims_laws]:
  "slices_ok P \<longleftrightarrow> (\<forall>n b. from_slice P n b = (if length b = n then Some b else None))"

text \<open>
  X25519: keys and shared secrets have 32 bytes, and the two sides of an exchange between
  generated key pairs succeed with the same shared secret.
\<close>

definition dh_ok :: "prims \<Rightarrow> bool" where [prims_laws]:
  "dh_ok P \<longleftrightarrow>
     (\<forall>pk sk. box_keypair P pk sk \<longrightarrow> length pk = 32 \<and> length sk = 32) \<and>
     (\<forall>s p x. scalarmult P s p = Some x \<longrightarrow> length x = 32) \<and>
     (\<forall>pka ska pkb skb. box_keypair P pka ska \<longrightarrow> box_keypair P pkb skb \<longrightarrow>
        scalarmult P ska pkb = scalarmult P skb pka \<and> scalarmult P ska pkb \<noteq> None)"

text \<open>
  Ed25519: sizes, correctness of detached signatures, the parser of 64-byte signatures (which
  accepts every signature that signing returns), and the conversion of a signing key pair to
  an X25519 key pair.
\<close>

definition sign_ok :: "prims \<Rightarrow> bool" where [prims_laws]:
  "sign_ok P \<longleftrightarrow>
     (\<forall>pk sk. sign_keypair P pk sk \<longrightarrow> length pk = 32 \<and> length sk = 64) \<and>
     (\<forall>m sk. length (sign_detached P m sk) = 64) \<and>
     (\<forall>pk sk m. sign_keypair P pk sk \<longrightarrow> verify_detached P (sign_detached P m sk) m pk) \<and>
     (\<forall>s s'. signature_from_bytes P s = Some s' \<longrightarrow> s' = s \<and> length s = 64) \<and>
     (\<forall>m sk. signature_from_bytes P (sign_detached P m sk) = Some (sign_detached P m sk))"

definition convert_ok :: "prims \<Rightarrow> bool" where [prims_laws]:
  "convert_ok P \<longleftrightarrow>
     (\<forall>pk sk. sign_keypair P pk sk \<longrightarrow>
        (\<exists>cpk csk. ed_pk_to_curve P pk = Some cpk \<and> ed_sk_to_curve P sk = Some csk \<and>
           box_keypair P cpk csk))"

text \<open>HKDF-SHA256 gives any length up to 255 hash lengths; HMAC accepts keys of any length.\<close>

definition kdf_ok :: "prims \<Rightarrow> bool" where [prims_laws]:
  "kdf_ok P \<longleftrightarrow>
     (\<forall>salt ikm info n. n \<le> 255 * 32 \<longrightarrow>
        (\<exists>okm. hkdf_sha256 P salt ikm info n = Some okm \<and> length okm = n)) \<and>
     (\<forall>k d. \<exists>mac. hmac_sha256 P k d = Some mac \<and> length mac = 32)"

definition sha256_ok :: "prims \<Rightarrow> bool" where [prims_laws]:
  "sha256_ok P \<longleftrightarrow> (\<forall>m. length (sha256 P m) = 32)"

text \<open>Each cipher opens what it sealed, and sealing adds a 16-byte tag.\<close>

definition aead_ok :: "prims \<Rightarrow> bool" where [prims_laws]:
  "aead_ok P \<longleftrightarrow> (\<forall>m ad n k.
     aead_open P (aead_seal P m ad n k) ad n k = Some m \<and>
     length (aead_seal P m ad n k) = length m + 16)"

text \<open>
  The cipher is deterministic once key, nonce and associated data are fixed, and a tag that
  verifies is the tag of the returned plaintext: only a sealing opens.
\<close>

definition aead_unique :: "prims \<Rightarrow> bool" where [prims_laws]:
  "aead_unique P \<longleftrightarrow> (\<forall>c ad n k m. aead_open P c ad n k = Some m \<longrightarrow> c = aead_seal P m ad n k)"

definition secretbox_ok :: "prims \<Rightarrow> bool" where [prims_laws]:
  "secretbox_ok P \<longleftrightarrow> (\<forall>m n k.
     secretbox_open P (secretbox_seal P m n k) n k = Some m \<and>
     length (secretbox_seal P m n k) = length m + 16)"

definition box_ok :: "prims \<Rightarrow> bool" where [prims_laws]:
  "box_ok P \<longleftrightarrow> (\<forall>m n pka ska pkb skb. box_keypair P pka ska \<longrightarrow> box_keypair P pkb skb \<longrightarrow>
     box_open P (box_seal P m n pkb ska) n pka skb = Some m)"

definition sealedbox_ok :: "prims \<Rightarrow> bool" where [prims_laws]:
  "sealedbox_ok P \<longleftrightarrow> (\<forall>r m pk sk. box_keypair P pk sk \<longrightarrow>
     sealedbox_open P (sealedbox_seal P r m pk) pk sk = Some m)"

text \<open>\<open>hex::encode\<close> writes two lower-case digits per byte and \<open>hex::decode\<close> reads them back.\<close>

definition hex_ok :: "prims \<Rightarrow> bool" where [prims_laws]:
  "hex_ok P \<longleftrightarrow> (\<forall>b. hex_decode P (hex_encode P b) = Some b \<and>
     length (hex_encode P b) = 2 * length b \<and> list_all is_ascii_hexdigit (hex_encode P b))"

definition memcmp_ok :: "prims \<Rightarrow> bool" where [prims_laws]:
  "memcmp_ok P \<longleftrightarrow> (\<forall>a b. length a = length b \<longrightarrow> memcmp P a b = (a = b))"

subsection \<open>Consequences shared by the components\<close>

lemma from_slice_eq: "slices_ok P \<Longrightarrow> from_slice P n b = (if length b = n then Some b else None)"
  by (simp add: slices_ok_def)

lemma keypair_lengths:
  assumes "dh_ok P" "box_keypair P pk sk"
  shows "length pk = 32" "length sk = 32"
  using assms by (auto simp: dh_ok_def)

lemma dh_agree:
  assumes "dh_ok P" "box_keypair P pka ska" "box_keypair P pkb skb"
  obtains x where "scalarmult P ska pkb = Some x" "scalarmult P skb pka = Some x" "length x = 32"
  using assms unfolding dh_ok_def by (metis not_None_eq)

lemma scalarmult_length: "dh_ok P \<Longrightarrow> scalarmult P s p = Some x \<Longrightarrow> length x = 32"
  by (auto simp: dh_ok_def)

lemma converted_keypair:
  assumes "convert_ok P" "sign_keypair P pk sk"
  obtains cpk csk where "ed_pk_to_curve P pk = Some cpk" "ed_sk_to_curve P sk = Some csk"
    "box_keypair P cpk csk"
  using assms unfolding convert_ok_def by blast

lemma hkdf_total:
  assumes "kdf_ok P" "n \<le> 255 * 32"
  obtains okm where "hkdf_sha256 P salt ikm info n = Some okm" "length okm = n"
  using assms unfolding kdf_ok_def by blast

lemma hmac_total:
  assumes "kdf_ok P"
  obtains mac where "hmac_sha256 P k d = Some mac" "length mac = 32"
  using assms unfolding kdf_ok_def by metis

lemma sign_keypair_lengths:
  assumes "sign_ok P" "sign_keypair P pk sk"
  shows "length pk = 32" "length sk = 64"
  using assms by (auto simp: sign_ok_def)

lemma sign_verifies:
  "sign_ok P \<Longrightarrow> sign_keypair P pk sk \<Longrightarrow> verify_detached P (sign_detached P m sk) m pk"
  by (auto simp: sign_ok_def)

lemma signature_laws:
  assumes "sign_ok P"
  shows "length (sign_detached P m sk) = 64"
    and "signature_from_bytes P (sign_detached P m sk) = Some (sign_detached P m sk)"
    and "signature_from_bytes P s = Some s' \<Longrightarrow> s' = s"
  using assms by (auto simp: sign_ok_def)

lemma aead_laws:
  assumes "aead_ok P"
  shows "aead_open P (aead_seal P m ad n k) ad n k = Some m"
    and "length (aead_seal P m ad n k) = length m + 16"
  using assms by (simp_all add: aead_ok_def)

lemma hex_laws:
  assumes "hex_ok P"
  shows "hex_decode P (hex_encode P b) = Some b"
    and "length (hex_encode P b) = 2 * length b"
    and "list_all is_ascii_hexdigit (hex_encode P b)"
  using assms by (simp_all add: hex_ok_def)

end
