(* ===== verification/Demo_Prims.thy ===== *)
theory Demo_Prims
  imports Primitives
begin

section \<open>A concrete instance of the packages, for witnesses\<close>

text \<open>
  Executable stand-ins that satisfy every documented law, so that the hypotheses of the
  theorems are seen to be satisfiable together.  They have no cryptographic strength and no
  definition of the model refers to them.
\<close>

definition fit :: "nat \<Rightarrow> bytes \<Rightarrow> bytes" where
  "fit n bs = take n (bs @ replicate n 0)"

definition demo_tag :: "bytes \<Rightarrow> bytes" where
  "demo_tag k = fit 16 k"

definition demo_open :: "bytes \<Rightarrow> bytes \<Rightarrow> bytes option" where
  "demo_open c k =
     (if 16 \<le> length c \<and> drop (length c - 16) c = demo_tag k
      then Some (take (length c - 16) c) else None)"

definition hex_lower :: "nat \<Rightarrow> char" where
  "hex_lower d = (if d < 10 then char_of (48 + d) else char_of (87 + d))"

definition hex_value :: "char \<Rightarrow> nat" where
  "hex_value c = (let n = (of_char c :: nat) in
     if n < 58 then n - 48 else if n < 71 then n - 55 else n - 87)"

fun demo_hex :: "bytes \<Rightarrow> string" where
  "demo_hex [] = []"
| "demo_hex (b # bs) = hex_lower (unat b div 16) # hex_lower (unat b mod 16) # demo_hex bs"

fun demo_unhex :: "string \<Rightarrow> bytes option" where
  "demo_unhex [] = Some []"
| "demo_unhex [c] = None"
| "demo_unhex (c # d # s) =
     (if is_ascii_hexdigit c \<and> is_ascii_hexdigit d
      then map_option ((#) (word_of_nat (16 * hex_value c + hex_value d))) (demo_unhex s) else None)"

definition demo_prims :: prims where
  "demo_prims = \<lparr>
     sodium_init = True,
     from_slice = (\<lambda>n b. if length b = n then Some b else None),
     box_keypair = (\<lambda>pk sk. length pk = 32 \<and> sk = pk),
     sign_keypair = (\<lambda>pk sk. length sk = 64 \<and> pk = take 32 sk),
     scalarmult = (\<lambda>s p. Some (fit 32 (map2 (+) s p))),
     ed_pk_to_curve = Some,
     ed_sk_to_curve = (\<lambda>sk. Some (take 32 sk)),
     sign_detached = (\<lambda>m sk. fit 32 sk @ fit 32 m),
     verify_detached = (\<lambda>s m pk. s = fit 32 pk @ fit 32 m),
     signature_from_bytes = (\<lambda>s. if length s = 64 then Some s else None),
     hkdf_sha256 = (\<lambda>salt ikm info n. if n \<le> 255 * 32 then
        Some (fit n (map2 (+) (fit 32 (case salt of None \<Rightarrow> [] | Some s \<Rightarrow> s)) (fit 32 ikm) @ rev (fit 32 ikm)))
        else None),
     hmac_sha256 = (\<lambda>k d. Some (fit 32 (map ((+) (sum_list d)) k))),
     sha256 = fit 32,
     aead_seal = (\<lambda>m ad n k. m @ demo_tag k),
     aead_open = (\<lambda>c ad n k. demo_open c k),
     secretbox_seal = (\<lambda>m n k. m @ demo_tag k),
     secretbox_open = (\<lambda>c n k. demo_open c k),
     box_seal = (\<lambda>m n pk sk. m @ demo_tag (fit 32 (map2 (+) pk sk))),
     box_open = (\<lambda>c n pk sk. demo_open c (fit 32 (map2 (+) pk sk))),
     sealedbox_seal = (\<lambda>r m pk. m @ demo_tag pk),
     sealedbox_open = (\<lambda>c pk sk. if sk = pk then demo_open c pk else None),
     memcmp = (=),
     hex_encode = demo_hex,
     hex_decode = demo_unhex \<rparr>"

lemma length_fit [simp]: "length (fit n bs) = n"
  by (simp add: fit_def)

lemma fit_exact: "length bs = n \<Longrightarrow> fit n bs = bs"
  by (simp add: fit_def)

lemma demo_open_tag [simp]: "demo_open (m @ demo_tag k) k = Some m"
  by (simp add: demo_open_def demo_tag_def)

lemma demo_open_only: "demo_open c k = Some m \<Longrightarrow> c = m @ demo_tag k"
  by (auto simp: demo_open_def split: if_splits) (metis append_take_drop_id)

lemma map2_add_commute: "map2 (+) xs ys = map2 (+) ys (xs :: bytes)"
  by (induction xs ys rule: list_induct2') (auto simp: add.commute)

lemma hex_lower_value: "d < 16 \<Longrightarrow> hex_value (hex_lower d) = d \<and> is_ascii_hexdigit (hex_lower d)"
  by (auto simp: hex_value_def hex_lower_def is_ascii_hexdigit_def of_char_of Let_def)

lemma demo_hex_laws:
  "demo_unhex (demo_hex b) = Some b \<and> length (demo_hex b) = 2 * length b
   \<and> list_all is_ascii_hexdigit (demo_hex b)"
proof (induction b)
  case Nil
  then show ?case by simp
next
  case (Cons x b)
  have "unat x < 256"
    using unsigned_less [of x] by simp
  then have "unat x div 16 < 16"
    by simp
  with Cons show ?case
    by (simp add: hex_lower_value)
qed

lemma demo_laws:
  "slices_ok demo_prims" "dh_ok demo_prims" "sign_ok demo_prims" "convert_ok demo_prims"
  "kdf_ok demo_prims" "sha256_ok demo_prims" "aead_ok demo_prims" "aead_unique demo_prims"
  "secretbox_ok demo_prims" "box_ok demo_prims" "sealedbox_ok demo_prims" "hex_ok demo_prims"
  "memcmp_ok demo_prims" "sodium_init demo_prims"
  by (auto simp: demo_prims_def prims_laws demo_hex_laws demo_open_only map2_add_commute
      fit_exact demo_tag_def [symmetric])
    (simp_all add: demo_tag_def fit_def)

end
