(* ===== verification/Security_Utils.thy ===== *)
theory Security_Utils
  imports Demo_Prims
begin

section \<open>Security utilities\<close>

text \<open>
  \<open>crates/vaultex-crypto/src/security.rs\<close>: comparison, random bytes and wiping.  Timing is
  outside the model; \<open>debug_assert\<close> is compiled out of the release build modelled here.
\<close>

definition constant_time_eq :: "prims \<Rightarrow> bytes \<Rightarrow> bytes \<Rightarrow> bool" where
  "constant_time_eq P a b = (if length a \<noteq> length b then False else memcmp P a b)"

definition secure_random_bytes :: "random \<Rightarrow> nat \<Rightarrow> bytes" where
  "secure_random_bytes rnd len = random_bytes rnd len"

definition wipe_memory :: "bytes \<Rightarrow> bytes" where
  "wipe_memory d = zeroed d"

text \<open>The comparison decides equality, including for slices of different lengths.\<close>

theorem constant_time_eq_correct: "memcmp_ok P \<Longrightarrow> constant_time_eq P a b \<longleftrightarrow> a = b"
  by (auto simp: constant_time_eq_def memcmp_ok_def)

theorem constant_time_eq_correct_witness:
  "constant_time_eq demo_prims [1, 2] [1, 2] \<and> \<not> constant_time_eq demo_prims [1, 2] [1, 2, 3]"
  using constant_time_eq_correct [of demo_prims] by (simp add: demo_laws)

lemma wipe_memory_zero: "length (wipe_memory d) = length d \<and> set (wipe_memory d) \<subseteq> {0}"
  by (simp add: wipe_memory_def zeroed_props)

end
