(* ===== verification/Identity.thy ===== *)
theory Identity
  imports Demo_Prims
begin

section \<open>Identity keys\<close>

text \<open>
  \<open>crates/vaultex-crypto/src/identity.rs\<close>: the Ed25519 identity key pair, its signatures
  and its fingerprint.  \<open>generate\<close> takes the pair that \<open>sign::gen_keypair\<close> drew.
\<close>

definition SIGN_PUBLICKEYBYTES :: nat where "SIGN_PUBLICKEYBYTES = 32"

definition SIGN_SECRETKEYBYTES :: nat where "SIGN_SECRETKEYBYTES = 64"

record IdentityKeyPair =
  ik_public_key :: bytes
  ik_secret_key :: bytes

definition ik_generate :: "prims \<Rightarrow> bytes \<times> bytes \<Rightarrow> IdentityKeyPair result" where
  "ik_generate P drawn =
     (if \<not> sodium_init P then Err InitFailed
      else case drawn of (pk, sk) \<Rightarrow> Ok \<lparr>ik_public_key = pk, ik_secret_key = sk\<rparr>)"

definition ik_from_bytes :: "prims \<Rightarrow> bytes \<Rightarrow> bytes \<Rightarrow> IdentityKeyPair result" where
  "ik_from_bytes P public_key secret_key =
     and_then (ok_or (from_slice P SIGN_PUBLICKEYBYTES public_key)
                 (InvalidKeyLength SIGN_PUBLICKEYBYTES (length public_key))) (\<lambda>pk.
     and_then (ok_or (from_slice P SIGN_SECRETKEYBYTES secret_key)
                 (InvalidKeyLength SIGN_SECRETKEYBYTES (length secret_key))) (\<lambda>sk.
     Ok \<lparr>ik_public_key = pk, ik_secret_key = sk\<rparr>))"

definition ik_sign :: "prims \<Rightarrow> IdentityKeyPair \<Rightarrow> bytes \<Rightarrow> bytes" where
  "ik_sign P ik message = sign_detached P message (ik_secret_key ik)"

definition ik_secret_key_bytes :: "IdentityKeyPair \<Rightarrow> bytes" where
  "ik_secret_key_bytes ik = ik_secret_key ik"

definition ik_verify :: "prims \<Rightarrow> bytes \<Rightarrow> bytes \<Rightarrow> bytes \<Rightarrow> bool" where
  "ik_verify P public_key message signature = verify_detached P signature message public_key"

text \<open>
  \<open>bytes[..8].chunks(2)\<close>, each chunk as four upper-case hexadecimal digits, joined by
  U+00B7, which is the two bytes C2 B7 in UTF-8.
\<close>

definition middle_dot :: string where
  "middle_dot = [char_of (0xC2 :: nat), char_of (0xB7 :: nat)]"

fun fingerprint_groups :: "bytes \<Rightarrow> string list" where
  "fingerprint_groups (a # b # bs) = (show_byte_02X a @ show_byte_02X b) # fingerprint_groups bs"
| "fingerprint_groups _ = []"

definition public_key_fingerprint :: "IdentityKeyPair \<Rightarrow> string" where
  "public_key_fingerprint ik = join middle_dot (fingerprint_groups (take 8 (ik_public_key ik)))"

text \<open>\<open>Zeroize for SecretKeyWrapper\<close>, which \<open>Drop\<close> calls.\<close>

definition ik_zeroize :: "IdentityKeyPair \<Rightarrow> IdentityKeyPair" where
  "ik_zeroize ik = ik\<lparr>ik_secret_key := zeroed (ik_secret_key ik)\<rparr>"

subsection \<open>Well-formed identities\<close>

definition identity_ok :: "prims \<Rightarrow> IdentityKeyPair \<Rightarrow> bool" where
  "identity_ok P ik \<longleftrightarrow> sign_keypair P (ik_public_key ik) (ik_secret_key ik)"

lemma ik_generate_ok:
  "sodium_init P \<Longrightarrow> sign_keypair P pk sk \<Longrightarrow>
   \<exists>ik. ik_generate P (pk, sk) = Ok ik \<and> identity_ok P ik \<and> ik_public_key ik = pk"
  by (simp add: ik_generate_def identity_ok_def)

lemma ik_sign_verify:
  "sign_ok P \<Longrightarrow> identity_ok P ik \<Longrightarrow> ik_verify P (ik_public_key ik) m (ik_sign P ik m)"
  by (simp add: ik_verify_def ik_sign_def identity_ok_def sign_verifies)

text \<open>
  An identity stored as its two byte strings and loaded again is the same key pair, so
  its signatures still verify under the public key; other lengths are refused with the
  length that was given.
\<close>

theorem identity_restore:
  assumes "slices_ok P" "sign_ok P" "identity_ok P ik"
  shows "ik_from_bytes P (ik_public_key ik) (ik_secret_key_bytes ik) = Ok ik \<and>
    ik_verify P (ik_public_key ik) m (ik_sign P ik m) \<and>
    ik_from_bytes P pk sk =
      (if length pk \<noteq> 32 then Err (InvalidKeyLength 32 (length pk))
       else if length sk \<noteq> 64 then Err (InvalidKeyLength 64 (length sk))
       else Ok \<lparr>ik_public_key = pk, ik_secret_key = sk\<rparr>)"
  using assms sign_keypair_lengths [of P "ik_public_key ik" "ik_secret_key ik"] ik_sign_verify [of P ik m]
  by (simp add: ik_from_bytes_def from_slice_eq identity_ok_def ik_secret_key_bytes_def
      SIGN_PUBLICKEYBYTES_def SIGN_SECRETKEYBYTES_def)

theorem identity_restore_witness:
  "\<exists>ik. ik_generate demo_prims (replicate 32 7, replicate 64 7) = Ok ik \<and>
     ik_from_bytes demo_prims (ik_public_key ik) (ik_secret_key_bytes ik) = Ok ik \<and>
     ik_from_bytes demo_prims [1, 2] [] = Err (InvalidKeyLength 32 2)"
proof -
  let ?ik = "\<lparr>ik_public_key = replicate 32 7, ik_secret_key = replicate 64 7\<rparr>"
  have "identity_ok demo_prims ?ik"
    by (simp add: identity_ok_def demo_prims_def)
  then show ?thesis
    using identity_restore [OF demo_laws(1) demo_laws(3), of ?ik "[]" "[1, 2]" "[]"] demo_laws
    by (simp add: ik_generate_def)
qed

subsection \<open>Fingerprints\<close>

lemma show_byte_02X_inject: "show_byte_02X a = show_byte_02X b \<longleftrightarrow> a = b"
proof
  have bound: "unat x div 16 < 16" for x :: u8
  proof -
    have "unat x < 256"
      using unsigned_less [of x] by simp
    then show ?thesis by simp
  qed
  assume "show_byte_02X a = show_byte_02X b"
  then have "unat a div 16 = unat b div 16" "unat a mod 16 = unat b mod 16"
    by (auto simp: show_byte_02X_def bound hex_upper_inject)
  then have "unat a = unat b"
    by (metis div_mult_mod_eq)
  then show "a = b"
    by (simp add: word_unat_eq_iff)
qed simp

lemma length_show_byte_02X [simp]: "length (show_byte_02X b) = 2"
  by (simp add: show_byte_02X_def)

lemma eight_bytes:
  assumes "8 \<le> length (k :: bytes)"
  obtains a b c d e f g h where "take 8 k = [a, b, c, d, e, f, g, h]"
proof -
  have "length (take 8 k) = 8"
    using assms by simp
  then show ?thesis
    using that by (auto simp: length_Suc_conv numeral_eq_Suc simp del: length_take take_Suc_Cons)
qed

text \<open>
  The fingerprint is four groups of four hexadecimal digits (22 bytes of UTF-8 with the
  separators), and two keys have the same fingerprint exactly when their first eight bytes
  agree.
\<close>

theorem fingerprint_first_eight_bytes:
  assumes "8 \<le> length (ik_public_key i)" "8 \<le> length (ik_public_key j)"
  shows "length (public_key_fingerprint i) = 22 \<and>
    (public_key_fingerprint i = public_key_fingerprint j \<longleftrightarrow>
       take 8 (ik_public_key i) = take 8 (ik_public_key j))"
proof -
  obtain a b c d e f g h where i: "take 8 (ik_public_key i) = [a, b, c, d, e, f, g, h]"
    using assms(1) by (rule eight_bytes)
  obtain a' b' c' d' e' f' g' h' where j: "take 8 (ik_public_key j) = [a', b', c', d', e', f', g', h']"
    using assms(2) by (rule eight_bytes)
  show ?thesis
    by (simp add: public_key_fingerprint_def i j middle_dot_def append_eq_append_conv show_byte_02X_inject)
qed

theorem fingerprint_first_eight_bytes_witness:
  "length (public_key_fingerprint \<lparr>ik_public_key = map word_of_nat [0 ..< 32], ik_secret_key = []\<rparr>) = 22"
  using fingerprint_first_eight_bytes
    [of "\<lparr>ik_public_key = map word_of_nat [0 ..< 32], ik_secret_key = []\<rparr>"
        "\<lparr>ik_public_key = map word_of_nat [0 ..< 32], ik_secret_key = []\<rparr>"]
  by simp

end
