(* ===== verification/Prekeys.thy ===== *)
theory Prekeys
  imports Identity
begin

section \<open>Prekeys\<close>

text \<open>
  \<open>crates/vaultex-crypto/src/prekeys.rs\<close>: signed prekeys, one-time prekeys and their
  rotation.  Key pairs drawn by \<open>box_::gen_keypair\<close> are arguments; the clock is the
  optional number of seconds since the epoch, absent when the system clock is before it, in
  which case the code panics (None).
\<close>

definition SIGNED_PREKEY_ROTATION_INTERVAL :: u64 where
  "SIGNED_PREKEY_ROTATION_INTERVAL = 7 * 24 * 60 * 60"

definition SIGNED_PREKEY_GRACE_PERIOD :: u64 where
  "SIGNED_PREKEY_GRACE_PERIOD = 24 * 60 * 60"

definition MIN_ONE_TIME_PREKEYS :: u32 where "MIN_ONE_TIME_PREKEYS = 10"

definition ONE_TIME_PREKEY_BATCH_SIZE :: u32 where "ONE_TIME_PREKEY_BATCH_SIZE = 50"

definition needs_rotation :: "u64 option \<Rightarrow> u64 \<Rightarrow> u64 \<Rightarrow> bool option" where
  "needs_rotation clock created_at max_age_secs =
     (case clock of None \<Rightarrow> None | Some now \<Rightarrow> Some (max_age_secs \<le> saturating_sub now created_at))"

definition current_timestamp :: "u64 option \<Rightarrow> u64 option" where
  "current_timestamp clock = clock"

subsection \<open>Signed prekeys\<close>

record SignedPreKey =
  spk_prekey_id :: u32
  spk_public_key :: bytes
  spk_secret_key :: bytes
  spk_signature :: bytes

definition spk_generate :: "prims \<Rightarrow> bytes \<times> bytes \<Rightarrow> IdentityKeyPair \<Rightarrow> u32 \<Rightarrow> SignedPreKey result" where
  "spk_generate P drawn ident prekey_id =
     (if \<not> sodium_init P then Err InitFailed
      else case drawn of (pk, sk) \<Rightarrow>
        Ok \<lparr>spk_prekey_id = prekey_id, spk_public_key = pk, spk_secret_key = sk,
            spk_signature = ik_sign P ident pk\<rparr>)"

definition spk_verify :: "prims \<Rightarrow> SignedPreKey \<Rightarrow> bytes \<Rightarrow> bool" where
  "spk_verify P spk identity_key = verify_detached P (spk_signature spk) (spk_public_key spk) identity_key"

definition spk_public_key_hex :: "prims \<Rightarrow> SignedPreKey \<Rightarrow> string" where
  "spk_public_key_hex P spk = hex_encode P (spk_public_key spk)"

definition spk_signature_hex :: "prims \<Rightarrow> SignedPreKey \<Rightarrow> string" where
  "spk_signature_hex P spk = hex_encode P (spk_signature spk)"

definition spk_from_bytes :: "prims \<Rightarrow> u32 \<Rightarrow> bytes \<Rightarrow> bytes \<Rightarrow> bytes \<Rightarrow> SignedPreKey result" where
  "spk_from_bytes P prekey_id public_key secret_key sig =
     and_then (ok_or (from_slice P 32 public_key) (InvalidKeyLength 32 (length public_key))) (\<lambda>pk.
     and_then (ok_or (from_slice P 32 secret_key) (InvalidKeyLength 32 (length secret_key))) (\<lambda>sk.
     and_then (ok_or (signature_from_bytes P sig) (InvalidKeyLength 64 (length sig))) (\<lambda>s.
     Ok \<lparr>spk_prekey_id = prekey_id, spk_public_key = pk, spk_secret_key = sk, spk_signature = s\<rparr>)))"

definition spk_drop :: "SignedPreKey \<Rightarrow> SignedPreKey" where
  "spk_drop spk = spk\<lparr>spk_secret_key := zeroed (spk_secret_key spk)\<rparr>"

subsection \<open>One-time prekeys\<close>

record OneTimePreKey =
  otpk_prekey_id :: u32
  otpk_public_key :: bytes
  otpk_secret_key :: bytes

definition otpk_generate :: "prims \<Rightarrow> bytes \<times> bytes \<Rightarrow> u32 \<Rightarrow> OneTimePreKey result" where
  "otpk_generate P drawn prekey_id =
     (if \<not> sodium_init P then Err InitFailed
      else case drawn of (pk, sk) \<Rightarrow>
        Ok \<lparr>otpk_prekey_id = prekey_id, otpk_public_key = pk, otpk_secret_key = sk\<rparr>)"

definition otpk_public_key_hex :: "prims \<Rightarrow> OneTimePreKey \<Rightarrow> string" where
  "otpk_public_key_hex P k = hex_encode P (otpk_public_key k)"

definition otpk_from_bytes :: "prims \<Rightarrow> u32 \<Rightarrow> bytes \<Rightarrow> bytes \<Rightarrow> OneTimePreKey result" where
  "otpk_from_bytes P prekey_id public_key secret_key =
     and_then (ok_or (from_slice P 32 public_key) (InvalidKeyLength 32 (length public_key))) (\<lambda>pk.
     and_then (ok_or (from_slice P 32 secret_key) (InvalidKeyLength 32 (length secret_key))) (\<lambda>sk.
     Ok \<lparr>otpk_prekey_id = prekey_id, otpk_public_key = pk, otpk_secret_key = sk\<rparr>))"

definition otpk_drop :: "OneTimePreKey \<Rightarrow> OneTimePreKey" where
  "otpk_drop k = k\<lparr>otpk_secret_key := zeroed (otpk_secret_key k)\<rparr>"

text \<open>
  The loop \<open>for i in 0..count\<close>; the \<open>i\<close>-th call draws the \<open>i\<close>-th key pair.  The
  sum \<open>starting_id + i\<close> wraps as it does in a release build.
\<close>

fun otpk_loop :: "prims \<Rightarrow> (nat \<Rightarrow> bytes \<times> bytes) \<Rightarrow> u32 \<Rightarrow> u32 list \<Rightarrow> OneTimePreKey list result" where
  "otpk_loop P drawn starting_id [] = Ok []"
| "otpk_loop P drawn starting_id (i # is) =
     and_then (otpk_generate P (drawn (unat i)) (starting_id + i)) (\<lambda>k.
     and_then (otpk_loop P drawn starting_id is) (\<lambda>ks. Ok (k # ks)))"

definition generate_one_time_prekeys ::
    "prims \<Rightarrow> (nat \<Rightarrow> bytes \<times> bytes) \<Rightarrow> u32 \<Rightarrow> u32 \<Rightarrow> OneTimePreKey list result" where
  "generate_one_time_prekeys P drawn count starting_id =
     otpk_loop P drawn starting_id (range_u32 0 count)"

subsection \<open>Properties\<close>

text \<open>
  A signed prekey is due for rotation exactly when its age has reached the interval; a
  creation time in the future counts as age zero.
\<close>

theorem needs_rotation_age:
  "needs_rotation clock created_at max_age =
     map_option (\<lambda>now. unat max_age = 0 \<or> unat created_at + unat max_age \<le> unat now) clock"
proof (cases clock)
  case (Some now)
  have "max_age \<le> saturating_sub now created_at \<longleftrightarrow> unat max_age \<le> unat now - unat created_at"
    by (simp add: word_le_nat_alt unat_saturating_sub)
  then show ?thesis
    by (auto simp: needs_rotation_def Some simp del: unat_eq_0)
qed (simp add: needs_rotation_def)

lemma otpk_loop_ok:
  assumes "sodium_init P"
  shows "otpk_loop P drawn start is =
    Ok (map (\<lambda>i. \<lparr>otpk_prekey_id = start + i, otpk_public_key = fst (drawn (unat i)),
                   otpk_secret_key = snd (drawn (unat i))\<rparr>) is)"
  using assms by (induction "is") (simp_all add: otpk_generate_def split_beta)

text \<open>
  C40: a batch of one-time prekeys has the requested size, consecutive identifiers from the
  starting one, and no identifier twice, even when the identifiers wrap around.
\<close>

theorem one_time_prekey_batch:
  assumes "sodium_init P"
  shows "\<exists>ks. generate_one_time_prekeys P drawn count start = Ok ks \<and> length ks = unat count \<and>
    map otpk_prekey_id ks = map (\<lambda>i. start + i) (range_u32 0 count) \<and> distinct (map otpk_prekey_id ks)"
  using assms by (simp add: generate_one_time_prekeys_def otpk_loop_ok comp_def distinct_map inj_on_def)

theorem one_time_prekey_batch_witness:
  "\<exists>ks. generate_one_time_prekeys demo_prims (\<lambda>i. (replicate 32 (word_of_nat i), replicate 32 (word_of_nat i)))
      3 0xFFFFFFFE = Ok ks \<and> map otpk_prekey_id ks = [0xFFFFFFFE, 0xFFFFFFFF, 0]"
  using one_time_prekey_batch [OF demo_laws(14),
      of "\<lambda>i. (replicate 32 (word_of_nat i), replicate 32 (word_of_nat i))" 3 "0xFFFFFFFE"]
  by (auto simp: range_u32_def upt_conv_Cons)

text \<open>A signed prekey that is well-formed for an identity.\<close>

definition spk_ok :: "prims \<Rightarrow> bytes \<Rightarrow> SignedPreKey \<Rightarrow> bool" where
  "spk_ok P identity_key spk \<longleftrightarrow>
     box_keypair P (spk_public_key spk) (spk_secret_key spk) \<and> spk_verify P spk identity_key"

text \<open>
  A generated signed prekey verifies under the identity that signed it, and storing and
  restoring its bytes gives back the same prekey.
\<close>

theorem signed_prekey_lifecycle:
  assumes "slices_ok P" "dh_ok P" "sign_ok P" "sodium_init P"
    and "identity_ok P ident" "box_keypair P pk sk"
  shows "\<exists>spk. spk_generate P (pk, sk) ident i = Ok spk \<and> spk_ok P (ik_public_key ident) spk \<and>
    spk_from_bytes P i (spk_public_key spk) (spk_secret_key spk) (spk_signature spk) = Ok spk"
  using assms keypair_lengths [of P pk sk]
  by (simp add: spk_generate_def spk_ok_def spk_verify_def spk_from_bytes_def ik_sign_def identity_ok_def
      from_slice_eq signature_laws sign_verifies)

theorem signed_prekey_lifecycle_witness:
  "\<exists>spk. spk_generate demo_prims (replicate 32 3, replicate 32 3)
      \<lparr>ik_public_key = replicate 32 7, ik_secret_key = replicate 64 7\<rparr> 1 = Ok spk \<and>
    spk_verify demo_prims spk (replicate 32 7)"
proof -
  have "identity_ok demo_prims \<lparr>ik_public_key = replicate 32 7, ik_secret_key = replicate 64 7\<rparr>"
    "box_keypair demo_prims (replicate 32 3) (replicate 32 3)"
    by (simp_all add: identity_ok_def demo_prims_def)
  from signed_prekey_lifecycle [OF demo_laws(1) demo_laws(2) demo_laws(3) demo_laws(14) this, of 1]
  show ?thesis
    by (auto simp: spk_ok_def)
qed

end
