(* ===== verification/X3dh.thy ===== *)
theory X3dh
  imports Prekeys
begin

section \<open>X3DH key agreement\<close>

text \<open>
  \<open>crates/vaultex-crypto/src/x3dh.rs\<close>.  The initiator checks the signed prekey, runs three
  or four Diffie-Hellman exchanges and derives a secret; the responder runs the mirrored
  exchanges.  The ephemeral pair drawn by the initiator is an argument.
\<close>

definition X3DH_INFO :: bytes where "X3DH_INFO = as_bytes ''VAULTEX_X3DH''"

definition ed25519_pk_to_curve25519 :: "prims \<Rightarrow> bytes \<Rightarrow> bytes result" where
  "ed25519_pk_to_curve25519 P pk =
     and_then (ok_or (ed_pk_to_curve P pk) (InvalidKeyLength 32 0)) (\<lambda>curve_pk.
     ok_or (from_slice P 32 curve_pk) (InvalidKeyLength 32 (length curve_pk)))"

definition ed25519_sk_to_curve25519 :: "prims \<Rightarrow> bytes \<Rightarrow> bytes result" where
  "ed25519_sk_to_curve25519 P sk =
     and_then (ok_or (ed_sk_to_curve P sk) (InvalidKeyLength 32 0)) (\<lambda>curve_sk.
     ok_or (from_slice P 32 curve_sk) (InvalidKeyLength 32 (length curve_sk)))"

definition dh :: "prims \<Rightarrow> bytes \<Rightarrow> bytes \<Rightarrow> bytes result" where
  "dh P our_secret their_public = ok_or (scalarmult P our_secret their_public) HkdfExpandFailed"

definition kdf :: "prims \<Rightarrow> bytes \<Rightarrow> bytes result" where
  "kdf P dh_concat = ok_or (hkdf_sha256 P None dh_concat X3DH_INFO 32) HkdfExpandFailed"

record RecipientPreKeyBundle =
  rb_identity_key :: bytes
  rb_signed_prekey :: bytes
  rb_signed_prekey_signature :: bytes
  rb_one_time_prekey :: "(u32 \<times> bytes) option"

record X3DHInitResult =
  xr_shared_secret :: bytes
  xr_ephemeral_public_key :: bytes
  xr_used_one_time_prekey_id :: "u32 option"

definition xr_drop :: "X3DHInitResult \<Rightarrow> X3DHInitResult" where
  "xr_drop r = r\<lparr>xr_shared_secret := zeroed (xr_shared_secret r)\<rparr>"

definition initiate_x3dh ::
    "prims \<Rightarrow> bytes \<times> bytes \<Rightarrow> IdentityKeyPair \<Rightarrow> RecipientPreKeyBundle \<Rightarrow> X3DHInitResult result" where
  "initiate_x3dh P drawn sender_identity bundle =
     (if \<not> sodium_init P then Err InitFailed
      else if \<not> verify_detached P (rb_signed_prekey_signature bundle) (rb_signed_prekey bundle)
                 (rb_identity_key bundle)
      then Err InvalidPreKeySignature
      else
        and_then (ed25519_sk_to_curve25519 P (ik_secret_key sender_identity)) (\<lambda>ik_a_curve_sk.
        and_then (ed25519_pk_to_curve25519 P (rb_identity_key bundle)) (\<lambda>ik_b_curve_pk.
        (case drawn of (ek_pk, ek_sk) \<Rightarrow>
        and_then (ok_or (from_slice P 32 (take 32 ek_sk)) (InvalidKeyLength 32 32)) (\<lambda>ek_scalar.
        and_then (ok_or (from_slice P 32 (rb_signed_prekey bundle)) (InvalidKeyLength 32 32)) (\<lambda>spk_ge.
        and_then (dh P ik_a_curve_sk spk_ge) (\<lambda>dh1.
        and_then (dh P ek_scalar ik_b_curve_pk) (\<lambda>dh2.
        and_then (dh P ek_scalar spk_ge) (\<lambda>dh3.
        and_then
          (case rb_one_time_prekey bundle of
             None \<Rightarrow> Ok (dh1 @ dh2 @ dh3, None)
           | Some (otpk_id, otpk_pk) \<Rightarrow>
               and_then (ok_or (from_slice P 32 otpk_pk) (InvalidKeyLength 32 32)) (\<lambda>otpk_ge.
               and_then (dh P ek_scalar otpk_ge) (\<lambda>dh4.
               Ok (dh1 @ dh2 @ dh3 @ dh4, Some otpk_id))))
          (\<lambda>(dh_concat, used_otpk_id).
        and_then (kdf P dh_concat) (\<lambda>shared_secret.
        Ok \<lparr>xr_shared_secret = shared_secret, xr_ephemeral_public_key = ek_pk,
            xr_used_one_time_prekey_id = used_otpk_id\<rparr>)))))))))))"

definition accept_x3dh ::
    "prims \<Rightarrow> IdentityKeyPair \<Rightarrow> bytes \<Rightarrow> bytes option \<Rightarrow> bytes \<Rightarrow> bytes \<Rightarrow> bytes result" where
  "accept_x3dh P receiver_identity signed_prekey_secret one_time_prekey_secret
      sender_identity_key sender_ephemeral_key =
     (if \<not> sodium_init P then Err InitFailed
      else
        and_then (ed25519_sk_to_curve25519 P (ik_secret_key receiver_identity)) (\<lambda>ik_b_curve_sk.
        and_then (ed25519_pk_to_curve25519 P sender_identity_key) (\<lambda>ik_a_ge.
        and_then (ok_or (from_slice P 32 (take 32 signed_prekey_secret)) (InvalidKeyLength 32 32)) (\<lambda>spk_scalar.
        and_then (ok_or (from_slice P 32 sender_ephemeral_key) (InvalidKeyLength 32 32)) (\<lambda>ek_ge.
        and_then (dh P spk_scalar ik_a_ge) (\<lambda>dh1.
        and_then (dh P ik_b_curve_sk ek_ge) (\<lambda>dh2.
        and_then (dh P spk_scalar ek_ge) (\<lambda>dh3.
        and_then
          (case one_time_prekey_secret of
             None \<Rightarrow> Ok (dh1 @ dh2 @ dh3)
           | Some otpk_sk \<Rightarrow>
               and_then (ok_or (from_slice P 32 (take 32 otpk_sk)) (InvalidKeyLength 32 32)) (\<lambda>otpk_scalar.
               and_then (dh P otpk_scalar ek_ge) (\<lambda>dh4.
               Ok (dh1 @ dh2 @ dh3 @ dh4))))
          (\<lambda>dh_concat. kdf P dh_concat)))))))))"

subsection \<open>Lemmas\<close>

lemma convert_keypair:
  assumes "slices_ok P" "dh_ok P" "convert_ok P" "identity_ok P ik"
  obtains cpk csk where "ed25519_pk_to_curve25519 P (ik_public_key ik) = Ok cpk"
    "ed25519_sk_to_curve25519 P (ik_secret_key ik) = Ok csk" "box_keypair P cpk csk"
proof -
  obtain cpk csk where c: "ed_pk_to_curve P (ik_public_key ik) = Some cpk"
      "ed_sk_to_curve P (ik_secret_key ik) = Some csk" "box_keypair P cpk csk"
    using assms(3,4) by (auto simp: identity_ok_def elim: converted_keypair)
  then show ?thesis
    using that keypair_lengths [OF assms(2) c(3)] assms(1)
    by (simp add: ed25519_pk_to_curve25519_def ed25519_sk_to_curve25519_def from_slice_eq)
qed

lemma dh_pair:
  assumes "dh_ok P" "box_keypair P pka ska" "box_keypair P pkb skb"
  shows "\<exists>x. dh P ska pkb = Ok x \<and> dh P skb pka = Ok x"
proof -
  obtain x where "scalarmult P ska pkb = Some x" "scalarmult P skb pka = Some x"
    by (rule dh_agree [OF assms])
  then show ?thesis
    by (simp add: dh_def)
qed

lemma scalar_of_keypair:
  assumes "slices_ok P" "dh_ok P" "box_keypair P pk sk"
  shows "from_slice P 32 (take 32 sk) = Some sk" "from_slice P 32 pk = Some pk"
  using assms keypair_lengths [OF assms(2,3)] by (simp_all add: from_slice_eq)

lemma kdf_total:
  assumes "kdf_ok P"
  obtains s where "kdf P ikm = Ok s" "length s = 32"
proof -
  obtain okm where "hkdf_sha256 P None ikm X3DH_INFO 32 = Some okm" "length okm = 32"
    by (rule hkdf_total [OF assms, of 32 None ikm X3DH_INFO]) simp_all
  then show ?thesis
    by (intro that [of okm]) (simp_all add: kdf_def)
qed

text \<open>
  The bundle that Bob publishes: his identity, his signed prekey with its signature and
  possibly a one-time prekey, whose secrets he keeps.
\<close>

definition bundle_of :: "bytes \<Rightarrow> SignedPreKey \<Rightarrow> OneTimePreKey option \<Rightarrow> RecipientPreKeyBundle" where
  "bundle_of identity_key spk otpk =
     \<lparr>rb_identity_key = identity_key, rb_signed_prekey = spk_public_key spk,
      rb_signed_prekey_signature = spk_signature spk,
      rb_one_time_prekey = map_option (\<lambda>k. (otpk_prekey_id k, otpk_public_key k)) otpk\<rparr>"

definition otpk_ok :: "prims \<Rightarrow> OneTimePreKey \<Rightarrow> bool" where
  "otpk_ok P k \<longleftrightarrow> box_keypair P (otpk_public_key k) (otpk_secret_key k)"

definition x3dh_prims_ok :: "prims \<Rightarrow> bool" where
  "x3dh_prims_ok P \<longleftrightarrow> slices_ok P \<and> dh_ok P \<and> sign_ok P \<and> convert_ok P \<and> kdf_ok P \<and> sodium_init P"

lemma x3dh_agree:
  assumes P: "x3dh_prims_ok P"
    and alice: "identity_ok P alice" and bob: "identity_ok P bob"
    and spk: "spk_ok P (ik_public_key bob) spk" and otpk: "\<forall>k \<in> set_option otpk. otpk_ok P k"
    and eph: "box_keypair P epk esk"
  obtains r where "initiate_x3dh P (epk, esk) alice (bundle_of (ik_public_key bob) spk otpk) = Ok r"
    "accept_x3dh P bob (spk_secret_key spk) (map_option otpk_secret_key otpk)
       (ik_public_key alice) (xr_ephemeral_public_key r) = Ok (xr_shared_secret r)"
    "xr_ephemeral_public_key r = epk"
    "xr_used_one_time_prekey_id r = map_option otpk_prekey_id otpk" "length (xr_shared_secret r) = 32"
proof -
  have S: "slices_ok P" and D: "dh_ok P" and C: "convert_ok P" and K: "kdf_ok P" and I: "sodium_init P"
    using P by (simp_all add: x3dh_prims_ok_def)
  obtain apk ask where a: "ed25519_pk_to_curve25519 P (ik_public_key alice) = Ok apk"
      "ed25519_sk_to_curve25519 P (ik_secret_key alice) = Ok ask" "box_keypair P apk ask"
    by (rule convert_keypair [OF S D C alice])
  obtain bpk bsk where b: "ed25519_pk_to_curve25519 P (ik_public_key bob) = Ok bpk"
      "ed25519_sk_to_curve25519 P (ik_secret_key bob) = Ok bsk" "box_keypair P bpk bsk"
    by (rule convert_keypair [OF S D C bob])
  have sk: "box_keypair P (spk_public_key spk) (spk_secret_key spk)"
    and ver: "verify_detached P (spk_signature spk) (spk_public_key spk) (ik_public_key bob)"
    using spk by (simp_all add: spk_ok_def spk_verify_def)
  obtain x1 where x1: "dh P ask (spk_public_key spk) = Ok x1" "dh P (spk_secret_key spk) apk = Ok x1"
    using dh_pair [OF D a(3) sk] by blast
  obtain x2 where x2: "dh P esk bpk = Ok x2" "dh P bsk epk = Ok x2"
    using dh_pair [OF D eph b(3)] by blast
  obtain x3 where x3: "dh P esk (spk_public_key spk) = Ok x3" "dh P (spk_secret_key spk) epk = Ok x3"
    using dh_pair [OF D eph sk] by blast
  note base = I a b x1 x2 x3 ver scalar_of_keypair [OF S D eph] scalar_of_keypair [OF S D sk]
  show ?thesis
  proof (cases otpk)
    case None
    obtain s where "kdf P (x1 @ x2 @ x3) = Ok s" "length s = 32"
      by (rule kdf_total [OF K])
    with None base show ?thesis
      by (intro that [of "\<lparr>xr_shared_secret = s, xr_ephemeral_public_key = epk,
            xr_used_one_time_prekey_id = None\<rparr>"])
        (simp_all add: initiate_x3dh_def accept_x3dh_def bundle_of_def)
  next
    case (Some k)
    with otpk have ok: "box_keypair P (otpk_public_key k) (otpk_secret_key k)"
      by (simp add: otpk_ok_def)
    obtain x4 where x4: "dh P esk (otpk_public_key k) = Ok x4" "dh P (otpk_secret_key k) epk = Ok x4"
      using dh_pair [OF D eph ok] by blast
    obtain s where "kdf P (x1 @ x2 @ x3 @ x4) = Ok s" "length s = 32"
      by (rule kdf_total [OF K])
    with Some base x4 scalar_of_keypair [OF S D ok] show ?thesis
      by (intro that [of "\<lparr>xr_shared_secret = s, xr_ephemeral_public_key = epk,
            xr_used_one_time_prekey_id = Some (otpk_prekey_id k)\<rparr>"])
        (simp_all add: initiate_x3dh_def accept_x3dh_def bundle_of_def)
  qed
qed

subsection \<open>Properties\<close>

text \<open>
  C10: with honest keys and a bundle that Bob published, Alice's initiation and Bob's
  acceptance both succeed with the same 32-byte secret, with or without a one-time prekey, and
  Alice reports the identifier of the one-time prekey she used.
\<close>

theorem x3dh_same_secret:
  assumes "x3dh_prims_ok P" "identity_ok P alice" "identity_ok P bob"
    and "spk_ok P (ik_public_key bob) spk" "\<forall>k \<in> set_option otpk. otpk_ok P k" "box_keypair P epk esk"
  shows "\<exists>r. initiate_x3dh P (epk, esk) alice (bundle_of (ik_public_key bob) spk otpk) = Ok r \<and>
    accept_x3dh P bob (spk_secret_key spk) (map_option otpk_secret_key otpk)
      (ik_public_key alice) (xr_ephemeral_public_key r) = Ok (xr_shared_secret r) \<and>
    xr_used_one_time_prekey_id r = map_option otpk_prekey_id otpk \<and> length (xr_shared_secret r) = 32"
  by (rule x3dh_agree [OF assms]) blast

definition demo_ik :: "u8 \<Rightarrow> IdentityKeyPair" where
  "demo_ik b = \<lparr>ik_public_key = replicate 32 b, ik_secret_key = replicate 64 b\<rparr>"

definition demo_spk :: "u8 \<Rightarrow> u8 \<Rightarrow> SignedPreKey" where
  "demo_spk ident b = \<lparr>spk_prekey_id = 1, spk_public_key = replicate 32 b, spk_secret_key = replicate 32 b,
     spk_signature = replicate 32 ident @ replicate 32 b\<rparr>"

definition demo_otpk :: "u8 \<Rightarrow> OneTimePreKey" where
  "demo_otpk b = \<lparr>otpk_prekey_id = 42, otpk_public_key = replicate 32 b, otpk_secret_key = replicate 32 b\<rparr>"

lemma demo_keys_ok:
  "identity_ok demo_prims (demo_ik b)" "spk_ok demo_prims (ik_public_key (demo_ik i)) (demo_spk i b)"
  "otpk_ok demo_prims (demo_otpk b)" "box_keypair demo_prims (replicate 32 b) (replicate 32 b)"
  "x3dh_prims_ok demo_prims"
  by (simp_all add: demo_ik_def demo_spk_def demo_otpk_def identity_ok_def spk_ok_def otpk_ok_def
      spk_verify_def demo_laws x3dh_prims_ok_def)
    (simp_all add: demo_prims_def fit_exact)

theorem x3dh_same_secret_witness:
  "\<exists>r. initiate_x3dh demo_prims (replicate 32 9, replicate 32 9) (demo_ik 1)
        (bundle_of (ik_public_key (demo_ik 2)) (demo_spk 2 3) (Some (demo_otpk 4))) = Ok r \<and>
     accept_x3dh demo_prims (demo_ik 2) (replicate 32 3) (Some (replicate 32 4))
        (replicate 32 1) (xr_ephemeral_public_key r) = Ok (xr_shared_secret r) \<and>
     xr_used_one_time_prekey_id r = Some 42"
proof -
  have "\<exists>r. initiate_x3dh demo_prims (replicate 32 9, replicate 32 9) (demo_ik 1)
        (bundle_of (ik_public_key (demo_ik 2)) (demo_spk 2 3) (Some (demo_otpk 4))) = Ok r \<and>
     accept_x3dh demo_prims (demo_ik 2) (spk_secret_key (demo_spk 2 3))
        (map_option otpk_secret_key (Some (demo_otpk 4)))
        (ik_public_key (demo_ik 1)) (xr_ephemeral_public_key r) = Ok (xr_shared_secret r) \<and>
     xr_used_one_time_prekey_id r = map_option otpk_prekey_id (Some (demo_otpk 4)) \<and>
     length (xr_shared_secret r) = 32"
    by (rule x3dh_same_secret) (simp_all add: demo_keys_ok)
  then show ?thesis
    by (simp only: demo_otpk_def demo_spk_def demo_ik_def option.map SignedPreKey.select_convs
        OneTimePreKey.select_convs IdentityKeyPair.select_convs) blast
qed

lemma no_signature_error [simp]:
  "dh P a b \<noteq> Err InvalidPreKeySignature" "kdf P c \<noteq> Err InvalidPreKeySignature"
  "ed25519_pk_to_curve25519 P k \<noteq> Err InvalidPreKeySignature"
  "ed25519_sk_to_curve25519 P k \<noteq> Err InvalidPreKeySignature"
  "ok_or x (InvalidKeyLength m n) \<noteq> Err InvalidPreKeySignature"
  by (auto simp: dh_def kdf_def ed25519_pk_to_curve25519_def ed25519_sk_to_curve25519_def
      ok_or_eq_Inl and_then_eq_Inl)

text \<open>
  C11: the signature of the signed prekey decides: the initiation fails with
  \<open>InvalidPreKeySignature\<close> exactly when the signature does not verify under the bundle's
  identity key, so no secret is ever derived from an unsigned prekey.
\<close>

theorem x3dh_signature_checked:
  assumes "sodium_init P"
  shows "initiate_x3dh P drawn ident bundle = Err InvalidPreKeySignature \<longleftrightarrow>
    \<not> verify_detached P (rb_signed_prekey_signature bundle) (rb_signed_prekey bundle) (rb_identity_key bundle)"
proof
  show "\<not> verify_detached P (rb_signed_prekey_signature bundle) (rb_signed_prekey bundle) (rb_identity_key bundle)"
    if e: "initiate_x3dh P drawn ident bundle = Err InvalidPreKeySignature"
  proof
    assume v: "verify_detached P (rb_signed_prekey_signature bundle) (rb_signed_prekey bundle)
      (rb_identity_key bundle)"
    obtain epk esk where "drawn = (epk, esk)"
      by (cases drawn)
    with v assms have "initiate_x3dh P drawn ident bundle \<noteq> Err InvalidPreKeySignature"
      unfolding initiate_x3dh_def
      by (cases "rb_one_time_prekey bundle"; simp add: split_beta; intro allI impI and_then_avoids;
          simp add: split_beta; intro and_then_avoids; simp)
    with e show False by simp
  qed
qed (simp add: initiate_x3dh_def assms)

theorem x3dh_signature_checked_witness:
  "initiate_x3dh demo_prims (replicate 32 9, replicate 32 9) (demo_ik 1)
     (bundle_of (ik_public_key (demo_ik 5)) (demo_spk 2 3) None) = Err InvalidPreKeySignature"
proof -
  let ?b = "bundle_of (ik_public_key (demo_ik 5)) (demo_spk 2 3) None"
  have "\<not> verify_detached demo_prims (rb_signed_prekey_signature ?b) (rb_signed_prekey ?b) (rb_identity_key ?b)"
    by (simp add: bundle_of_def demo_ik_def demo_spk_def demo_prims_def fit_exact)
  then show ?thesis
    by (simp add: x3dh_signature_checked [OF demo_laws(14)])
qed

end
