(* ===== verification/Interfaces.thy ===== *)
theory Interfaces
  imports Prelude
begin

section \<open>Interfaces between the components\<close>

text \<open>
  The contracts that components rely on, as locales: a lossless encoding, an encoding whose
  output size depends on a bucket only, a sealed channel between a sealing and an opening
  key, and a receiver that takes the messages of one chain in any order.  The parameter
  \<open>ok\<close> is the assumption on the context \<open>'c\<close> (the packages, keys) under which the
  laws hold; each component interprets its locale on its own operations.
\<close>

subsection \<open>Lossless encodings\<close>

locale lossless =
  fixes ok :: "'c \<Rightarrow> bool"
    and valid :: "'c \<Rightarrow> 'a \<Rightarrow> bool"
    and enc :: "'c \<Rightarrow> 'r \<Rightarrow> 'a \<Rightarrow> 'e + 'b"
    and dec :: "'c \<Rightarrow> 'b \<Rightarrow> 'f + 'a"
  assumes roundtrip: "ok c \<Longrightarrow> valid c a \<Longrightarrow> enc c r a = Inr b \<Longrightarrow> dec c b = Inr a"
begin

lemma enc_injective:
  assumes "ok c" "valid c a" "valid c a'" "enc c r a = Inr b" "enc c r' a' = Inr b"
  shows "a = a'"
proof -
  from assms have "dec c b = Inr a" "dec c b = Inr a'"
    by (blast intro: roundtrip)+
  then show ?thesis by simp
qed

end

text \<open>
  An encoding that hides lengths: the size of the output is the bucket of the input's size,
  so inputs of one bucket are not told apart by size.
\<close>

locale length_hiding = lossless +
  fixes in_size :: "'b \<Rightarrow> nat" and out_size :: "'d \<Rightarrow> nat" and bucket :: "nat \<Rightarrow> nat"
  constrains enc :: "'c \<Rightarrow> 'r \<Rightarrow> 'b \<Rightarrow> 'e + 'd" and dec :: "'c \<Rightarrow> 'd \<Rightarrow> 'f + 'b"
    and valid :: "'c \<Rightarrow> 'b \<Rightarrow> bool"
  assumes out_bucket: "enc c r a = Inr b \<Longrightarrow> out_size b = bucket (in_size a)"
begin

lemma same_bucket_same_size:
  "enc c r a = Inr b \<Longrightarrow> enc c r' a' = Inr b' \<Longrightarrow> bucket (in_size a) = bucket (in_size a') \<Longrightarrow>
   out_size b = out_size b'"
  by (simp add: out_bucket)

end

text \<open>
  A sealed channel: a lossless encoding that accepts every valid message, given fresh
  randomness \<open>'r\<close> of the right shape.
\<close>

locale sealed_channel = lossless +
  fixes fresh :: "'a \<Rightarrow> 'c \<Rightarrow> bool"
  constrains ok :: "'d \<Rightarrow> bool" and valid :: "'d \<Rightarrow> 'b \<Rightarrow> bool"
    and enc :: "'d \<Rightarrow> 'c \<Rightarrow> 'b \<Rightarrow> 'e + 'f" and dec :: "'d \<Rightarrow> 'f \<Rightarrow> 'g + 'b"
    and fresh :: "'d \<Rightarrow> 'c \<Rightarrow> bool"
  assumes seals: "ok c \<Longrightarrow> valid c a \<Longrightarrow> fresh c r \<Longrightarrow> \<exists>b. enc c r a = Inr b"
begin

lemma delivers:
  assumes "ok c" "valid c a" "fresh c r"
  obtains b where "enc c r a = Inr b" "dec c b = Inr a"
  using seals [OF assms] roundtrip [OF assms(1,2)] by blast

end

text \<open>
  Two lossless encodings in layers: the outer one carries the output of the inner one.  The
  layers are again lossless, in the paired context.
\<close>

definition layer_enc ::
    "('c1 \<Rightarrow> 'r1 \<Rightarrow> 'a \<Rightarrow> 'e + 'b) \<Rightarrow> ('c2 \<Rightarrow> 'r2 \<Rightarrow> 'b \<Rightarrow> 'e + 'd) \<Rightarrow> 'c1 \<times> 'c2 \<Rightarrow> 'r1 \<times> 'r2 \<Rightarrow> 'a \<Rightarrow> 'e + 'd" where
  "layer_enc enc1 enc2 = (\<lambda>(c1, c2) (r1, r2) a. and_then (enc1 c1 r1 a) (enc2 c2 r2))"

definition layer_dec ::
    "('c1 \<Rightarrow> 'b \<Rightarrow> 'e + 'a) \<Rightarrow> ('c2 \<Rightarrow> 'd \<Rightarrow> 'e + 'b) \<Rightarrow> 'c1 \<times> 'c2 \<Rightarrow> 'd \<Rightarrow> 'e + 'a" where
  "layer_dec dec1 dec2 = (\<lambda>(c1, c2) d. and_then (dec2 c2 d) (dec1 c1))"

locale layered =
  inner: lossless ok1 valid1 enc1 dec1 + outer: lossless ok2 valid2 enc2 dec2
  for ok1 :: "'c1 \<Rightarrow> bool" and valid1 :: "'c1 \<Rightarrow> 'a \<Rightarrow> bool"
    and enc1 :: "'c1 \<Rightarrow> 'r1 \<Rightarrow> 'a \<Rightarrow> 'e + 'b" and dec1 :: "'c1 \<Rightarrow> 'b \<Rightarrow> 'e + 'a"
    and ok2 :: "'c2 \<Rightarrow> bool" and valid2 :: "'c2 \<Rightarrow> 'b \<Rightarrow> bool"
    and enc2 :: "'c2 \<Rightarrow> 'r2 \<Rightarrow> 'b \<Rightarrow> 'e + 'd" and dec2 :: "'c2 \<Rightarrow> 'd \<Rightarrow> 'e + 'b" +
  assumes fits: "ok1 c1 \<Longrightarrow> valid1 c1 a \<Longrightarrow> enc1 c1 r1 a = Inr b \<Longrightarrow> enc2 c2 r2 b = Inr d \<Longrightarrow> valid2 c2 b"
begin

lemma layers_roundtrip:
  assumes "ok1 c1" "ok2 c2" "valid1 c1 a" "layer_enc enc1 enc2 (c1, c2) (r1, r2) a = Inr d"
  shows "layer_dec dec1 dec2 (c1, c2) d = Inr a"
proof -
  obtain b where b: "enc1 c1 r1 a = Inr b" "enc2 c2 r2 b = Inr d"
    using assms(4) by (auto simp: layer_enc_def and_then_eq_Inr)
  have "dec2 c2 d = Inr b"
    by (rule outer.roundtrip [OF assms(2) fits [OF assms(1,3) b] b(2)])
  with inner.roundtrip [OF assms(1,3) b(1)] show ?thesis
    by (simp add: layer_dec_def)
qed

end

sublocale layered \<subseteq> layers: lossless
  "\<lambda>(c1, c2). ok1 c1 \<and> ok2 c2" "\<lambda>(c1, c2). valid1 c1" "layer_enc enc1 enc2" "layer_dec dec1 dec2"
  by unfold_locales (auto intro: layers_roundtrip)

subsection \<open>Signed requests\<close>

text \<open>
  Requests \<open>'q\<close> signed over a canonical message: signatures verify, and the message
  determines the request up to its digest \<open>'h\<close>.
\<close>

locale signed_requests =
  fixes ok :: "'c \<Rightarrow> bool" and valid :: "'q \<Rightarrow> bool"
    and canon :: "'c \<Rightarrow> 'q \<Rightarrow> 'm" and digest :: "'c \<Rightarrow> 'q \<Rightarrow> 'h"
    and sign :: "'c \<Rightarrow> 'm \<Rightarrow> 's" and verify :: "'c \<Rightarrow> 'm \<Rightarrow> 's \<Rightarrow> bool"
  assumes complete: "ok c \<Longrightarrow> verify c m (sign c m)"
    and canonical: "ok c \<Longrightarrow> valid q \<Longrightarrow> valid q' \<Longrightarrow> canon c q = canon c q' \<Longrightarrow> digest c q = digest c q'"
begin

lemma signed_verifies: "ok c \<Longrightarrow> canon c q = canon c q' \<Longrightarrow> verify c (canon c q') (sign c (canon c q))"
  using complete by metis

lemma other_digest_other_message:
  "ok c \<Longrightarrow> valid q \<Longrightarrow> valid q' \<Longrightarrow> digest c q \<noteq> digest c q' \<Longrightarrow> canon c q \<noteq> canon c q'"
  using canonical by metis

end

subsection \<open>Sets kept as lists\<close>

text \<open>Additions and removals, what they do to a set, and a run of them on an implementation.\<close>

datatype 'k edit = Add 'k | Remove 'k

fun spec_edits :: "'k edit list \<Rightarrow> 'k set \<Rightarrow> 'k set \<times> bool list" where
  "spec_edits [] A = (A, [])"
| "spec_edits (Add k # es) A = apsnd ((#) (k \<notin> A)) (spec_edits es (insert k A))"
| "spec_edits (Remove k # es) A = apsnd ((#) (k \<in> A)) (spec_edits es (A - {k}))"

fun run_edits :: "('k \<Rightarrow> 's \<Rightarrow> 's \<times> bool) \<Rightarrow> ('k \<Rightarrow> 's \<Rightarrow> 's \<times> bool) \<Rightarrow> 'k edit list \<Rightarrow> 's \<Rightarrow> 's \<times> bool list" where
  "run_edits add remove [] s = (s, [])"
| "run_edits add remove (Add k # es) s = apsnd ((#) (snd (add k s))) (run_edits add remove es (fst (add k s)))"
| "run_edits add remove (Remove k # es) s =
     apsnd ((#) (snd (remove k s))) (run_edits add remove es (fst (remove k s)))"

locale keyed_set =
  fixes elems :: "'s \<Rightarrow> 'k set" and wf :: "'s \<Rightarrow> bool"
    and add :: "'k \<Rightarrow> 's \<Rightarrow> 's \<times> bool" and remove :: "'k \<Rightarrow> 's \<Rightarrow> 's \<times> bool"
    and member :: "'k \<Rightarrow> 's \<Rightarrow> bool"
  assumes add_elems: "elems (fst (add k s)) = insert k (elems s)"
    and add_new: "snd (add k s) \<longleftrightarrow> k \<notin> elems s"
    and add_wf: "wf s \<Longrightarrow> wf (fst (add k s))"
    and remove_elems: "elems (fst (remove k s)) = elems s - {k}"
    and remove_old: "snd (remove k s) \<longleftrightarrow> k \<in> elems s"
    and remove_wf: "wf s \<Longrightarrow> wf (fst (remove k s))"
    and member: "member k s \<longleftrightarrow> k \<in> elems s"
begin

lemma edits_refine:
  "wf s \<Longrightarrow> elems (fst (run_edits add remove es s)) = fst (spec_edits es (elems s)) \<and>
    snd (run_edits add remove es s) = snd (spec_edits es (elems s)) \<and> wf (fst (run_edits add remove es s))"
proof (induction es arbitrary: s)
  case Nil
  then show ?case by simp
next
  case (Cons e es)
  show ?case
  proof (cases e)
    case (Add k)
    with Cons.IH [OF add_wf [OF Cons.prems], of k] show ?thesis
      by (simp add: add_elems add_new)
  next
    case (Remove k)
    with Cons.IH [OF remove_wf [OF Cons.prems], of k] show ?thesis
      by (simp add: remove_elems remove_old)
  qed
qed

end

subsection \<open>Receivers of messages in any order\<close>

text \<open>
  Receiving a sequence of messages, and what it should yield: each message the first time its
  identifier appears, the refusal every time after.
\<close>

fun receive_all :: "('m \<Rightarrow> 's \<Rightarrow> 's \<times> 'r) \<Rightarrow> 'm list \<Rightarrow> 's \<Rightarrow> 's \<times> 'r list" where
  "receive_all f [] st = (st, [])"
| "receive_all f (m # ms) st =
     (case f m st of (st, r) \<Rightarrow> case receive_all f ms st of (st, rs) \<Rightarrow> (st, r # rs))"

fun once :: "('m \<Rightarrow> 'i) \<Rightarrow> ('m \<Rightarrow> 'b) \<Rightarrow> 'e \<Rightarrow> 'i set \<Rightarrow> 'm list \<Rightarrow> ('e + 'b) list" where
  "once ident plain refusal got [] = []"
| "once ident plain refusal got (m # ms) =
     (if ident m \<in> got then Inl refusal else Inr (plain m)) #
     once ident plain refusal (insert (ident m) got) ms"

lemma once_distinct:
  "distinct (map ident ms) \<Longrightarrow> ident ` set ms \<inter> got = {} \<Longrightarrow>
   once ident plain refusal got ms = map (\<lambda>m. Inr (plain m)) ms"
  by (induction ms arbitrary: got) auto

locale out_of_order_receiver =
  fixes recv :: "'c \<Rightarrow> 'm \<Rightarrow> 's \<Rightarrow> 's \<times> ('e + 'b)"
    and inv :: "'c \<Rightarrow> 'i set \<Rightarrow> 's \<Rightarrow> bool"
    and genuine :: "'c \<Rightarrow> 'm \<Rightarrow> bool"
    and ident :: "'m \<Rightarrow> 'i" and plain :: "'m \<Rightarrow> 'b" and refusal :: 'e
  assumes receives: "inv c got st \<Longrightarrow> genuine c m \<Longrightarrow> ident m \<notin> got \<Longrightarrow>
      \<exists>st'. recv c m st = (st', Inr (plain m)) \<and> inv c (insert (ident m) got) st'"
    and refuses: "inv c got st \<Longrightarrow> genuine c m \<Longrightarrow> ident m \<in> got \<Longrightarrow> recv c m st = (st, Inl refusal)"
begin

lemma receives_once:
  "inv c got st \<Longrightarrow> \<forall>m \<in> set ms. genuine c m \<Longrightarrow>
   \<exists>st'. receive_all (recv c) ms st = (st', once ident plain refusal got ms) \<and>
     inv c (got \<union> ident ` set ms) st'"
proof (induction ms arbitrary: got st)
  case Nil
  then show ?case by simp
next
  case (Cons m ms)
  then have g: "genuine c m" "\<forall>m \<in> set ms. genuine c m"
    by simp_all
  show ?case
  proof (cases "ident m \<in> got")
    case True
    then show ?thesis
      using Cons.IH [OF Cons.prems(1) g(2)] refuses [OF Cons.prems(1) g(1) True]
      by (auto simp: insert_absorb)
  next
    case False
    obtain st' where "recv c m st = (st', Inr (plain m))" "inv c (insert (ident m) got) st'"
      using receives [OF Cons.prems(1) g(1) False] by blast
    with Cons.IH [OF _ g(2), of "insert (ident m) got" st'] False show ?thesis
      by auto
  qed
qed

lemma any_order:
  assumes "inv c got st" "\<forall>m \<in> set ms. genuine c m" "distinct (map ident ms)" "ident ` set ms \<inter> got = {}"
  shows "\<exists>st'. receive_all (recv c) ms st = (st', map (\<lambda>m. Inr (plain m)) ms)"
  using receives_once [OF assms(1,2)] once_distinct [OF assms(3,4)] by metis

end

section \<open>Simulation\<close>

text \<open>
  A run of a labelled step relation, and the contract that lets a concrete one stand for an
  abstract one: each concrete step from related states is matched by an abstract step with the
  same label.
\<close>

inductive run :: "('s \<Rightarrow> 'e \<Rightarrow> 's \<Rightarrow> bool) \<Rightarrow> 's \<Rightarrow> 'e list \<Rightarrow> 's \<Rightarrow> bool" for step where
  stop: "run step s [] s"
| go: "step s e t \<Longrightarrow> run step t es u \<Longrightarrow> run step s (e # es) u"

inductive_simps run_simps [simp]: "run step s [] u" "run step s (e # es) u"

lemma run_snoc: "run step s es t \<Longrightarrow> step t e u \<Longrightarrow> run step s (es @ [e]) u"
  by (induction rule: run.induct) auto

locale simulation =
  fixes ok :: "'c \<Rightarrow> bool"
    and concrete :: "'c \<Rightarrow> 's \<Rightarrow> 'e \<Rightarrow> 's \<Rightarrow> bool" and abstract :: "'a \<Rightarrow> 'e \<Rightarrow> 'a \<Rightarrow> bool"
    and rel :: "'c \<Rightarrow> 's \<Rightarrow> 'a \<Rightarrow> bool"
  assumes step_matched: "ok c \<Longrightarrow> rel c s a \<Longrightarrow> concrete c s e s' \<Longrightarrow> \<exists>a'. abstract a e a' \<and> rel c s' a'"
begin

lemma run_matched:
  "run (concrete c) s es s' \<Longrightarrow> ok c \<Longrightarrow> rel c s a \<Longrightarrow> \<exists>a'. run abstract a es a' \<and> rel c s' a'"
proof (induction arbitrary: a rule: run.induct)
  case (go s e t es u)
  from step_matched [OF go.prems go.hyps(1)] obtain b where b: "abstract a e b" "rel c t b"
    by blast
  with go.IH [OF go.prems(1) b(2)] show ?case
    by auto
qed auto

end

end
