(* ===== verification/Aes_Gcm.thy ===== *)
theory Aes_Gcm
  imports Demo_Prims Interfaces
begin

section \<open>Authenticated encryption\<close>

text \<open>
  \<open>crates/vaultex-crypto/src/aes_gcm.rs\<close>: XChaCha20-Poly1305 with a fresh nonce per
  message (drawn by \<open>aead::gen_nonce\<close>, an argument here) and the key wrapper
  \<open>EncryptionKey\<close>.
\<close>

definition AEAD_KEYBYTES :: nat where "AEAD_KEYBYTES = 32"

definition AEAD_NONCEBYTES :: nat where "AEAD_NONCEBYTES = 24"

lemmas aead_consts = AEAD_KEYBYTES_def AEAD_NONCEBYTES_def

definition aes_encrypt :: "prims \<Rightarrow> bytes \<Rightarrow> bytes \<Rightarrow> bytes \<Rightarrow> bytes option \<Rightarrow> (bytes \<times> bytes) result" where
  "aes_encrypt P nonce key plaintext ad =
     (if \<not> sodium_init P then Err InitFailed
      else and_then (ok_or (from_slice P AEAD_KEYBYTES key) (InvalidKeyLength AEAD_KEYBYTES (length key)))
        (\<lambda>aead_key. Ok (nonce, aead_seal P plaintext ad nonce aead_key)))"

definition aes_decrypt :: "prims \<Rightarrow> bytes \<Rightarrow> bytes \<Rightarrow> bytes \<Rightarrow> bytes option \<Rightarrow> bytes result" where
  "aes_decrypt P key nonce ciphertext ad =
     and_then (ok_or (from_slice P AEAD_KEYBYTES key) (InvalidKeyLength AEAD_KEYBYTES (length key)))
       (\<lambda>aead_key.
     and_then (ok_or (from_slice P AEAD_NONCEBYTES nonce) (InvalidKeyLength AEAD_NONCEBYTES (length nonce)))
       (\<lambda>aead_nonce.
     ok_or (aead_open P ciphertext ad aead_nonce aead_key) DecryptionFailed))"

record EncryptionKey =
  ek_key :: bytes

definition ek_new :: "bytes \<Rightarrow> EncryptionKey" where
  "ek_new key = \<lparr>ek_key = key\<rparr>"

definition ek_from_slice :: "bytes \<Rightarrow> EncryptionKey result" where
  "ek_from_slice s =
     (if length s \<noteq> 32 then Err (InvalidKeyLength 32 (length s)) else Ok \<lparr>ek_key = s\<rparr>)"

definition ek_as_bytes :: "EncryptionKey \<Rightarrow> bytes" where
  "ek_as_bytes k = ek_key k"

definition ek_encrypt :: "prims \<Rightarrow> bytes \<Rightarrow> EncryptionKey \<Rightarrow> bytes \<Rightarrow> bytes option \<Rightarrow> (bytes \<times> bytes) result" where
  "ek_encrypt P nonce k plaintext ad = aes_encrypt P nonce (ek_key k) plaintext ad"

definition ek_decrypt :: "prims \<Rightarrow> EncryptionKey \<Rightarrow> bytes \<Rightarrow> bytes \<Rightarrow> bytes option \<Rightarrow> bytes result" where
  "ek_decrypt P k nonce ciphertext ad = aes_decrypt P (ek_key k) nonce ciphertext ad"

text \<open>\<open>Zeroize\<close>, which \<open>Drop\<close> calls.\<close>

definition ek_zeroize :: "EncryptionKey \<Rightarrow> EncryptionKey" where
  "ek_zeroize k = k\<lparr>ek_key := zeroed (ek_key k)\<rparr>"

subsection \<open>Lemmas\<close>

lemma aes_encrypt_eq:
  assumes "slices_ok P" "sodium_init P" "length key = 32"
  shows "aes_encrypt P nonce key p ad = Ok (nonce, aead_seal P p ad nonce key)"
  using assms by (simp add: aes_encrypt_def from_slice_eq aead_consts)

lemma aes_decrypt_eq:
  assumes "slices_ok P" "length key = 32" "length nonce = 24"
  shows "aes_decrypt P key nonce c ad = ok_or (aead_open P c ad nonce key) DecryptionFailed"
  using assms by (simp add: aes_decrypt_def from_slice_eq aead_consts)

lemma aes_roundtrip:
  assumes "slices_ok P" "aead_ok P" "length nonce = 24" "aes_encrypt P nonce key p ad = Ok (n, c)"
  shows "aes_decrypt P key n c ad = Ok p" "length n = 24" "length c = length p + 16"
  using assms
  by (auto simp: aes_encrypt_def aes_decrypt_def from_slice_eq aead_consts aead_laws and_then_eq_Inr
      split: if_splits)

text \<open>A decryption error is a wrong key or nonce length, or a failed authentication.\<close>

lemma aes_decrypt_result:
  assumes "slices_ok P"
  shows "aes_decrypt P key nonce c ad =
    (if length key \<noteq> 32 then Err (InvalidKeyLength 32 (length key))
     else if length nonce \<noteq> 24 then Err (InvalidKeyLength 24 (length nonce))
     else case aead_open P c ad nonce key of None \<Rightarrow> Err DecryptionFailed | Some p \<Rightarrow> Ok p)"
  using assms by (simp add: aes_decrypt_def from_slice_eq aead_consts split: option.splits)

text \<open>
  A sealed key wrapper decrypts what it encrypted, for any 32-byte key slice, and
  refuses a slice of any other length with the length it got.
\<close>

theorem encryption_key_roundtrip:
  assumes "slices_ok P" "aead_ok P" "sodium_init P" "length nonce = 24"
  shows "if length s = 32
    then \<exists>k n c. ek_from_slice s = Ok k \<and> ek_encrypt P nonce k p ad = Ok (n, c) \<and> ek_decrypt P k n c ad = Ok p
    else ek_from_slice s = Err (InvalidKeyLength 32 (length s))"
  using assms by (auto simp: ek_from_slice_def ek_encrypt_def ek_decrypt_def aes_encrypt_eq aes_decrypt_eq aead_laws)

theorem encryption_key_roundtrip_witness:
  "\<exists>k n c. ek_from_slice (replicate 32 5) = Ok k \<and>
     ek_encrypt demo_prims (replicate 24 1) k [1, 2, 3] None = Ok (n, c) \<and>
     ek_decrypt demo_prims k n c None = Ok [1, 2, 3]"
  using encryption_key_roundtrip [of demo_prims "replicate 24 1" "replicate 32 5" "[1, 2, 3]" None]
  by (simp add: demo_laws)

end
