(* ===== verification/Double_Ratchet.thy ===== *)
theory Double_Ratchet
  imports Aes_Gcm
begin

section \<open>The Double Ratchet\<close>

text \<open>
  \<open>crates/vaultex-crypto/src/double_ratchet.rs\<close>: the session state and its operations.
  A method on \<open>&mut self\<close> returns the state it leaves behind together with its result, also
  on errors.  The map of skipped keys is a finite partial map from a ratchet key and a message
  number; counters are \<open>u32\<close> words, whose addition wraps as in a release build.  Drawn
  key pairs and nonces are arguments.
\<close>

definition RATCHET_INFO :: bytes where "RATCHET_INFO = as_bytes ''VAULTEX_RATCHET''"

definition CHAIN_KEY_SEED :: bytes where "CHAIN_KEY_SEED = [0x01]"

definition MSG_KEY_SEED :: bytes where "MSG_KEY_SEED = [0x02]"

definition MAX_SKIP :: u32 where "MAX_SKIP = 1000"

record MessageHeader =
  h_ratchet_public_key :: bytes
  h_previous_chain_length :: u32
  h_message_number :: u32

type_synonym skip_map = "bytes \<times> u32 \<rightharpoonup> bytes"

record RatchetState =
  root_key :: bytes
  sending_chain_key :: "bytes option"
  receiving_chain_key :: "bytes option"
  sending_keypair :: "(bytes \<times> bytes) option"
  remote_ratchet_key :: "bytes option"
  send_message_number :: u32
  recv_message_number :: u32
  previous_chain_length :: u32
  skipped_keys :: skip_map

subsection \<open>Key derivation\<close>

definition kdf_rk :: "prims \<Rightarrow> bytes \<Rightarrow> bytes \<Rightarrow> (bytes \<times> bytes) result" where
  "kdf_rk P rk dh_output =
     and_then (ok_or (hkdf_sha256 P (Some rk) dh_output RATCHET_INFO 64) HkdfExpandFailed)
       (\<lambda>output. Ok (take 32 output, drop 32 output))"

definition kdf_ck :: "prims \<Rightarrow> bytes \<Rightarrow> (bytes \<times> bytes) result" where
  "kdf_ck P chain_key =
     and_then (ok_or (hmac_sha256 P chain_key CHAIN_KEY_SEED) HkdfExpandFailed) (\<lambda>new_chain_key.
     and_then (ok_or (hmac_sha256 P chain_key MSG_KEY_SEED) HkdfExpandFailed) (\<lambda>msg_key.
     Ok (new_chain_key, msg_key)))"

definition dh_exchange :: "prims \<Rightarrow> bytes \<Rightarrow> bytes \<Rightarrow> bytes result" where
  "dh_exchange P our_sk their_pk =
     and_then (ok_or (from_slice P 32 (take 32 our_sk)) (RatchetError ''invalid secret key'')) (\<lambda>our_scalar.
     and_then (ok_or (from_slice P 32 their_pk) (RatchetError ''invalid public key'')) (\<lambda>their_ge.
     ok_or (scalarmult P our_scalar their_ge) (RatchetError ''DH failed'')))"

subsection \<open>Starting a session\<close>

definition init_sender :: "prims \<Rightarrow> bytes \<times> bytes \<Rightarrow> bytes \<Rightarrow> bytes \<Rightarrow> RatchetState result" where
  "init_sender P drawn shared_secret recipient_ratchet_key =
     (if \<not> sodium_init P then Err InitFailed
      else case drawn of (sending_pk, sending_sk) \<Rightarrow>
        and_then (dh_exchange P sending_sk recipient_ratchet_key) (\<lambda>dh_out.
        and_then (kdf_rk P shared_secret dh_out) (\<lambda>(rk, sending_ck).
        Ok \<lparr>root_key = rk, sending_chain_key = Some sending_ck, receiving_chain_key = None,
            sending_keypair = Some (sending_pk, sending_sk),
            remote_ratchet_key = Some recipient_ratchet_key,
            send_message_number = 0, recv_message_number = 0, previous_chain_length = 0,
            skipped_keys = Map.empty\<rparr>)))"

definition init_receiver :: "bytes \<Rightarrow> bytes \<times> bytes \<Rightarrow> RatchetState" where
  "init_receiver shared_secret our_ratchet_keypair =
     \<lparr>root_key = shared_secret, sending_chain_key = None, receiving_chain_key = None,
      sending_keypair = Some our_ratchet_keypair, remote_ratchet_key = None,
      send_message_number = 0, recv_message_number = 0, previous_chain_length = 0,
      skipped_keys = Map.empty\<rparr>"

subsection \<open>Encryption\<close>

definition encrypt ::
    "prims \<Rightarrow> bytes \<Rightarrow> bytes \<Rightarrow> bytes \<Rightarrow> RatchetState \<Rightarrow> RatchetState \<times> (MessageHeader \<times> bytes) result" where
  "encrypt P nonce plaintext associated_data st =
     and_then_st (st, ok_or (sending_chain_key st) (RatchetError ''no sending chain key'')) (\<lambda>st ck.
     and_then_st (st, kdf_ck P ck) (\<lambda>st (new_ck, msg_key).
     (let st = st\<lparr>sending_chain_key := Some new_ck\<rparr> in
     and_then_st (st, ok_or (sending_keypair st) (RatchetError ''no sending keypair'')) (\<lambda>st (sending_pk, _).
     (let header = \<lparr>h_ratchet_public_key = sending_pk,
                    h_previous_chain_length = previous_chain_length st,
                    h_message_number = send_message_number st\<rparr>;
          st = st\<lparr>send_message_number := send_message_number st + 1\<rparr> in
     and_then_st (st, aes_encrypt P nonce msg_key plaintext (Some associated_data)) (\<lambda>st (n, c).
     (st, Ok (header, n @ c))))))))"

subsection \<open>Decryption\<close>

definition decrypt_with_key :: "prims \<Rightarrow> bytes \<Rightarrow> bytes \<Rightarrow> bytes \<Rightarrow> bytes result" where
  "decrypt_with_key P msg_key ciphertext associated_data =
     (let nonce_len = 24 in
      if length ciphertext < nonce_len then Err DecryptionFailed
      else aes_decrypt P msg_key (take nonce_len ciphertext) (drop nonce_len ciphertext) (Some associated_data))"

text \<open>
  The loop \<open>for n in recv..until\<close>: each round derives a message key and stores it.  The map
  keeps what was stored before an error; the chain key is returned.
\<close>

fun skip_loop :: "prims \<Rightarrow> bytes \<Rightarrow> u32 list \<Rightarrow> bytes \<Rightarrow> skip_map \<Rightarrow> skip_map \<times> bytes result" where
  "skip_loop P remote_pk [] current_ck m = (m, Ok current_ck)"
| "skip_loop P remote_pk (n # ns) current_ck m =
     and_then_st (m, kdf_ck P current_ck) (\<lambda>m (new_ck, mk).
     skip_loop P remote_pk ns new_ck (m((remote_pk, n) \<mapsto> mk)))"

definition skip_message_keys_for_current_chain ::
    "prims \<Rightarrow> u32 \<Rightarrow> RatchetState \<Rightarrow> RatchetState \<times> unit result" where
  "skip_message_keys_for_current_chain P until st =
     (if receiving_chain_key st = None then (st, Ok ())
      else case remote_ratchet_key st of
        None \<Rightarrow> (st, Ok ())
      | Some remote_pk \<Rightarrow>
          if until < recv_message_number st then (st, Ok ())
          else if MAX_SKIP < until - recv_message_number st
          then (st, Err (RatchetError ''too many skipped messages''))
          else
            and_then_st (st, ok_or (receiving_chain_key st) (RatchetError ''no receiving chain key'')) (\<lambda>st ck.
            (case skip_loop P remote_pk (range_u32 (recv_message_number st) until) ck (skipped_keys st) of
               (m, r) \<Rightarrow>
            and_then_st (st\<lparr>skipped_keys := m\<rparr>, r) (\<lambda>st current_ck.
            (st\<lparr>receiving_chain_key := Some current_ck, recv_message_number := until\<rparr>, Ok ())))))"

definition skip_message_keys :: "prims \<Rightarrow> u32 \<Rightarrow> RatchetState \<Rightarrow> RatchetState \<times> unit result" where
  "skip_message_keys P until st =
     (if until < recv_message_number st
      then (st, Err (RatchetError ''message number already consumed''))
      else if MAX_SKIP < until - recv_message_number st
      then (st, Err (RatchetError ''too many skipped messages''))
      else case remote_ratchet_key st of
        None \<Rightarrow> (st, Err (RatchetError ''no remote ratchet key''))
      | Some remote_pk \<Rightarrow>
          and_then_st (st, ok_or (receiving_chain_key st) (RatchetError ''no receiving chain key'')) (\<lambda>st ck.
          (case skip_loop P remote_pk (range_u32 (recv_message_number st) until) ck (skipped_keys st) of
             (m, r) \<Rightarrow>
          and_then_st (st\<lparr>skipped_keys := m\<rparr>, r) (\<lambda>st current_ck.
          (st\<lparr>receiving_chain_key := Some current_ck\<rparr>, Ok ())))))"

definition dh_ratchet_step ::
    "prims \<Rightarrow> bytes \<times> bytes \<Rightarrow> bytes \<Rightarrow> RatchetState \<Rightarrow> RatchetState \<times> unit result" where
  "dh_ratchet_step P drawn their_new_pk st =
     (let st = st\<lparr>previous_chain_length := send_message_number st, send_message_number := 0,
                  recv_message_number := 0, remote_ratchet_key := Some their_new_pk\<rparr> in
     and_then_st (st, ok_or (sending_keypair st) (RatchetError ''no sending keypair'')) (\<lambda>st (_, our_sk).
     and_then_st (st, dh_exchange P our_sk their_new_pk) (\<lambda>st dh_recv.
     and_then_st (st, kdf_rk P (root_key st) dh_recv) (\<lambda>st (new_root, recv_ck).
     (let st = st\<lparr>root_key := new_root, receiving_chain_key := Some recv_ck\<rparr> in
     (case drawn of (new_pk, new_sk) \<Rightarrow>
     and_then_st (st, dh_exchange P new_sk their_new_pk) (\<lambda>st dh_send.
     and_then_st (st, kdf_rk P (root_key st) dh_send) (\<lambda>st (new_root, send_ck).
     (st\<lparr>root_key := new_root, sending_chain_key := Some send_ck,
         sending_keypair := Some (new_pk, new_sk)\<rparr>, Ok ())))))))))"

definition decrypt ::
    "prims \<Rightarrow> bytes \<times> bytes \<Rightarrow> MessageHeader \<Rightarrow> bytes \<Rightarrow> bytes \<Rightarrow> RatchetState \<Rightarrow> RatchetState \<times> bytes result" where
  "decrypt P drawn header ciphertext associated_data st =
     (case skipped_keys st (h_ratchet_public_key header, h_message_number header) of
        Some msg_key \<Rightarrow>
          (st\<lparr>skipped_keys := (skipped_keys st)((h_ratchet_public_key header, h_message_number header) := None)\<rparr>,
           decrypt_with_key P msg_key ciphertext associated_data)
      | None \<Rightarrow>
          and_then_st (st, ok_or (from_slice P 32 (h_ratchet_public_key header))
              (RatchetError ''invalid ratchet key in header'')) (\<lambda>st their_pk.
          (let need_ratchet = (case remote_ratchet_key st of Some remote \<Rightarrow> remote \<noteq> their_pk | None \<Rightarrow> True) in
          and_then_st
            (if need_ratchet then
               and_then_st (skip_message_keys_for_current_chain P (h_previous_chain_length header) st) (\<lambda>st _.
               dh_ratchet_step P drawn their_pk st)
             else (st, Ok ())) (\<lambda>st _.
          and_then_st (skip_message_keys P (h_message_number header) st) (\<lambda>st _.
          and_then_st (st, ok_or (receiving_chain_key st) (RatchetError ''no receiving chain key'')) (\<lambda>st ck.
          and_then_st (st, kdf_ck P ck) (\<lambda>st (new_ck, msg_key).
          (st\<lparr>receiving_chain_key := Some new_ck, recv_message_number := h_message_number header + 1\<rparr>,
           decrypt_with_key P msg_key ciphertext associated_data))))))))"

text \<open>\<open>Drop\<close>: the keys are overwritten and the cache is emptied.\<close>

definition ratchet_drop :: "RatchetState \<Rightarrow> RatchetState" where
  "ratchet_drop st = st\<lparr>root_key := zeroed (root_key st),
     sending_chain_key := map_option zeroed (sending_chain_key st),
     receiving_chain_key := map_option zeroed (receiving_chain_key st),
     skipped_keys := Map.empty\<rparr>"

end
