(* ===== verification/Ratchet_Chain.thy ===== *)
theory Ratchet_Chain
  imports Double_Ratchet
begin

section \<open>One receiving chain of the ratchet\<close>

text \<open>
  The lemmas about a single symmetric chain: the chain and message keys at a position, what
  the loop over skipped messages stores, and the receiver's invariant \<open>receiving\<close>, which
  records the chain's root and the numbers already consumed.  \<open>decrypt\<close> is characterised
  on every message of the chain: fresh ones are opened with the key of their position whatever
  the order, consumed ones are refused without a change of state.
\<close>

subsection \<open>Key derivation is total\<close>

definition ratchet_prims_ok :: "prims \<Rightarrow> bool" where
  "ratchet_prims_ok P \<longleftrightarrow> slices_ok P \<and> dh_ok P \<and> kdf_ok P \<and> aead_ok P \<and> sodium_init P"

lemma ratchet_prims:
  assumes "ratchet_prims_ok P"
  shows "slices_ok P" "dh_ok P" "kdf_ok P" "aead_ok P" "sodium_init P"
  using assms by (simp_all add: ratchet_prims_ok_def)

definition chain_next :: "prims \<Rightarrow> bytes \<Rightarrow> bytes" where
  "chain_next P ck = the (hmac_sha256 P ck CHAIN_KEY_SEED)"

definition chain_msg_key :: "prims \<Rightarrow> bytes \<Rightarrow> bytes" where
  "chain_msg_key P ck = the (hmac_sha256 P ck MSG_KEY_SEED)"

lemma kdf_ck_eq:
  assumes "kdf_ok P"
  shows "kdf_ck P ck = Ok (chain_next P ck, chain_msg_key P ck)"
    and "length (chain_next P ck) = 32" "length (chain_msg_key P ck) = 32"
proof -
  obtain a where a: "hmac_sha256 P ck CHAIN_KEY_SEED = Some a" "length a = 32"
    by (rule hmac_total [OF assms])
  obtain b where b: "hmac_sha256 P ck MSG_KEY_SEED = Some b" "length b = 32"
    by (rule hmac_total [OF assms])
  from a b show "kdf_ck P ck = Ok (chain_next P ck, chain_msg_key P ck)"
    "length (chain_next P ck) = 32" "length (chain_msg_key P ck) = 32"
    by (simp_all add: kdf_ck_def chain_next_def chain_msg_key_def)
qed

definition root_next :: "prims \<Rightarrow> bytes \<Rightarrow> bytes \<Rightarrow> bytes" where
  "root_next P rk x = take 32 (the (hkdf_sha256 P (Some rk) x RATCHET_INFO 64))"

definition root_chain :: "prims \<Rightarrow> bytes \<Rightarrow> bytes \<Rightarrow> bytes" where
  "root_chain P rk x = drop 32 (the (hkdf_sha256 P (Some rk) x RATCHET_INFO 64))"

lemma kdf_rk_eq:
  assumes "kdf_ok P"
  shows "kdf_rk P rk x = Ok (root_next P rk x, root_chain P rk x)"
    and "length (root_next P rk x) = 32" "length (root_chain P rk x) = 32"
proof -
  obtain okm where "hkdf_sha256 P (Some rk) x RATCHET_INFO 64 = Some okm" "length okm = 64"
    by (rule hkdf_total [OF assms, of 64 "Some rk" x RATCHET_INFO]) simp_all
  then show "kdf_rk P rk x = Ok (root_next P rk x, root_chain P rk x)"
    "length (root_next P rk x) = 32" "length (root_chain P rk x) = 32"
    by (simp_all add: kdf_rk_def root_next_def root_chain_def)
qed

lemma dh_exchange_eq:
  assumes "slices_ok P" "length sk = 32" "length pk = 32"
  shows "dh_exchange P sk pk = ok_or (scalarmult P sk pk) (RatchetError ''DH failed'')"
  using assms by (simp add: dh_exchange_def from_slice_eq)

lemma dh_exchange_agree:
  assumes "slices_ok P" "dh_ok P" "box_keypair P pka ska" "box_keypair P pkb skb"
  obtains x where "dh_exchange P ska pkb = Ok x" "dh_exchange P skb pka = Ok x" "length x = 32"
proof -
  note [simp] = dh_exchange_eq [OF assms(1)] keypair_lengths [OF assms(2,3)] keypair_lengths [OF assms(2,4)]
  obtain x where "scalarmult P ska pkb = Some x" "scalarmult P skb pka = Some x" "length x = 32"
    by (rule dh_agree [OF assms(2-4)])
  then show ?thesis
    by (intro that [of x]) simp_all
qed

subsection \<open>Positions in a chain\<close>

definition chain_key_at :: "prims \<Rightarrow> bytes \<Rightarrow> nat \<Rightarrow> bytes" where
  "chain_key_at P ck n = (chain_next P ^^ n) ck"

definition msg_key_at :: "prims \<Rightarrow> bytes \<Rightarrow> nat \<Rightarrow> bytes" where
  "msg_key_at P ck n = chain_msg_key P (chain_key_at P ck n)"

lemma chain_key_at_simps [simp]:
  "chain_key_at P ck 0 = ck"
  "chain_key_at P (chain_next P ck) n = chain_key_at P ck (Suc n)"
  "chain_next P (chain_key_at P ck n) = chain_key_at P ck (Suc n)"
  by (simp_all add: chain_key_at_def funpow_swap1)

lemma msg_key_at_simps [simp]:
  "chain_msg_key P (chain_key_at P ck n) = msg_key_at P ck n"
  "msg_key_at P (chain_next P ck) n = msg_key_at P ck (Suc n)"
  by (simp_all add: msg_key_at_def)

lemma msg_key_at_0: "msg_key_at P ck 0 = chain_msg_key P ck"
  by (simp add: msg_key_at_def chain_key_at_def)

lemma chain_key_at_add: "chain_key_at P (chain_key_at P ck m) n = chain_key_at P ck (m + n)"
  by (simp add: chain_key_at_def funpow_add add.commute [of m n])

lemma msg_key_at_add: "msg_key_at P (chain_key_at P ck m) n = msg_key_at P ck (m + n)"
  unfolding msg_key_at_def by (simp only: chain_key_at_add)

lemma length_chain_key_at: "kdf_ok P \<Longrightarrow> length ck = 32 \<Longrightarrow> length (chain_key_at P ck n) = 32"
  by (cases n) (simp_all add: chain_key_at_def kdf_ck_eq(2))

lemma length_msg_key_at: "kdf_ok P \<Longrightarrow> length (msg_key_at P ck n) = 32"
  unfolding msg_key_at_def by (rule kdf_ck_eq(3))

subsection \<open>The loop over skipped messages\<close>

text \<open>
  What the loop \<open>for n in a..b\<close> stores when it starts with the chain key \<open>ck\<close>: the
  keys of the chain's next positions, under the remote key and their message numbers.
\<close>

definition skip_store :: "prims \<Rightarrow> bytes \<Rightarrow> bytes \<Rightarrow> u32 \<Rightarrow> u32 \<Rightarrow> skip_map \<Rightarrow> skip_map" where
  "skip_store P pk ck a b m = (\<lambda>(k, n).
     if k = pk \<and> a \<le> n \<and> n < b then Some (msg_key_at P ck (unat n - unat a)) else m (k, n))"

lemma skip_loop_upt:
  assumes "kdf_ok P" "j \<le> 2 ^ 32"
  shows "i \<le> j \<Longrightarrow> skip_loop P pk (map word_of_nat [i ..< j]) ck m =
    ((\<lambda>(k, n). if k = pk \<and> i \<le> unat n \<and> unat n < j then Some (msg_key_at P ck (unat n - i)) else m (k, n)),
     Ok (chain_key_at P ck (j - i)))"
proof (induction "j - i" arbitrary: i ck m)
  case 0
  then show ?case by (auto simp: fun_eq_iff)
next
  case (Suc d)
  then have ij: "i < j" and d: "d = j - Suc i" "Suc i \<le> j"
    by auto
  have u: "unat (word_of_nat i :: u32) = i"
    using ij assms(2) by (intro unat_u32_of_nat) simp
  have eq: "unat n = i \<longleftrightarrow> n = word_of_nat i" for n :: u32
    using u by (metis word_unat_eq_iff)
  have jd: "chain_key_at P ck (Suc (j - Suc i)) = chain_key_at P ck (j - i)"
    using ij by (simp add: Suc_diff_Suc)
  show ?case
    using Suc.hyps(1) [OF d, of "chain_next P ck" "m((pk, word_of_nat i) \<mapsto> chain_msg_key P ck)"] ij
    by (auto simp: upt_conv_Cons kdf_ck_eq(1) [OF assms(1)] jd fun_eq_iff Suc_diff_Suc msg_key_at_0 u eq le_less Suc_le_eq)
qed

lemma skip_loop_range:
  assumes "kdf_ok P" "a \<le> b"
  shows "skip_loop P pk (range_u32 a b) ck m =
    (skip_store P pk ck a b m, Ok (chain_key_at P ck (unat b - unat a)))"
proof -
  have "unat b \<le> 2 ^ 32"
    using unsigned_less [of b, where 'a = nat] by simp
  from skip_loop_upt [OF assms(1) this, of "unat a" pk ck m] assms(2) show ?thesis
    by (simp add: range_u32_def skip_store_def word_le_nat_alt word_less_nat_alt)
qed

text \<open>The store grows by one key per skipped message.\<close>

lemma dom_skip_store: "dom (skip_store P pk ck a b m) = dom m \<union> Pair pk ` {n. a \<le> n \<and> n < b}"
  by (auto simp: skip_store_def dom_def split: if_splits)

lemma skip_store_simps [simp]:
  "a \<le> n \<Longrightarrow> n < b \<Longrightarrow> skip_store P pk ck a b m (pk, n) = Some (msg_key_at P ck (unat n - unat a))"
  "b \<le> n \<Longrightarrow> skip_store P pk ck a b m (k, n) = m (k, n)"
  "n < a \<Longrightarrow> skip_store P pk ck a b m (k, n) = m (k, n)"
  "k \<noteq> pk \<Longrightarrow> skip_store P pk ck a b m (k, n) = m (k, n)"
  by (auto simp: skip_store_def)

lemma card_range_u32: "card {n :: u32. a \<le> n \<and> n < b} = unat b - unat a"
  by (metis distinct_card distinct_range_u32 length_range_u32 set_range_u32)

lemma card_skip_store:
  assumes "finite (dom m)"
  shows "card (dom (skip_store P pk ck a b m)) \<le> card (dom m) + (unat b - unat a)"
proof -
  have "card (dom (skip_store P pk ck a b m)) \<le> card (dom m) + card (Pair pk ` {n. a \<le> n \<and> n < b})"
    unfolding dom_skip_store by (rule card_Un_le)
  also have "card (Pair pk ` {n. a \<le> n \<and> n < b}) = unat b - unat a"
    by (simp add: card_image inj_on_def card_range_u32)
  finally show ?thesis .
qed

lemma finite_skip_store: "finite (dom m) \<Longrightarrow> finite (dom (skip_store P pk ck a b m))"
  unfolding dom_skip_store by simp

subsection \<open>The steps of the receiver\<close>

lemma skip_message_keys_eq:
  assumes "kdf_ok P" "remote_ratchet_key st = Some pk" "receiving_chain_key st = Some ck"
  shows "skip_message_keys P n st =
    (if n < recv_message_number st then (st, Err (RatchetError ''message number already consumed''))
     else if MAX_SKIP < n - recv_message_number st then (st, Err (RatchetError ''too many skipped messages''))
     else (st\<lparr>skipped_keys := skip_store P pk ck (recv_message_number st) n (skipped_keys st),
               receiving_chain_key := Some (chain_key_at P ck (unat n - unat (recv_message_number st)))\<rparr>, Ok ()))"
  using assms by (auto simp: skip_message_keys_def skip_loop_range [OF assms(1)] not_less)

lemma skip_for_current_chain_eq:
  assumes "kdf_ok P" "remote_ratchet_key st = Some pk" "receiving_chain_key st = Some ck"
  shows "skip_message_keys_for_current_chain P n st =
    (if n < recv_message_number st then (st, Ok ())
     else if MAX_SKIP < n - recv_message_number st then (st, Err (RatchetError ''too many skipped messages''))
     else (st\<lparr>skipped_keys := skip_store P pk ck (recv_message_number st) n (skipped_keys st),
               receiving_chain_key := Some (chain_key_at P ck (unat n - unat (recv_message_number st))),
               recv_message_number := n\<rparr>, Ok ()))"
  using assms by (auto simp: skip_message_keys_for_current_chain_def skip_loop_range [OF assms(1)] not_less)

text \<open>
  The second half of \<open>decrypt\<close>, after the ratchet: skip to the message and derive its key.
\<close>

definition receive_at :: "prims \<Rightarrow> u32 \<Rightarrow> bytes \<Rightarrow> bytes \<Rightarrow> RatchetState \<Rightarrow> RatchetState \<times> bytes result" where
  "receive_at P n ciphertext associated_data st =
     and_then_st (skip_message_keys P n st) (\<lambda>st _.
     and_then_st (st, ok_or (receiving_chain_key st) (RatchetError ''no receiving chain key'')) (\<lambda>st ck.
     and_then_st (st, kdf_ck P ck) (\<lambda>st (new_ck, msg_key).
     (st\<lparr>receiving_chain_key := Some new_ck, recv_message_number := n + 1\<rparr>,
      decrypt_with_key P msg_key ciphertext associated_data))))"

lemma receive_at_eq:
  assumes "kdf_ok P" "remote_ratchet_key st = Some pk" "receiving_chain_key st = Some ck"
  shows "receive_at P n c ad st =
    (if n < recv_message_number st then (st, Err (RatchetError ''message number already consumed''))
     else if MAX_SKIP < n - recv_message_number st then (st, Err (RatchetError ''too many skipped messages''))
     else (st\<lparr>skipped_keys := skip_store P pk ck (recv_message_number st) n (skipped_keys st),
               receiving_chain_key := Some (chain_key_at P ck (Suc (unat n - unat (recv_message_number st)))),
               recv_message_number := n + 1\<rparr>,
           decrypt_with_key P (msg_key_at P ck (unat n - unat (recv_message_number st))) c ad))"
  by (simp add: receive_at_def skip_message_keys_eq [OF assms] kdf_ck_eq(1) [OF assms(1)])

lemma decrypt_cached:
  "skipped_keys st (h_ratchet_public_key h, h_message_number h) = Some k \<Longrightarrow>
   decrypt P drawn h c ad st =
     (st\<lparr>skipped_keys := (skipped_keys st)((h_ratchet_public_key h, h_message_number h) := None)\<rparr>,
      decrypt_with_key P k c ad)"
  by (simp add: decrypt_def)

lemma decrypt_current:
  assumes "slices_ok P" "remote_ratchet_key st = Some (h_ratchet_public_key h)"
    "length (h_ratchet_public_key h) = 32"
    "skipped_keys st (h_ratchet_public_key h, h_message_number h) = None"
  shows "decrypt P drawn h c ad st = receive_at P (h_message_number h) c ad st"
  using assms by (simp add: decrypt_def receive_at_def from_slice_eq)

lemma decrypt_new_key:
  assumes "slices_ok P" "remote_ratchet_key st \<noteq> Some (h_ratchet_public_key h)"
    "length (h_ratchet_public_key h) = 32"
    "skipped_keys st (h_ratchet_public_key h, h_message_number h) = None"
  shows "decrypt P drawn h c ad st =
    and_then_st (skip_message_keys_for_current_chain P (h_previous_chain_length h) st) (\<lambda>st _.
    and_then_st (dh_ratchet_step P drawn (h_ratchet_public_key h) st) (\<lambda>st _.
    receive_at P (h_message_number h) c ad st))"
proof -
  have assoc: "and_then_st (and_then_st m f) g = and_then_st m (\<lambda>s a. and_then_st (f s a) g)"
    for m :: "RatchetState \<times> unit result" and f :: "RatchetState \<Rightarrow> unit \<Rightarrow> RatchetState \<times> unit result"
      and g :: "RatchetState \<Rightarrow> unit \<Rightarrow> RatchetState \<times> bytes result"
    by (cases m; cases "snd m") auto
  show ?thesis
    using assms by (auto simp: decrypt_def receive_at_def from_slice_eq assoc split: option.split)
qed

text \<open>Opening what \<open>encrypt\<close> produced: the nonce, then the sealed plaintext.\<close>

lemma decrypt_with_key_sealed:
  assumes "slices_ok P" "aead_ok P" "length key = 32" "length nonce = 24"
  shows "decrypt_with_key P key (nonce @ aead_seal P p (Some ad) nonce key) ad = Ok p"
  using assms by (simp add: decrypt_with_key_def aes_decrypt_eq aead_laws)

lemma encrypt_eq:
  assumes "ratchet_prims_ok P" "sending_chain_key st = Some ck" "sending_keypair st = Some (pk, sk)"
  shows "encrypt P nonce p ad st =
    (st\<lparr>sending_chain_key := Some (chain_next P ck), send_message_number := send_message_number st + 1\<rparr>,
     Ok (\<lparr>h_ratchet_public_key = pk, h_previous_chain_length = previous_chain_length st,
          h_message_number = send_message_number st\<rparr>,
         nonce @ aead_seal P p (Some ad) nonce (chain_msg_key P ck)))"
  using assms(2,3) ratchet_prims [OF assms(1)]
  by (simp add: encrypt_def kdf_ck_eq aes_encrypt_eq Let_def)

subsection \<open>Messages of one chain in any order\<close>

text \<open>
  A message in flight: what \<open>encrypt\<close> returned, its associated data, and, for the
  statements only, the plaintext it carries.
\<close>

record packet =
  p_header :: MessageHeader
  p_body :: bytes
  p_ad :: bytes
  p_plain :: bytes

abbreviation p_key :: "packet \<Rightarrow> bytes" where
  "p_key p \<equiv> h_ratchet_public_key (p_header p)"

abbreviation p_num :: "packet \<Rightarrow> u32" where
  "p_num p \<equiv> h_message_number (p_header p)"

definition sealed_in :: "prims \<Rightarrow> bytes \<Rightarrow> packet \<Rightarrow> bool" where
  "sealed_in P D p \<longleftrightarrow> (\<exists>nonce. length nonce = 24 \<and>
     p_body p = nonce @ aead_seal P (p_plain p) (Some (p_ad p)) nonce (msg_key_at P D (unat (p_num p))))"

lemma open_sealed:
  assumes "ratchet_prims_ok P" "sealed_in P D p"
  shows "decrypt_with_key P (msg_key_at P D (unat (p_num p))) (p_body p) (p_ad p) = Ok (p_plain p)"
  using assms
  by (auto simp: sealed_in_def ratchet_prims length_msg_key_at decrypt_with_key_sealed)

text \<open>
  The receiver stands in the chain with root \<open>D\<close> of the remote key \<open>pk\<close>, and has
  consumed exactly the message numbers in \<open>got\<close>.
\<close>

definition receiving :: "prims \<Rightarrow> bytes \<Rightarrow> bytes \<Rightarrow> u32 set \<Rightarrow> RatchetState \<Rightarrow> bool" where
  "receiving P pk D got st \<longleftrightarrow> ratchet_prims_ok P \<and> length pk = 32 \<and>
     remote_ratchet_key st = Some pk \<and>
     receiving_chain_key st = Some (chain_key_at P D (unat (recv_message_number st))) \<and>
     (\<forall>n \<in> got. n < recv_message_number st) \<and>
     (\<forall>n. skipped_keys st (pk, n) =
        (if n < recv_message_number st \<and> n \<notin> got then Some (msg_key_at P D (unat n)) else None))"

lemma receive_fresh:
  assumes r: "receiving P pk D got st" and key: "h_ratchet_public_key h = pk"
    and n: "h_message_number h = n" "n \<notin> got" "n \<noteq> -1" "unat n \<le> unat (recv_message_number st) + 1000"
  obtains st' where "decrypt P drawn h c ad st = (st', decrypt_with_key P (msg_key_at P D (unat n)) c ad)"
    "receiving P pk D (insert n got) st'" "recv_message_number st \<le> recv_message_number st'"
proof (cases "n < recv_message_number st")
  case True
  with r n have c: "skipped_keys st (pk, n) = Some (msg_key_at P D (unat n))"
    by (simp add: receiving_def)
  show ?thesis
    by (rule that [OF decrypt_cached]) (use r key n c True in \<open>auto simp: receiving_def\<close>)
next
  case False
  let ?r = "recv_message_number st"
  have P: "ratchet_prims_ok P" and pk: "length pk = 32" "remote_ratchet_key st = Some pk"
      "receiving_chain_key st = Some (chain_key_at P D (unat ?r))"
    and none: "skipped_keys st (pk, n) = None"
    using r False by (simp_all add: receiving_def)
  from False have le: "?r \<le> n" "unat ?r \<le> unat n"
    by (simp_all add: word_le_nat_alt not_less)
  then have gap: "\<not> MAX_SKIP < n - ?r"
    using n(4) by (simp add: MAX_SKIP_def word_less_nat_alt unat_sub)
  have suc: "unat (n + 1) = Suc (unat n)"
    using n(3) by (intro unat_succ_below [of n "- 1"]) (simp add: word_order.not_eq_extremum)
  have below: "unat k < unat (n + 1) \<longleftrightarrow> unat k < unat n \<or> k = n" for k
    unfolding suc by (auto simp: less_Suc_eq word_unat_eq_iff)
  have "decrypt P drawn h c ad st =
     (st\<lparr>skipped_keys := skip_store P pk (chain_key_at P D (unat ?r)) ?r n (skipped_keys st),
         receiving_chain_key := Some (chain_key_at P D (unat (n + 1))), recv_message_number := n + 1\<rparr>,
      decrypt_with_key P (msg_key_at P D (unat n)) c ad)"
    using gap False le key n(1) none pk
    by (simp add: decrypt_current receive_at_eq ratchet_prims [OF P] chain_key_at_add msg_key_at_add suc)
  then show ?thesis
  proof (rule that)
    show "receiving P pk D (insert n got)
       (st\<lparr>skipped_keys := skip_store P pk (chain_key_at P D (unat ?r)) ?r n (skipped_keys st),
         receiving_chain_key := Some (chain_key_at P D (unat (n + 1))), recv_message_number := n + 1\<rparr>)"
      using r le n(2)
      by (auto simp: receiving_def below skip_store_def msg_key_at_add word_le_nat_alt word_less_nat_alt)
  qed (use le suc in \<open>simp add: word_le_nat_alt\<close>)
qed

lemma receive_replay:
  assumes "receiving P pk D got st" "h_ratchet_public_key h = pk" "h_message_number h \<in> got"
  shows "decrypt P drawn h c ad st = (st, Err (RatchetError ''message number already consumed''))"
proof -
  from assms have "ratchet_prims_ok P" "skipped_keys st (pk, h_message_number h) = None"
    by (simp_all add: receiving_def)
  with assms show ?thesis
    by (auto simp: decrypt_current receive_at_eq ratchet_prims receiving_def)
qed

text \<open>
  The receiver's interface: the chain (packages, remote key, root, number to start from) and
  the pair drawn by \<open>decrypt\<close>, which no message of the chain uses.
\<close>

type_synonym chain_context = "prims \<times> bytes \<times> bytes \<times> nat \<times> (bytes \<times> bytes)"

fun chain_recv :: "chain_context \<Rightarrow> packet \<Rightarrow> RatchetState \<Rightarrow> RatchetState \<times> bytes result" where
  "chain_recv (P, pk, D, base, drawn) p st = decrypt P drawn (p_header p) (p_body p) (p_ad p) st"

fun chain_inv :: "chain_context \<Rightarrow> u32 set \<Rightarrow> RatchetState \<Rightarrow> bool" where
  "chain_inv (P, pk, D, base, drawn) got st \<longleftrightarrow>
     receiving P pk D got st \<and> base \<le> unat (recv_message_number st)"

fun chain_genuine :: "chain_context \<Rightarrow> packet \<Rightarrow> bool" where
  "chain_genuine (P, pk, D, base, drawn) p \<longleftrightarrow>
     p_key p = pk \<and> sealed_in P D p \<and> p_num p \<noteq> -1 \<and> unat (p_num p) \<le> base + 1000"

interpretation chain: out_of_order_receiver chain_recv chain_inv chain_genuine p_num p_plain
  "RatchetError ''message number already consumed''"
proof
  fix c :: chain_context and got st p
  obtain P pk D base drawn where c: "c = (P, pk, D, base, drawn)"
    by (cases c) auto
  assume "chain_inv c got st" "chain_genuine c p"
  then have r: "receiving P pk D got st" "base \<le> unat (recv_message_number st)"
    and g: "p_key p = pk" "sealed_in P D p" "p_num p \<noteq> -1" "unat (p_num p) \<le> base + 1000"
    by (simp_all add: c)
  show "chain_recv c p st = (st, Inl (RatchetError ''message number already consumed''))"
    if "p_num p \<in> got"
    using receive_replay [OF r(1) g(1) that] by (simp add: c)
  assume n: "p_num p \<notin> got"
  have P: "ratchet_prims_ok P"
    using r(1) by (simp add: receiving_def)
  obtain st' where "decrypt P drawn (p_header p) (p_body p) (p_ad p) st =
      (st', decrypt_with_key P (msg_key_at P D (unat (p_num p))) (p_body p) (p_ad p))"
      "receiving P pk D (insert (p_num p) got) st'" "recv_message_number st \<le> recv_message_number st'"
    by (rule receive_fresh [OF r(1) g(1) refl n g(3)]) (use r(2) g(4) in auto)
  with r(2) show "\<exists>st'. chain_recv c p st = (st', Inr (p_plain p)) \<and> chain_inv c (insert (p_num p) got) st'"
    by (auto simp: c open_sealed [OF P g(2)] word_le_nat_alt)
qed

text \<open>What the chain's sender produces is genuine: \<open>encrypt\<close> seals with the key of its position.\<close>

definition sending :: "bytes \<Rightarrow> prims \<Rightarrow> bytes \<Rightarrow> RatchetState \<Rightarrow> bool" where
  "sending D P pk st \<longleftrightarrow>
     sending_chain_key st = Some (chain_key_at P D (unat (send_message_number st))) \<and>
     (\<exists>sk. sending_keypair st = Some (pk, sk))"

lemma encrypt_sending:
  assumes "ratchet_prims_ok P" "sending D P pk st" "send_message_number st \<noteq> -1" "length nonce = 24"
  obtains st' h c where "encrypt P nonce p ad st = (st', Ok (h, c))" "sending D P pk st'"
    "sealed_in P D \<lparr>p_header = h, p_body = c, p_ad = ad, p_plain = p\<rparr>"
    "h = \<lparr>h_ratchet_public_key = pk, h_previous_chain_length = previous_chain_length st,
          h_message_number = send_message_number st\<rparr>"
    "st' = st\<lparr>sending_chain_key := Some (chain_key_at P D (Suc (unat (send_message_number st)))),
       send_message_number := send_message_number st + 1\<rparr>"
proof -
  let ?n = "unat (send_message_number st)"
  have suc: "unat (send_message_number st + 1) = Suc ?n"
    using assms(3) by (intro unat_succ_below [of _ "- 1"]) (simp add: word_order.not_eq_extremum)
  obtain sk where s: "sending_chain_key st = Some (chain_key_at P D ?n)" "sending_keypair st = Some (pk, sk)"
    using assms(2) by (auto simp: sending_def)
  show ?thesis
    by (rule that [OF encrypt_eq [OF assms(1) s]])
      (use s assms(4) in \<open>auto simp: sending_def sealed_in_def suc\<close>)
qed

subsection \<open>Properties\<close>

text \<open>
  C14: out-of-order delivery within a chain.  Whatever the order in which a receiver gets
  genuine messages of its current chain, copies included, each message decrypts to its
  plaintext the first time its number appears, and every later copy is refused as consumed.
  Numbers may reach 1000 beyond the counter the receiver starts with.
\<close>

theorem ratchet_chain_once:
  assumes "receiving P pk D got st"
    and "\<forall>p \<in> set ps. p_key p = pk \<and> sealed_in P D p \<and> p_num p \<noteq> -1 \<and>
           unat (p_num p) \<le> unat (recv_message_number st) + 1000"
  shows "\<exists>st'. receive_all (\<lambda>p. decrypt P drawn (p_header p) (p_body p) (p_ad p)) ps st =
      (st', once p_num p_plain (RatchetError ''message number already consumed'') got ps) \<and>
    receiving P pk D (got \<union> p_num ` set ps) st'"
proof -
  let ?c = "(P, pk, D, unat (recv_message_number st), drawn)"
  have "chain_recv ?c = (\<lambda>p. decrypt P drawn (p_header p) (p_body p) (p_ad p))"
    by (simp add: fun_eq_iff)
  with chain.receives_once [of ?c got st ps] assms show ?thesis
    by auto
qed

definition demo_chain_state :: RatchetState where
  "demo_chain_state = \<lparr>root_key = replicate 32 5, sending_chain_key = None,
     receiving_chain_key = Some (replicate 32 6), sending_keypair = None,
     remote_ratchet_key = Some (replicate 32 4), send_message_number = 0, recv_message_number = 0,
     previous_chain_length = 0, skipped_keys = Map.empty\<rparr>"

definition demo_chain_packet :: "u32 \<Rightarrow> bytes \<Rightarrow> packet" where
  "demo_chain_packet n p = \<lparr>p_header = \<lparr>h_ratchet_public_key = replicate 32 4,
        h_previous_chain_length = 0, h_message_number = n\<rparr>,
     p_body = replicate 24 0 @ aead_seal demo_prims p (Some [9]) (replicate 24 0)
        (msg_key_at demo_prims (replicate 32 6) (unat n)),
     p_ad = [9], p_plain = p\<rparr>"

lemma demo_ratchet_prims: "ratchet_prims_ok demo_prims"
  by (simp add: ratchet_prims_ok_def demo_laws)

lemma demo_chain_receiving: "receiving demo_prims (replicate 32 4) (replicate 32 6) {} demo_chain_state"
  by (simp add: receiving_def demo_ratchet_prims demo_chain_state_def)

lemma demo_chain_sealed: "sealed_in demo_prims (replicate 32 6) (demo_chain_packet n p)"
  unfolding sealed_in_def by (rule exI [of _ "replicate 24 0"]) (simp add: demo_chain_packet_def)

theorem ratchet_chain_once_witness:
  "\<exists>st'. receive_all (\<lambda>p. decrypt demo_prims ([], []) (p_header p) (p_body p) (p_ad p))
      [demo_chain_packet 2 [12], demo_chain_packet 0 [10], demo_chain_packet 0 [10]] demo_chain_state =
      (st', [Ok [12], Ok [10], Err (RatchetError ''message number already consumed'')])"
  using ratchet_chain_once [OF demo_chain_receiving, where drawn = "([], [])"
      and ps = "[demo_chain_packet 2 [12], demo_chain_packet 0 [10], demo_chain_packet 0 [10]]"]
  by (simp add: demo_chain_sealed) (auto simp: demo_chain_packet_def demo_chain_state_def)

text \<open>A receiver that has consumed the first message of its chain.\<close>

definition demo_consumed_state :: RatchetState where
  "demo_consumed_state = demo_chain_state\<lparr>recv_message_number := 1,
     receiving_chain_key := Some (chain_key_at demo_prims (replicate 32 6) 1)\<rparr>"

lemma below_one_u32: "(n :: u32) < 1 \<longleftrightarrow> n = 0"
  by (simp add: word_less_nat_alt unat_eq_zero)

lemma demo_consumed_receiving:
  "receiving demo_prims (replicate 32 4) (replicate 32 6) {0} demo_consumed_state"
  by (simp add: receiving_def demo_ratchet_prims demo_consumed_state_def demo_chain_state_def
      below_one_u32)

text \<open>
  C15: authenticity within a chain.  A message with a fresh number in reach is accepted exactly
  when its body is a nonce followed by the sealing, under the key of its position and with the
  same associated data, of the plaintext that is returned.
\<close>

theorem ratchet_accepts_exactly:
  assumes "receiving P pk D got st" "aead_unique P" "h_ratchet_public_key h = pk" "h_message_number h \<notin> got"
    and "h_message_number h \<noteq> -1" "unat (h_message_number h) \<le> unat (recv_message_number st) + 1000"
  shows "snd (decrypt P drawn h c ad st) = Ok p \<longleftrightarrow>
    (\<exists>nonce. length nonce = 24 \<and>
       c = nonce @ aead_seal P p (Some ad) nonce (msg_key_at P D (unat (h_message_number h))))"
proof -
  have P: "ratchet_prims_ok P"
    using assms(1) by (simp add: receiving_def)
  let ?k = "msg_key_at P D (unat (h_message_number h))"
  note prims = ratchet_prims [OF P]
  have len: "length ?k = 32"
    by (rule length_msg_key_at [OF prims(3)])
  have "snd (decrypt P drawn h c ad st) = decrypt_with_key P ?k c ad"
    by (rule receive_fresh [OF assms(1,3) refl assms(4-6), where drawn = drawn and c = c and ad = ad]) simp
  moreover have "decrypt_with_key P ?k c ad = Ok p \<longleftrightarrow>
      (\<exists>nonce. length nonce = 24 \<and> c = nonce @ aead_seal P p (Some ad) nonce ?k)"
  proof
    assume "decrypt_with_key P ?k c ad = Ok p"
    then have "24 \<le> length c" "aead_open P (drop 24 c) (Some ad) (take 24 c) ?k = Some p"
      using len by (auto simp: decrypt_with_key_def aes_decrypt_eq [OF prims(1)] ok_or_eq_Inr Let_def split: if_splits)
    then have "drop 24 c = aead_seal P p (Some ad) (take 24 c) ?k"
      using assms(2) by (simp add: aead_unique_def)
    then have "c = take 24 c @ aead_seal P p (Some ad) (take 24 c) ?k"
      by (metis append_take_drop_id)
    then show "\<exists>nonce. length nonce = 24 \<and> c = nonce @ aead_seal P p (Some ad) nonce ?k"
      using \<open>24 \<le> length c\<close> by (intro exI [of _ "take 24 c"]) simp
  qed (auto simp: decrypt_with_key_sealed [OF prims(1,4) len])
  ultimately show ?thesis
    by simp
qed

theorem ratchet_accepts_exactly_witness:
  "snd (decrypt demo_prims ([], []) (p_header (demo_chain_packet 2 [12])) [1, 2, 3] [9] demo_chain_state) \<noteq> Ok [12]"
proof
  assume "snd (decrypt demo_prims ([], []) (p_header (demo_chain_packet 2 [12])) [1, 2, 3] [9] demo_chain_state) = Ok [12]"
  then have "\<exists>nonce. length nonce = 24 \<and> [1, 2, 3] = nonce @ aead_seal demo_prims [12] (Some [9]) nonce
      (msg_key_at demo_prims (replicate 32 6) (unat (h_message_number (p_header (demo_chain_packet 2 [12])))))"
    by (subst (asm) ratchet_accepts_exactly [OF demo_chain_receiving demo_laws(8)])
      (simp_all add: demo_chain_packet_def demo_chain_state_def)
  then obtain n s where n: "length n = 24" "[1, 2, 3 :: u8] = n @ s"
    by blast
  from arg_cong [OF n(2), of length] n(1) show False
    by simp
qed

text \<open>
  C17: a forgery uses up the key of its number.  A genuine message of the current chain would be
  accepted; but once any message with its ratchet key and number has been rejected, the genuine
  one is refused as consumed, and for good: its key is gone although nothing was authenticated.
\<close>

theorem forgery_consumes_number:
  assumes "receiving P pk D got st" "p_key p = pk" "sealed_in P D p" "p_num p \<notin> got" "p_num p \<noteq> -1"
    and "unat (p_num p) \<le> unat (recv_message_number st) + 1000"
    and "h_ratchet_public_key h = pk" "h_message_number h = p_num p" "decrypt P drawn h c ad st = (st', Err e)"
  shows "snd (decrypt P drawn' (p_header p) (p_body p) (p_ad p) st) = Ok (p_plain p) \<and>
    decrypt P drawn' (p_header p) (p_body p) (p_ad p) st' =
      (st', Err (RatchetError ''message number already consumed''))"
proof -
  have P: "ratchet_prims_ok P"
    using assms(1) by (simp add: receiving_def)
  obtain t where "decrypt P drawn' (p_header p) (p_body p) (p_ad p) st =
      (t, decrypt_with_key P (msg_key_at P D (unat (p_num p))) (p_body p) (p_ad p))"
    by (rule receive_fresh [OF assms(1,2) refl assms(4-6)])
  moreover obtain u where "decrypt P drawn h c ad st = (u, decrypt_with_key P (msg_key_at P D (unat (p_num p))) c ad)"
      "receiving P pk D (insert (p_num p) got) u"
    by (rule receive_fresh [OF assms(1,7,8,4-6)])
  ultimately show ?thesis
    using receive_replay [of P pk D "insert (p_num p) got" u "p_header p"] assms(2,9)
    by (simp add: open_sealed [OF P assms(3)])
qed

theorem forgery_consumes_number_witness:
  "\<exists>st'. decrypt demo_prims ([], []) (p_header (demo_chain_packet 2 [12])) [] [] demo_chain_state = (st', Err DecryptionFailed) \<and>
     snd (decrypt demo_prims ([], []) (p_header (demo_chain_packet 2 [12])) (p_body (demo_chain_packet 2 [12]))
       (p_ad (demo_chain_packet 2 [12])) demo_chain_state) = Ok [12] \<and>
     snd (decrypt demo_prims ([], []) (p_header (demo_chain_packet 2 [12])) (p_body (demo_chain_packet 2 [12]))
       (p_ad (demo_chain_packet 2 [12])) st') = Err (RatchetError ''message number already consumed'')"
proof -
  let ?p = "demo_chain_packet 2 [12]"
  have p: "p_key ?p = replicate 32 4" "p_num ?p = 2" "p_plain ?p = [12]"
    by (simp_all add: demo_chain_packet_def)
  have n: "p_num ?p \<notin> {}" "p_num ?p \<noteq> -1" "unat (p_num ?p) \<le> unat (recv_message_number demo_chain_state) + 1000"
    unfolding p(2) by (simp_all add: demo_chain_state_def)
  obtain st' where d: "decrypt demo_prims ([], []) (p_header ?p) [] [] demo_chain_state = (st', Err DecryptionFailed)"
    by (rule receive_fresh [OF demo_chain_receiving p(1) refl n, of "([], [])" "[]" "[]"])
      (simp add: decrypt_with_key_def)
  from forgery_consumes_number [OF demo_chain_receiving p(1) demo_chain_sealed n p(1) refl d, of "([], [])"] d
  show ?thesis
    unfolding p(3) by (intro exI [of _ st']) simp
qed

end
