(* ===== verification/Ratchet_Session.thy ===== *)
theory Ratchet_Session
  imports Ratchet_Chain
begin

section \<open>Two parties and a network\<close>

text \<open>
  A session as a state machine: the ratchet states of the two parties, the messages in flight
  to each of them and the ratchet public keys drawn so far.  A step encrypts a message,
  delivers or loses one in flight, in any order.  The invariant \<open>in_sync\<close> relates the two states: one
  party leads, the other has yet to see the leader's ratchet key.  Every chain root is named
  by its ratchet public key, through a map \<open>C\<close> that exists in the proofs only.
\<close>

datatype party = Alice | Bob

fun peer :: "party \<Rightarrow> party" where
  "peer Alice = Bob"
| "peer Bob = Alice"

text \<open>There are two parties, so quantifiers over them compute.\<close>

instantiation party :: enum
begin

definition "enum_party = [Alice, Bob]"
definition "enum_all_party p \<longleftrightarrow> p Alice \<and> p Bob"
definition "enum_ex_party p \<longleftrightarrow> p Alice \<or> p Bob"

instance
proof
  show "(UNIV :: party set) = set enum_class.enum"
    by (auto simp: enum_party_def intro: party.exhaust)
qed (auto simp: enum_party_def enum_all_party_def enum_ex_party_def intro: party.exhaust, (metis party.exhaust)+)

end

record session =
  ends :: "party \<Rightarrow> RatchetState"
  net :: "party \<Rightarrow> packet set"
  drawn_keys :: "bytes set"

definition session_start :: "prims \<Rightarrow> bytes \<Rightarrow> bytes \<times> bytes \<Rightarrow> bytes \<times> bytes \<Rightarrow> session \<Rightarrow> bool" where
  "session_start P ss alice_pair bob_pair s \<longleftrightarrow>
     box_keypair P (fst alice_pair) (snd alice_pair) \<and> box_keypair P (fst bob_pair) (snd bob_pair) \<and>
     fst alice_pair \<noteq> fst bob_pair \<and>
     init_sender P alice_pair ss (fst bob_pair) = Ok (ends s Alice) \<and>
     ends s Bob = init_receiver ss bob_pair \<and>
     net s = (\<lambda>_. {}) \<and> drawn_keys s = {fst alice_pair, fst bob_pair}"

text \<open>
  What can be observed of a session: a plaintext handed to \<open>encrypt\<close>, a refusal to encrypt,
  the result of a delivery, a loss.
\<close>

datatype event = Sent party bytes | Refused party | Received party "bytes result" | Lost party

text \<open>
  Sending needs a free message number, so that the 32-bit counter does not wrap within one
  chain.  A delivery draws a key pair whose public key is new, and takes the message off the
  network, whatever the result.
\<close>

inductive session_event :: "prims \<Rightarrow> session \<Rightarrow> event \<Rightarrow> session \<Rightarrow> bool" for P where
  send: "length nonce = 24 \<Longrightarrow> send_message_number (ends s X) \<noteq> -1 \<Longrightarrow>
    encrypt P nonce p ad (ends s X) = (st', Ok (h, c)) \<Longrightarrow>
    session_event P s (Sent X p) (s\<lparr>ends := (ends s)(X := st'),
      net := (net s)(peer X := insert \<lparr>p_header = h, p_body = c, p_ad = ad, p_plain = p\<rparr> (net s (peer X)))\<rparr>)"
| send_refused: "encrypt P nonce p ad (ends s X) = (st', Err e) \<Longrightarrow>
    session_event P s (Refused X) (s\<lparr>ends := (ends s)(X := st')\<rparr>)"
| deliver: "pkt \<in> net s X \<Longrightarrow> box_keypair P pk sk \<Longrightarrow> pk \<notin> drawn_keys s \<Longrightarrow>
    decrypt P (pk, sk) (p_header pkt) (p_body pkt) (p_ad pkt) (ends s X) = (st', r) \<Longrightarrow>
    session_event P s (Received X r) (s\<lparr>ends := (ends s)(X := st'), net := (net s)(X := net s X - {pkt}),
      drawn_keys := insert pk (drawn_keys s)\<rparr>)"
| lose: "session_event P s (Lost X) (s\<lparr>net := (net s)(X := net s X - {pkt})\<rparr>)"

inductive session_reachable :: "prims \<Rightarrow> session \<Rightarrow> session \<Rightarrow> bool" for P s0 where
  start: "session_reachable P s0 s0"
| step: "session_reachable P s0 s \<Longrightarrow> session_event P s e s' \<Longrightarrow> session_reachable P s0 s'"

text \<open>
  The skipping limit as the receiver applies it: the message is cached, or its number, and for
  a new ratchet key the announced length of the closed chain, is within 1000 of the counter.
\<close>

definition gap_ok :: "RatchetState \<Rightarrow> MessageHeader \<Rightarrow> bool" where
  "gap_ok st h \<longleftrightarrow>
     (if skipped_keys st (h_ratchet_public_key h, h_message_number h) \<noteq> None then True
      else if remote_ratchet_key st = Some (h_ratchet_public_key h)
      then unat (h_message_number h) \<le> unat (recv_message_number st) + 1000
      else unat (h_message_number h) \<le> 1000 \<and>
        (receiving_chain_key st \<noteq> None \<longrightarrow>
         unat (h_previous_chain_length h) \<le> unat (recv_message_number st) + 1000))"

definition receipt :: "RatchetState \<Rightarrow> packet \<Rightarrow> bytes result" where
  "receipt st p = (if gap_ok st (p_header p) then Ok (p_plain p)
     else Err (RatchetError ''too many skipped messages''))"

subsection \<open>The invariant of one party\<close>

text \<open>
  The cached keys are keys of their chains, for numbers the receiver has passed; the receiving
  chain key is the one at the counter's position.
\<close>

definition party_ok :: "prims \<Rightarrow> bytes set \<Rightarrow> (bytes \<Rightarrow> bytes) \<Rightarrow> RatchetState \<Rightarrow> bool" where
  "party_ok P used C st \<longleftrightarrow>
     (\<forall>k n mk. skipped_keys st (k, n) = Some mk \<longrightarrow>
        k \<in> used \<and> mk = msg_key_at P (C k) (unat n) \<and>
        (remote_ratchet_key st = Some k \<longrightarrow> n < recv_message_number st)) \<and>
     (\<forall>ck. receiving_chain_key st = Some ck \<longrightarrow>
        (\<exists>k. remote_ratchet_key st = Some k \<and>
           ck = chain_key_at P (C k) (unat (recv_message_number st)))) \<and>
     (\<forall>k. remote_ratchet_key st = Some k \<longrightarrow> k \<in> used)"

text \<open>
  A packet that its receiver can open without a ratchet step: its key is cached, or it lies
  ahead in the current chain, of which \<open>sent\<close> messages were sent.
\<close>

definition readable :: "prims \<Rightarrow> bytes set \<Rightarrow> (bytes \<Rightarrow> bytes) \<Rightarrow> u32 \<Rightarrow> RatchetState \<Rightarrow> packet \<Rightarrow> bool" where
  "readable P used C sent st p \<longleftrightarrow>
     sealed_in P (C (p_key p)) p \<and> p_key p \<in> used \<and> length (p_key p) = 32 \<and>
     (skipped_keys st (p_key p, p_num p) \<noteq> None \<or>
      remote_ratchet_key st = Some (p_key p) \<and> receiving_chain_key st \<noteq> None \<and>
      recv_message_number st \<le> p_num p \<and> p_num p < sent)"

abbreviation p_id :: "packet \<Rightarrow> bytes \<times> u32" where
  "p_id p \<equiv> (p_key p, p_num p)"

text \<open>Receiving a readable packet: its result, and what stays true of the receiver.\<close>

definition same_ends :: "RatchetState \<Rightarrow> RatchetState \<Rightarrow> bool" where
  "same_ends st st' \<longleftrightarrow> root_key st' = root_key st \<and> sending_chain_key st' = sending_chain_key st \<and>
     sending_keypair st' = sending_keypair st \<and> remote_ratchet_key st' = remote_ratchet_key st \<and>
     send_message_number st' = send_message_number st \<and>
     previous_chain_length st' = previous_chain_length st \<and>
     (receiving_chain_key st' = None \<longleftrightarrow> receiving_chain_key st = None)"

lemma receive_readable:
  assumes P: "ratchet_prims_ok P" and ok: "party_ok P used C st" and rd: "readable P used C sent st p"
    and sent: "receiving_chain_key st \<noteq> None \<Longrightarrow> recv_message_number st \<le> sent"
  obtains st' where "decrypt P drawn (p_header p) (p_body p) (p_ad p) st = (st', receipt st p)"
    "same_ends st st'" "party_ok P used C st'"
    "receiving_chain_key st \<noteq> None \<Longrightarrow> recv_message_number st' \<le> sent"
    "\<And>q. readable P used C sent st q \<Longrightarrow> p_id q \<noteq> p_id p \<Longrightarrow> readable P used C sent st' q"
    "\<And>k n. remote_ratchet_key st \<noteq> Some k \<Longrightarrow> skipped_keys st (k, n) = None \<Longrightarrow> skipped_keys st' (k, n) = None"
proof (cases "skipped_keys st (p_id p)")
  case (Some mk)
  then have mk: "mk = msg_key_at P (C (p_key p)) (unat (p_num p))"
    using ok by (simp add: party_ok_def)
  have "receipt st p = decrypt_with_key P mk (p_body p) (p_ad p)"
    using rd Some by (simp add: receipt_def gap_ok_def mk open_sealed [OF P] readable_def)
  then have d: "decrypt P drawn (p_header p) (p_body p) (p_ad p) st =
      (st\<lparr>skipped_keys := (skipped_keys st)(p_id p := None)\<rparr>, receipt st p)"
    using decrypt_cached [OF Some] by simp
  show ?thesis
    by (rule that [OF d]) (use ok sent in \<open>auto simp: same_ends_def party_ok_def readable_def\<close>)
next
  case None
  with rd have here: "remote_ratchet_key st = Some (p_key p)" "receiving_chain_key st \<noteq> None"
      "recv_message_number st \<le> p_num p" "p_num p < sent"
    and sealed: "sealed_in P (C (p_key p)) p" "length (p_key p) = 32"
    by (auto simp: readable_def)
  let ?r = "recv_message_number st" and ?D = "C (p_key p)"
  have ck: "receiving_chain_key st = Some (chain_key_at P ?D (unat ?r))"
    using ok here by (auto simp: party_ok_def)
  have le: "unat ?r \<le> unat (p_num p)" "\<not> p_num p < ?r"
    using here(3) by (simp_all add: word_le_nat_alt not_less)
  have gap: "gap_ok st (p_header p) \<longleftrightarrow> \<not> MAX_SKIP < p_num p - ?r"
    using None here(1,3) le by (simp add: gap_ok_def MAX_SKIP_def word_less_nat_alt unat_sub not_less) arith
  have suc: "unat (p_num p + 1) = Suc (unat (p_num p))"
    by (rule unat_succ_below [OF here(4)])
  note dec = decrypt_current [OF ratchet_prims(1) [OF P] here(1) sealed(2) None]
    receive_at_eq [OF ratchet_prims(3) [OF P] here(1) ck]
  show ?thesis
  proof (cases "gap_ok st (p_header p)")
    case False
    then have d: "decrypt P drawn (p_header p) (p_body p) (p_ad p) st = (st, receipt st p)"
      using gap le by (simp add: dec receipt_def)
    show ?thesis
      by (rule that [OF d]) (use ok sent in \<open>auto simp: same_ends_def\<close>)
  next
    case True
    let ?st = "st\<lparr>skipped_keys := skip_store P (p_key p) (chain_key_at P ?D (unat ?r)) ?r (p_num p) (skipped_keys st),
         receiving_chain_key := Some (chain_key_at P ?D (unat (p_num p + 1))),
         recv_message_number := p_num p + 1\<rparr>"
    have d: "decrypt P drawn (p_header p) (p_body p) (p_ad p) st = (?st, receipt st p)"
      using True gap le
      by (simp add: dec receipt_def chain_key_at_add msg_key_at_add suc open_sealed [OF P sealed(1)])
    show ?thesis
    proof (rule that [OF d])
      show "same_ends st ?st"
        using here by (simp add: same_ends_def)
      show "party_ok P used C ?st"
        using ok here(1,3) le
        by (auto simp: party_ok_def skip_store_def msg_key_at_add word_le_nat_alt word_less_nat_alt suc
            split: if_splits) (metis le_imp_less_Suc le_trans less_imp_le_nat)
      show "recv_message_number ?st \<le> sent"
        using here(4) suc by (simp add: word_le_nat_alt word_less_nat_alt)
      show "skipped_keys ?st (k, n) = None"
        if "remote_ratchet_key st \<noteq> Some k" "skipped_keys st (k, n) = None" for k n
        using that here(1) by simp
      show "readable P used C sent ?st q" if "readable P used C sent st q" "p_id q \<noteq> p_id p" for q
      proof -
        have "p_num q + 0 \<noteq> p_num p" if "p_key q = p_key p"
          using that \<open>p_id q \<noteq> p_id p\<close> by simp
        then have "unat (p_num q) \<noteq> unat (p_num p)" if "p_key q = p_key p"
          using that by (simp add: word_unat_eq_iff)
        with \<open>readable P used C sent st q\<close> here(1,2) show ?thesis
          by (auto simp: readable_def skip_store_def word_le_nat_alt word_less_nat_alt suc)
      qed
    qed
  qed
qed

lemma party_ok_extend:
  assumes "party_ok P used C st" "pd \<notin> used"
  shows "party_ok P (insert pd used) (C(pd := D)) st" "skipped_keys st (pd, n) = None"
    "remote_ratchet_key st \<noteq> Some pd"
proof -
  show "skipped_keys st (pd, n) = None" "remote_ratchet_key st \<noteq> Some pd"
    using assms unfolding party_ok_def by (cases "skipped_keys st (pd, n)", simp, blast, blast)
  have "k \<noteq> pd" if "skipped_keys st (k, n) = Some mk" for k n mk
    using that assms by (auto simp: party_ok_def)
  moreover have "k \<noteq> pd" if "remote_ratchet_key st = Some k" for k
    using that assms by (auto simp: party_ok_def)
  moreover have "(C(pd := D)) k = C k" if "k \<noteq> pd" for k
    using that by simp
  ultimately show "party_ok P (insert pd used) (C(pd := D)) st"
    using assms(1) unfolding party_ok_def by (metis insertCI)
qed

lemma readable_extend:
  "readable P used C sent st p \<Longrightarrow> pd \<notin> used \<Longrightarrow> readable P (insert pd used) (C(pd := D)) sent st p"
  by (auto simp: readable_def)

subsection \<open>The invariant of the session\<close>

text \<open>
  The leader's newest root and sending chain come from the follower's root and the exchange
  that the follower has not made yet; the leader receives on the follower's sending chain, and
  the follower's receiving chain is closed, at the length that the leader announces.
\<close>

definition linked :: "prims \<Rightarrow> bytes set \<Rightarrow> (bytes \<Rightarrow> bytes) \<Rightarrow> bytes \<times> bytes \<Rightarrow> bytes \<times> bytes \<Rightarrow>
    RatchetState \<Rightarrow> RatchetState \<Rightarrow> bool" where
  "linked P used C kl kf L F \<longleftrightarrow>
     sending_keypair L = Some kl \<and> sending_keypair F = Some kf \<and>
     box_keypair P (fst kl) (snd kl) \<and> box_keypair P (fst kf) (snd kf) \<and>
     fst kl \<in> used \<and> fst kf \<in> used \<and>
     remote_ratchet_key L = Some (fst kf) \<and> remote_ratchet_key F \<noteq> Some (fst kl) \<and>
     (\<forall>n. skipped_keys F (fst kl, n) = None) \<and>
     sending_chain_key L = Some (chain_key_at P (C (fst kl)) (unat (send_message_number L))) \<and>
     (\<exists>x. dh_exchange P (snd kf) (fst kl) = Ok x \<and> root_key L = root_next P (root_key F) x \<and>
        C (fst kl) = root_chain P (root_key F) x) \<and>
     (if sending_chain_key F = None then receiving_chain_key L = None \<and> send_message_number F = 0
      else sending_chain_key F = Some (chain_key_at P (C (fst kf)) (unat (send_message_number F))) \<and>
        receiving_chain_key L \<noteq> None) \<and>
     (receiving_chain_key L \<noteq> None \<longrightarrow> recv_message_number L \<le> send_message_number F) \<and>
     (receiving_chain_key F \<noteq> None \<longrightarrow> recv_message_number F \<le> previous_chain_length L)"

definition announced :: "prims \<Rightarrow> (bytes \<Rightarrow> bytes) \<Rightarrow> bytes \<Rightarrow> RatchetState \<Rightarrow> packet \<Rightarrow> bool" where
  "announced P C pl L p \<longleftrightarrow> sealed_in P (C pl) p \<and> p_key p = pl \<and>
     h_previous_chain_length (p_header p) = previous_chain_length L \<and> p_num p < send_message_number L"

definition in_sync :: "prims \<Rightarrow> bytes set \<Rightarrow> (bytes \<Rightarrow> bytes) \<Rightarrow> bytes \<times> bytes \<Rightarrow> bytes \<times> bytes \<Rightarrow>
    RatchetState \<Rightarrow> RatchetState \<Rightarrow> packet set \<Rightarrow> packet set \<Rightarrow> bool" where
  "in_sync P used C kl kf L F to_L to_F \<longleftrightarrow>
     linked P used C kl kf L F \<and> party_ok P used C L \<and> party_ok P used C F \<and>
     (\<forall>p \<in> to_L. readable P used C (send_message_number F) L p) \<and>
     (\<forall>p \<in> to_F. readable P used C (previous_chain_length L) F p \<or> announced P C (fst kl) L p) \<and>
     inj_on p_id to_L \<and> inj_on p_id to_F"

lemma other_id: "inj_on p_id ps \<Longrightarrow> p \<in> ps \<Longrightarrow> q \<in> ps - {p} \<Longrightarrow> p_id q \<noteq> p_id p"
  by (blast dest: inj_onD)

lemma inj_on_new: "inj_on p_id ps \<Longrightarrow> (\<And>q. q \<in> ps \<Longrightarrow> p_id q \<noteq> p_id p) \<Longrightarrow> inj_on p_id (insert p ps)"
  unfolding inj_on_def by (metis insert_iff)

lemma in_sync_lose:
  assumes "in_sync P used C kl kf L F to_L to_F"
  shows "in_sync P used C kl kf L F (to_L - {p}) to_F" "in_sync P used C kl kf L F to_L (to_F - {p})"
  using assms by (auto simp: in_sync_def inj_on_diff)

text \<open>Receiving a packet that needs no ratchet step, by the leader or by the follower.\<close>

lemma leader_receives:
  assumes P: "ratchet_prims_ok P" and s: "in_sync P used C kl kf L F to_L to_F" and p: "p \<in> to_L"
  obtains L' where "decrypt P drawn (p_header p) (p_body p) (p_ad p) L = (L', receipt L p)"
    "in_sync P used C kl kf L' F (to_L - {p}) to_F" "remote_ratchet_key L' = remote_ratchet_key L"
proof -
  from s p have ok: "party_ok P used C L" and rd: "readable P used C (send_message_number F) L p"
    and le: "receiving_chain_key L \<noteq> None \<Longrightarrow> recv_message_number L \<le> send_message_number F"
    by (auto simp: in_sync_def linked_def)
  obtain L' where L': "decrypt P drawn (p_header p) (p_body p) (p_ad p) L = (L', receipt L p)"
    "same_ends L L'" "party_ok P used C L'"
    "receiving_chain_key L \<noteq> None \<Longrightarrow> recv_message_number L' \<le> send_message_number F"
    "\<And>q. readable P used C (send_message_number F) L q \<Longrightarrow> p_id q \<noteq> p_id p \<Longrightarrow>
       readable P used C (send_message_number F) L' q"
    by (rule receive_readable [OF P ok rd le]) blast+
  have "readable P used C (send_message_number F) L' q" if "q \<in> to_L - {p}" for q
  proof (rule L'(5))
    show "p_id q \<noteq> p_id p"
      using s p that by (intro other_id [of to_L]) (simp_all add: in_sync_def)
  qed (use s that in \<open>simp add: in_sync_def\<close>)
  moreover have "linked P used C kl kf L' F"
    using s L'(2,4) by (auto simp: in_sync_def linked_def same_ends_def)
  moreover have "announced P C (fst kl) L' q = announced P C (fst kl) L q" for q
    using L'(2) by (simp add: announced_def same_ends_def)
  moreover have "previous_chain_length L' = previous_chain_length L"
    using L'(2) by (simp add: same_ends_def)
  ultimately have "in_sync P used C kl kf L' F (to_L - {p}) to_F"
    using s L'(3) by (simp add: in_sync_def inj_on_diff)
  with L'(1,2) show ?thesis
    by (intro that [of L']) (simp_all add: same_ends_def)
qed

lemma follower_receives_readable:
  assumes P: "ratchet_prims_ok P" and s: "in_sync P used C kl kf L F to_L to_F" and p: "p \<in> to_F"
    and rd: "readable P used C (previous_chain_length L) F p"
  obtains F' where "decrypt P drawn (p_header p) (p_body p) (p_ad p) F = (F', receipt F p)"
    "in_sync P used C kl kf L F' to_L (to_F - {p})" "remote_ratchet_key F' = remote_ratchet_key F"
proof -
  from s have ok: "party_ok P used C F"
    and le: "receiving_chain_key F \<noteq> None \<Longrightarrow> recv_message_number F \<le> previous_chain_length L"
    by (auto simp: in_sync_def linked_def)
  obtain F' where F': "decrypt P drawn (p_header p) (p_body p) (p_ad p) F = (F', receipt F p)"
    "same_ends F F'" "party_ok P used C F'"
    "receiving_chain_key F \<noteq> None \<Longrightarrow> recv_message_number F' \<le> previous_chain_length L"
    "\<And>q. readable P used C (previous_chain_length L) F q \<Longrightarrow> p_id q \<noteq> p_id p \<Longrightarrow>
       readable P used C (previous_chain_length L) F' q"
    "\<And>k n. remote_ratchet_key F \<noteq> Some k \<Longrightarrow> skipped_keys F (k, n) = None \<Longrightarrow> skipped_keys F' (k, n) = None"
    by (rule receive_readable [OF P ok rd le]) blast+
  have "readable P used C (previous_chain_length L) F' q \<or> announced P C (fst kl) L q"
    if "q \<in> to_F - {p}" for q
  proof -
    have "p_id q \<noteq> p_id p"
      using s p that by (intro other_id [of to_F]) (simp_all add: in_sync_def)
    with F'(5) [of q] s that show ?thesis
      by (auto simp: in_sync_def)
  qed
  moreover have "linked P used C kl kf L F'"
    using s F'(2,4,6) by (auto simp: in_sync_def linked_def same_ends_def)
  moreover have "send_message_number F' = send_message_number F"
    using F'(2) by (simp add: same_ends_def)
  ultimately have "in_sync P used C kl kf L F' to_L (to_F - {p})"
    using s F'(3) by (simp add: in_sync_def inj_on_diff)
  with F'(1,2) show ?thesis
    by (intro that [of F']) (simp_all add: same_ends_def)
qed

subsection \<open>The ratchet step\<close>

lemma dh_ratchet_step_eq:
  assumes "kdf_ok P" "sending_keypair st = Some (pf, sf)"
    and "dh_exchange P sf pl = Ok x" "dh_exchange P sd pl = Ok y"
  shows "dh_ratchet_step P (pd, sd) pl st =
    (st\<lparr>previous_chain_length := send_message_number st, send_message_number := 0,
        recv_message_number := 0, remote_ratchet_key := Some pl,
        root_key := root_next P (root_next P (root_key st) x) y,
        receiving_chain_key := Some (root_chain P (root_key st) x),
        sending_chain_key := Some (root_chain P (root_next P (root_key st) x) y),
        sending_keypair := Some (pd, sd)\<rparr>, Ok ())"
  using assms(2-) by (simp add: dh_ratchet_step_def kdf_rk_eq(1) [OF assms(1)])

text \<open>
  The follower opens its first packet of the leader's new chain: it closes the old chain,
  takes the two ratchet steps and becomes the leader.  Unless the closed chain has too many
  messages left, the rest of \<open>decrypt\<close> is what the new leader does with the same packet.
\<close>

lemma follower_ratchets:
  assumes P: "ratchet_prims_ok P" and s: "in_sync P used C (pl, sl) (pf, sf) L F to_L to_F"
    and p: "p \<in> to_F" "announced P C pl L p"
    and fresh: "box_keypair P pd sd" "pd \<notin> used"
    and gap: "receiving_chain_key F \<noteq> None \<Longrightarrow>
      unat (previous_chain_length L) \<le> unat (recv_message_number F) + 1000"
  obtains F' C' where
    "decrypt P (pd, sd) (p_header p) (p_body p) (p_ad p) F = decrypt P (pd, sd) (p_header p) (p_body p) (p_ad p) F'"
    "in_sync P (insert pd used) C' (pd, sd) (pl, sl) F' L to_F to_L" "receipt F' p = receipt F p"
proof -
  from s have lk: "linked P used C (pl, sl) (pf, sf) L F" and okL: "party_ok P used C L"
    and okF: "party_ok P used C F"
    and toL: "\<forall>p \<in> to_L. readable P used C (send_message_number F) L p"
    and toF: "\<forall>p \<in> to_F. readable P used C (previous_chain_length L) F p \<or> announced P C pl L p"
    and inj: "inj_on p_id to_L" "inj_on p_id to_F"
    by (simp_all add: in_sync_def)
  from lk obtain x where x: "dh_exchange P sf pl = Ok x" "root_key L = root_next P (root_key F) x"
      "C pl = root_chain P (root_key F) x"
    and kp: "box_keypair P pl sl" "box_keypair P pf sf" "pl \<in> used" "pf \<in> used"
      "sending_keypair F = Some (pf, sf)" "remote_ratchet_key F \<noteq> Some pl" "\<forall>n. skipped_keys F (pl, n) = None"
    by (auto simp: linked_def)
  note prims = ratchet_prims [OF P]
  obtain y where y: "dh_exchange P sl pd = Ok y" "dh_exchange P sd pl = Ok y"
    by (rule dh_exchange_agree [OF prims(1,2) kp(1) fresh(1)]) blast
  let ?r = "recv_message_number F" and ?pn = "previous_chain_length L"
  let ?C = "C(pd := root_chain P (root_key L) y)"
  define M where "M = (case (receiving_chain_key F, remote_ratchet_key F) of
      (Some ck, Some k) \<Rightarrow> skip_store P k ck ?r ?pn (skipped_keys F) | _ \<Rightarrow> skipped_keys F)"
  define F' where "F' = F\<lparr>skipped_keys := M, previous_chain_length := send_message_number F, send_message_number := 0,
        recv_message_number := 0, remote_ratchet_key := Some pl,
        root_key := root_next P (root_key L) y, receiving_chain_key := Some (C pl),
        sending_chain_key := Some (?C pd), sending_keypair := Some (pd, sd)\<rparr>"
  have pd: "pd \<noteq> pl" "pd \<noteq> pf"
    using fresh(2) kp by auto
  have hdr: "p_key p = pl" "h_previous_chain_length (p_header p) = ?pn" "p_num p < send_message_number L"
    using p(2) by (simp_all add: announced_def)
  have len: "length (p_key p) = 32"
    using keypair_lengths [OF prims(2) kp(1)] hdr by simp
  obtain rk where rk: "receiving_chain_key F \<noteq> None \<Longrightarrow> remote_ratchet_key F = Some rk \<and> rk \<in> used \<and> rk \<noteq> pl \<and>
      receiving_chain_key F = Some (chain_key_at P (C rk) (unat ?r)) \<and> ?r \<le> ?pn"
    using okF lk kp(6) by (cases "receiving_chain_key F") (auto simp: party_ok_def linked_def)
  have M_cases: "M = skipped_keys F \<or> receiving_chain_key F \<noteq> None \<and>
      M = skip_store P rk (chain_key_at P (C rk) (unat ?r)) ?r ?pn (skipped_keys F)"
    using rk by (cases "receiving_chain_key F") (auto simp: M_def)
  have M_pl: "M (pl, n) = None" for n
    using M_cases rk kp(7) by auto
  have "decrypt P (pd, sd) (p_header p) (p_body p) (p_ad p) F = receive_at P (p_num p) (p_body p) (p_ad p) F'"
  proof (cases "receiving_chain_key F")
    case None
    then have "skip_message_keys_for_current_chain P ?pn F = (F, Ok ())"
      by (simp add: skip_message_keys_for_current_chain_def)
    then show ?thesis
      using decrypt_new_key [OF prims(1), of F "p_header p" "(pd, sd)" "p_body p" "p_ad p"]
        dh_ratchet_step_eq [OF prims(3) kp(5) x(1) y(2), of pd] kp(6,7) len None
      by (simp add: hdr F'_def M_def x)
  next
    case (Some ck)
    with rk have k: "remote_ratchet_key F = Some rk" "receiving_chain_key F = Some (chain_key_at P (C rk) (unat ?r))"
        "?r \<le> ?pn"
      by auto
    then have "\<not> ?pn < ?r" "\<not> MAX_SKIP < ?pn - ?r"
      using gap Some by (auto simp: MAX_SKIP_def word_le_nat_alt word_less_nat_alt unat_sub)
    then show ?thesis
      using decrypt_new_key [OF prims(1), of F "p_header p" "(pd, sd)" "p_body p" "p_ad p"]
        dh_ratchet_step_eq [OF prims(3) _ x(1) y(2), where pf = pf and pd = pd] kp(5-7) len
        skip_for_current_chain_eq [OF prims(3) k(1,2), of ?pn]
      by (simp add: hdr F'_def M_def x k)
  qed
  also have "\<dots> = decrypt P (pd, sd) (p_header p) (p_body p) (p_ad p) F'"
    by (rule decrypt_current [OF prims(1), symmetric]) (use hdr len M_pl in \<open>simp_all add: F'_def\<close>)
  finally have dec: "decrypt P (pd, sd) (p_header p) (p_body p) (p_ad p) F =
      decrypt P (pd, sd) (p_header p) (p_body p) (p_ad p) F'" .
  have "party_ok P used C F'"
    using okF rk M_cases M_pl kp(3)
    by (auto simp: party_ok_def F'_def skip_store_def msg_key_at_add word_le_nat_alt split: if_splits)
  then have okF': "party_ok P (insert pd used) ?C F'"
    by (rule party_ok_extend(1) [OF _ fresh(2)])
  have lk': "linked P (insert pd used) ?C (pd, sd) (pl, sl) F' L"
    using lk fresh pd y(1) party_ok_extend [OF okL fresh(2)]
    by (auto simp: linked_def F'_def split: if_splits)
  have "readable P used C (send_message_number L) F' q" if q: "q \<in> to_F" for q
  proof (cases "announced P C pl L q")
    case True
    with len hdr kp(3) show ?thesis
      by (auto simp: announced_def readable_def F'_def)
  next
    case False
    with toF q have "readable P used C ?pn F q"
      by blast
    moreover have "M (k, n) \<noteq> None" if "skipped_keys F (k, n) \<noteq> None" for k n
      using that M_cases by (auto simp: skip_store_def)
    moreover have "M (k, n) \<noteq> None" if "receiving_chain_key F \<noteq> None" "remote_ratchet_key F = Some k"
        "?r \<le> n" "n < ?pn" for k n
      using that rk by (auto simp: M_def)
    ultimately have "M (p_id q) \<noteq> None"
      unfolding readable_def by blast
    with \<open>readable P used C ?pn F q\<close> show ?thesis
      by (simp add: readable_def F'_def)
  qed
  then have toF': "\<forall>q \<in> to_F. readable P (insert pd used) ?C (send_message_number L) F' q"
    using readable_extend [OF _ fresh(2)] by blast
  have toL': "\<forall>q \<in> to_L. readable P (insert pd used) ?C (previous_chain_length F') L q"
    using toL readable_extend [OF _ fresh(2)] by (simp add: F'_def)
  have sync: "in_sync P (insert pd used) ?C (pd, sd) (pl, sl) F' L to_F to_L"
    using lk' okF' party_ok_extend(1) [OF okL fresh(2)] toF' toL' inj by (simp add: in_sync_def)
  have "receipt F' p = receipt F p"
    using gap M_pl kp(6,7) hdr by (auto simp: receipt_def gap_ok_def F'_def)
  with dec sync show ?thesis
    by (rule that)
qed

lemma follower_receives:
  assumes P: "ratchet_prims_ok P" and s: "in_sync P used C kl kf L F to_L to_F" and p: "p \<in> to_F"
    and fresh: "box_keypair P pd sd" "pd \<notin> used"
  obtains F' where "decrypt P (pd, sd) (p_header p) (p_body p) (p_ad p) F = (F', receipt F p)"
    "(\<exists>C. in_sync P used C kl kf L F' to_L (to_F - {p})) \<and> remote_ratchet_key F' = remote_ratchet_key F \<or>
     (\<exists>C kl kf. in_sync P (insert pd used) C kl kf F' L (to_F - {p}) to_L)"
proof (cases "readable P used C (previous_chain_length L) F p")
  case True
  then show ?thesis
    by (rule follower_receives_readable [OF P s p]) (blast intro: that)
next
  case False
  obtain pl sl pf sf where k: "kl = (pl, sl)" "kf = (pf, sf)"
    by (cases kl; cases kf)
  with s p False have a: "announced P C pl L p"
    by (auto simp: in_sync_def)
  have lk: "linked P used C kl kf L F"
    using s by (simp add: in_sync_def)
  then have hdr: "p_key p = pl" "h_previous_chain_length (p_header p) = previous_chain_length L"
    "length pl = 32" "remote_ratchet_key F \<noteq> Some pl" "\<forall>n. skipped_keys F (pl, n) = None"
    using a keypair_lengths(1) [OF ratchet_prims(2) [OF P], of pl sl] by (auto simp: linked_def announced_def k)
  show ?thesis
  proof (cases "receiving_chain_key F \<noteq> None \<and>
      \<not> unat (previous_chain_length L) \<le> unat (recv_message_number F) + 1000")
    case True
    then have le: "recv_message_number F \<le> previous_chain_length L"
      using lk by (simp add: linked_def)
    have "MAX_SKIP < previous_chain_length L - recv_message_number F"
      using conjunct2 [OF True] le by (simp add: MAX_SKIP_def word_less_nat_alt unat_sub)
    moreover have "\<not> previous_chain_length L < recv_message_number F"
      using le by (simp add: not_less)
    moreover have "party_ok P used C F"
      using s by (simp add: in_sync_def)
    ultimately have "decrypt P (pd, sd) (p_header p) (p_body p) (p_ad p) F = (F, receipt F p)"
      using True le hdr
      by (auto simp: decrypt_new_key ratchet_prims [OF P] party_ok_def receipt_def gap_ok_def
          skip_for_current_chain_eq [OF ratchet_prims(3) [OF P]])
    then show ?thesis
      by (rule that) (use in_sync_lose(2) [OF s] in blast)
  next
    case False
    then have gap: "receiving_chain_key F \<noteq> None \<Longrightarrow>
        unat (previous_chain_length L) \<le> unat (recv_message_number F) + 1000"
      by blast
    obtain F' C' where F': "decrypt P (pd, sd) (p_header p) (p_body p) (p_ad p) F =
        decrypt P (pd, sd) (p_header p) (p_body p) (p_ad p) F'"
      "in_sync P (insert pd used) C' (pd, sd) (pl, sl) F' L to_F to_L" "receipt F' p = receipt F p"
      by (rule follower_ratchets [OF P s [unfolded k] p a fresh gap])
    obtain F'' where "decrypt P (pd, sd) (p_header p) (p_body p) (p_ad p) F' = (F'', receipt F' p)"
      "in_sync P (insert pd used) C' (pd, sd) (pl, sl) F'' L (to_F - {p}) to_L"
      by (rule leader_receives [OF P F'(2) p])
    with F'(1,3) show ?thesis
      by (intro that [of F'']) auto
  qed
qed

subsection \<open>Sending\<close>

lemma succ_not_max: "(n :: u32) \<noteq> -1 \<Longrightarrow> unat (n + 1) = Suc (unat n)"
  by (rule unat_succ_below [of n "- 1"]) (simp add: word_order.not_eq_extremum)

lemma leader_sends:
  assumes P: "ratchet_prims_ok P" and s: "in_sync P used C kl kf L F to_L to_F"
    and nonce: "length nonce = 24" and room: "send_message_number L \<noteq> -1"
    and enc: "encrypt P nonce p ad L = (L', Ok (h, c))"
  shows "in_sync P used C kl kf L' F to_L (insert \<lparr>p_header = h, p_body = c, p_ad = ad, p_plain = p\<rparr> to_F)"
    "\<lparr>p_header = h, p_body = c, p_ad = ad, p_plain = p\<rparr> \<notin> to_F"
proof -
  let ?n = "send_message_number L" and ?pkt = "\<lparr>p_header = h, p_body = c, p_ad = ad, p_plain = p\<rparr>"
  have lk: "linked P used C kl kf L F"
    using s by (simp add: in_sync_def)
  then have "sending (C (fst kl)) P (fst kl) L"
    by (cases kl) (auto simp: linked_def sending_def)
  then obtain st' h' c' where st': "encrypt P nonce p ad L = (st', Ok (h', c'))" "sending (C (fst kl)) P (fst kl) st'"
    "sealed_in P (C (fst kl)) \<lparr>p_header = h', p_body = c', p_ad = ad, p_plain = p\<rparr>"
    "h' = \<lparr>h_ratchet_public_key = fst kl, h_previous_chain_length = previous_chain_length L, h_message_number = ?n\<rparr>"
    "st' = L\<lparr>sending_chain_key := Some (chain_key_at P (C (fst kl)) (Suc (unat ?n))), send_message_number := ?n + 1\<rparr>"
    by (rule encrypt_sending [OF P _ room nonce])
  have L': "L' = L\<lparr>sending_chain_key := Some (chain_key_at P (C (fst kl)) (Suc (unat ?n))),
      send_message_number := ?n + 1\<rparr>" and h: "h = h'" "c = c'"
    using st'(1,5) enc by simp_all
  note suc = succ_not_max [OF room]
  have ann: "announced P C (fst kl) L' ?pkt"
    using st'(3,4) h suc by (simp add: announced_def L' word_less_nat_alt)
  have more: "announced P C (fst kl) L' q" if "announced P C (fst kl) L q" for q
    using that suc by (simp add: announced_def L' word_less_nat_alt)
  have lk': "linked P used C kl kf L' F"
    using lk suc by (simp add: linked_def L')
  have new: "p_id q \<noteq> p_id ?pkt" if "q \<in> to_F" for q
    using s that lk st'(4) h by (auto simp: in_sync_def readable_def announced_def linked_def)
  have inj: "inj_on p_id (insert ?pkt to_F)"
    by (rule inj_on_new) (use s new in \<open>simp_all add: in_sync_def\<close>)
  have ok: "party_ok P used C L'"
    using s by (simp add: in_sync_def party_ok_def L')
  have "readable P used C v L' q = readable P used C v L q" for v q
    by (simp add: readable_def L')
  then show "in_sync P used C kl kf L' F to_L (insert ?pkt to_F)"
    using s lk' ok inj ann more by (auto simp: in_sync_def L')
  show "?pkt \<notin> to_F"
    using new by blast
qed

lemma follower_sends:
  assumes P: "ratchet_prims_ok P" and s: "in_sync P used C kl kf L F to_L to_F"
    and nonce: "length nonce = 24" and room: "send_message_number F \<noteq> -1"
    and enc: "encrypt P nonce p ad F = (F', Ok (h, c))"
  shows "in_sync P used C kl kf L F' (insert \<lparr>p_header = h, p_body = c, p_ad = ad, p_plain = p\<rparr> to_L) to_F"
    "\<lparr>p_header = h, p_body = c, p_ad = ad, p_plain = p\<rparr> \<notin> to_L"
proof -
  let ?n = "send_message_number F" and ?pkt = "\<lparr>p_header = h, p_body = c, p_ad = ad, p_plain = p\<rparr>"
  have lk: "linked P used C kl kf L F"
    using s by (simp add: in_sync_def)
  have some: "sending_chain_key F \<noteq> None"
    by (rule notI) (use enc in \<open>simp add: encrypt_def\<close>)
  with lk have "sending (C (fst kf)) P (fst kf) F"
    by (cases kf) (auto simp: linked_def sending_def)
  then obtain st' h' c' where st': "encrypt P nonce p ad F = (st', Ok (h', c'))" "sending (C (fst kf)) P (fst kf) st'"
    "sealed_in P (C (fst kf)) \<lparr>p_header = h', p_body = c', p_ad = ad, p_plain = p\<rparr>"
    "h' = \<lparr>h_ratchet_public_key = fst kf, h_previous_chain_length = previous_chain_length F, h_message_number = ?n\<rparr>"
    "st' = F\<lparr>sending_chain_key := Some (chain_key_at P (C (fst kf)) (Suc (unat ?n))), send_message_number := ?n + 1\<rparr>"
    by (rule encrypt_sending [OF P _ room nonce])
  have F': "F' = F\<lparr>sending_chain_key := Some (chain_key_at P (C (fst kf)) (Suc (unat ?n))),
      send_message_number := ?n + 1\<rparr>" and h: "h = h'" "c = c'"
    using st'(1,5) enc by simp_all
  note suc = succ_not_max [OF room]
  have grow: "recv_message_number L \<le> ?n" "receiving_chain_key L \<noteq> None"
    using lk some by (auto simp: linked_def)
  have more: "readable P used C (?n + 1) L q" if "readable P used C ?n L q" for q
    using that suc by (auto simp: readable_def word_less_nat_alt)
  have "length (fst kf) = 32"
    using lk keypair_lengths(1) [OF ratchet_prims(2) [OF P]] by (auto simp: linked_def)
  then have rd: "readable P used C (?n + 1) L ?pkt"
    using lk grow suc st'(3,4) h by (simp add: readable_def linked_def word_less_nat_alt)
  have "recv_message_number L \<le> ?n + 1"
    using grow suc by (simp add: word_le_nat_alt)
  then have lk': "linked P used C kl kf L F'"
    using lk suc some by (simp add: linked_def F')
  have new: "p_id q \<noteq> p_id ?pkt" if q: "q \<in> to_L" for q
  proof
    assume eq: "p_id q = p_id ?pkt"
    then have k: "p_key q = fst kf" "p_num q = ?n"
      using st'(4) h by simp_all
    have "readable P used C ?n L q" "party_ok P used C L" "remote_ratchet_key L = Some (fst kf)"
      using s q lk by (auto simp: in_sync_def linked_def)
    then show False
      using k grow(1) by (auto simp: readable_def party_ok_def not_less [symmetric])
  qed
  have inj: "inj_on p_id (insert ?pkt to_L)"
    by (rule inj_on_new) (use s new in \<open>simp_all add: in_sync_def\<close>)
  have ok: "party_ok P used C F'"
    using s by (simp add: in_sync_def party_ok_def F')
  have "readable P used C v F' q = readable P used C v F q" for v q
    by (simp add: readable_def F')
  then show "in_sync P used C kl kf L F' (insert ?pkt to_L) to_F"
    using s lk' ok inj rd more by (simp add: in_sync_def F')
  show "?pkt \<notin> to_L"
    using new by blast
qed

text \<open>A party without a sending chain refuses to encrypt, and nothing changes.\<close>

lemma refused_send:
  assumes P: "ratchet_prims_ok P" and "sending_keypair st \<noteq> None"
    and "encrypt P nonce p ad st = (st', Err e)"
  shows "st' = st" "sending_chain_key st = None"
  using assms(2,3) encrypt_eq [OF P, of st] by (cases "sending_chain_key st"; auto simp: encrypt_def)+

subsection \<open>Every reachable session is in step\<close>

definition session_inv :: "prims \<Rightarrow> session \<Rightarrow> bool" where
  "session_inv P s \<longleftrightarrow> (\<exists>X C kl kf.
     in_sync P (drawn_keys s) C kl kf (ends s X) (ends s (peer X)) (net s X) (net s (peer X)))"

lemma session_invI:
  "in_sync P (drawn_keys s) C kl kf (ends s X) (ends s (peer X)) (net s X) (net s (peer X)) \<Longrightarrow> session_inv P s"
  unfolding session_inv_def by blast

lemma peer_simps [simp]: "peer (peer X) = X" "peer X \<noteq> X" "X \<noteq> peer X" "Y \<noteq> X \<longleftrightarrow> Y = peer X"
  by (cases X; cases Y; simp)+

lemma init_sender_eq:
  assumes "sodium_init P" "kdf_ok P" "dh_exchange P sk remote = Ok x"
  shows "init_sender P (pk, sk) ss remote = Ok
    \<lparr>root_key = root_next P ss x, sending_chain_key = Some (root_chain P ss x),
     receiving_chain_key = None, sending_keypair = Some (pk, sk), remote_ratchet_key = Some remote,
     send_message_number = 0, recv_message_number = 0, previous_chain_length = 0,
     skipped_keys = Map.empty\<rparr>"
  using assms by (simp add: init_sender_def kdf_rk_eq(1) [OF assms(2)])

lemma session_start_inv:
  assumes P: "ratchet_prims_ok P" and s: "session_start P ss ka kb s"
  shows "session_inv P s"
proof -
  obtain pa sa pb sb where k: "ka = (pa, sa)" "kb = (pb, sb)"
    by (cases ka; cases kb)
  note prims = ratchet_prims [OF P]
  have kp: "box_keypair P pa sa" "box_keypair P pb sb" "pa \<noteq> pb"
    and init: "init_sender P (pa, sa) ss pb = Ok (ends s Alice)" "ends s Bob = init_receiver ss (pb, sb)"
    and net: "net s = (\<lambda>_. {})" "drawn_keys s = {pa, pb}"
    using s by (simp_all add: session_start_def k)
  obtain x where x: "dh_exchange P sa pb = Ok x" "dh_exchange P sb pa = Ok x"
    by (rule dh_exchange_agree [OF prims(1,2) kp(1,2)]) blast
  from init(1) init_sender_eq [OF prims(5,3) x(1)] have "ends s Alice =
     \<lparr>root_key = root_next P ss x, sending_chain_key = Some (root_chain P ss x),
      receiving_chain_key = None, sending_keypair = Some (pa, sa), remote_ratchet_key = Some pb,
      send_message_number = 0, recv_message_number = 0, previous_chain_length = 0,
      skipped_keys = Map.empty\<rparr>"
    by simp
  then have "in_sync P {pa, pb} (\<lambda>_. root_chain P ss x) (pa, sa) (pb, sb) (ends s Alice) (ends s Bob) {} {}"
    using kp x(2) by (simp add: in_sync_def linked_def party_ok_def init(2) init_receiver_def)
  with net show ?thesis
    by (intro session_invI [where X = Alice]) simp
qed

lemma deliver_outcome:
  assumes P: "ratchet_prims_ok P" and inv: "session_inv P s" and p: "p \<in> net s X"
    and fresh: "box_keypair P pd sd" "pd \<notin> drawn_keys s"
  obtains st' where "decrypt P (pd, sd) (p_header p) (p_body p) (p_ad p) (ends s X) = (st', receipt (ends s X) p)"
    "session_inv P (s\<lparr>ends := (ends s)(X := st'), net := (net s)(X := net s X - {p}),
       drawn_keys := insert pd (drawn_keys s)\<rparr>)"
    "remote_ratchet_key st' = remote_ratchet_key (ends s X) \<or>
     (\<forall>q \<in> net s X - {p}. skipped_keys st' (p_id q) \<noteq> None \<or> remote_ratchet_key st' = Some (p_key q))"
proof -
  let ?U = "insert pd (drawn_keys s)"
  have grow: "\<exists>C'. in_sync P ?U C' kl kf L F to_L to_F"
    if "in_sync P (drawn_keys s) C kl kf L F to_L to_F" for C kl kf L F to_L to_F
  proof
    have "p_key q \<noteq> pd" if "readable P (drawn_keys s) C v st q" for v st q
      using that fresh(2) by (auto simp: readable_def)
    then show "in_sync P ?U (C(pd := [])) kl kf L F to_L to_F"
      using that party_ok_extend(1) [OF _ fresh(2)] readable_extend [OF _ fresh(2)] fresh(2)
      by (auto simp: in_sync_def linked_def announced_def)
  qed
  obtain Y C kl kf where i: "in_sync P (drawn_keys s) C kl kf (ends s Y) (ends s (peer Y)) (net s Y) (net s (peer Y))"
    using inv by (auto simp: session_inv_def)
  show ?thesis
  proof (cases "X = Y")
    case True
    then have pY: "p \<in> net s Y"
      using p by simp
    obtain L' where "decrypt P (pd, sd) (p_header p) (p_body p) (p_ad p) (ends s Y) = (L', receipt (ends s Y) p)"
      "in_sync P (drawn_keys s) C kl kf L' (ends s (peer Y)) (net s Y - {p}) (net s (peer Y))"
      "remote_ratchet_key L' = remote_ratchet_key (ends s Y)"
      by (rule leader_receives [OF P i pY])
    moreover from grow [OF this(2)] obtain C' where
      "in_sync P ?U C' kl kf L' (ends s (peer Y)) (net s Y - {p}) (net s (peer Y))" ..
    ultimately show ?thesis
      using True by (intro that [of L']) (auto intro!: session_invI [where X = Y])
  next
    case False
    then have X: "X = peer Y" "p \<in> net s (peer Y)"
      using p by simp_all
    obtain F' where F': "decrypt P (pd, sd) (p_header p) (p_body p) (p_ad p) (ends s (peer Y)) =
        (F', receipt (ends s (peer Y)) p)"
      "(\<exists>C. in_sync P (drawn_keys s) C kl kf (ends s Y) F' (net s Y) (net s (peer Y) - {p})) \<and>
         remote_ratchet_key F' = remote_ratchet_key (ends s (peer Y)) \<or>
       (\<exists>C kl kf. in_sync P ?U C kl kf F' (ends s Y) (net s (peer Y) - {p}) (net s Y))"
      by (rule follower_receives [OF P i X(2) fresh])
    show ?thesis
    proof (rule that)
      show "session_inv P (s\<lparr>ends := (ends s)(X := F'), net := (net s)(X := net s X - {p}), drawn_keys := ?U\<rparr>)"
        using F'(2)
      proof
        assume "(\<exists>C. in_sync P (drawn_keys s) C kl kf (ends s Y) F' (net s Y) (net s (peer Y) - {p})) \<and>
          remote_ratchet_key F' = remote_ratchet_key (ends s (peer Y))"
        then obtain C' where "in_sync P ?U C' kl kf (ends s Y) F' (net s Y) (net s (peer Y) - {p})"
          using grow by blast
        with X show ?thesis
          by (intro session_invI [where X = Y]) simp
      next
        assume "\<exists>C kl kf. in_sync P ?U C kl kf F' (ends s Y) (net s (peer Y) - {p}) (net s Y)"
        then obtain C' kl' kf' where "in_sync P ?U C' kl' kf' F' (ends s Y) (net s (peer Y) - {p}) (net s Y)"
          by blast
        with X show ?thesis
          by (intro session_invI [where X = X]) simp
      qed
      show "remote_ratchet_key F' = remote_ratchet_key (ends s X) \<or>
          (\<forall>q \<in> net s X - {p}. skipped_keys F' (p_id q) \<noteq> None \<or> remote_ratchet_key F' = Some (p_key q))"
        using F'(2) X by (auto simp: in_sync_def readable_def)
    qed (use F'(1) X in simp)
  qed
qed

lemma session_keypair:
  "session_inv P s \<Longrightarrow> sending_keypair (ends s X) \<noteq> None"
  unfolding session_inv_def in_sync_def linked_def by (metis option.distinct(1) peer_simps(4))

lemma send_inv:
  assumes P: "ratchet_prims_ok P" and inv: "session_inv P s"
    and send: "length nonce = 24" "send_message_number (ends s X) \<noteq> -1"
      "encrypt P nonce p ad (ends s X) = (st', Ok (h, c))"
  shows "session_inv P (s\<lparr>ends := (ends s)(X := st'),
      net := (net s)(peer X := insert \<lparr>p_header = h, p_body = c, p_ad = ad, p_plain = p\<rparr> (net s (peer X)))\<rparr>)"
    "\<lparr>p_header = h, p_body = c, p_ad = ad, p_plain = p\<rparr> \<notin> net s (peer X)"
proof -
  let ?s = "s\<lparr>ends := (ends s)(X := st'),
      net := (net s)(peer X := insert \<lparr>p_header = h, p_body = c, p_ad = ad, p_plain = p\<rparr> (net s (peer X)))\<rparr>"
  obtain Y C kl kf where i: "in_sync P (drawn_keys s) C kl kf (ends s Y) (ends s (peer Y)) (net s Y) (net s (peer Y))"
    using inv by (auto simp: session_inv_def)
  have "session_inv P ?s \<and> \<lparr>p_header = h, p_body = c, p_ad = ad, p_plain = p\<rparr> \<notin> net s (peer X)"
  proof (cases "X = Y")
    case True
    with leader_sends [OF P i send(1), of p ad st' h c] send(2,3) show ?thesis
      by (intro conjI session_invI [where X = Y]) simp_all
  next
    case False
    then have "X = peer Y"
      by simp
    with follower_sends [OF P i send(1), of p ad st' h c] send(2,3) show ?thesis
      by (intro conjI session_invI [where X = Y]) simp_all
  qed
  then show "session_inv P ?s" "\<lparr>p_header = h, p_body = c, p_ad = ad, p_plain = p\<rparr> \<notin> net s (peer X)"
    by simp_all
qed

lemma lose_inv: "session_inv P s \<Longrightarrow> session_inv P (s\<lparr>net := (net s)(X := net s X - {p})\<rparr>)"
proof -
  assume "session_inv P s"
  then obtain Y C kl kf where
    i: "in_sync P (drawn_keys s) C kl kf (ends s Y) (ends s (peer Y)) (net s Y) (net s (peer Y))"
    by (auto simp: session_inv_def)
  then show ?thesis
    using in_sync_lose [OF i, of p] by (cases "X = Y") (auto intro!: session_invI [where X = Y])
qed

lemma session_event_inv:
  assumes P: "ratchet_prims_ok P" and "session_event P s e s'" and inv: "session_inv P s"
  shows "session_inv P s'"
  using assms(2)
proof cases
  case (send nonce X p ad st' h c)
  then show ?thesis
    using send_inv [OF P inv] by simp
next
  case (send_refused nonce p ad X st' err)
  then have "st' = ends s X"
    using refused_send(1) [OF P session_keypair [OF inv]] by simp
  with send_refused(2) inv show ?thesis
    by simp
next
  case (deliver pkt X pk sk st' r)
  then show ?thesis
    using deliver_outcome [OF P inv deliver(3-5)] by (metis prod.inject)
next
  case (lose X pkt)
  with lose_inv [OF inv] show ?thesis
    by simp
qed

lemma session_reachable_inv:
  assumes P: "ratchet_prims_ok P" and start: "session_start P ss ka kb s0"
  shows "session_reachable P s0 s \<Longrightarrow> session_inv P s"
  by (induction rule: session_reachable.induct)
    (use session_start_inv [OF P start] session_event_inv [OF P] in blast)+

subsection \<open>The sending side of a receiver\<close>

text \<open>
  What a delivery does to the sending side: nothing, or a ratchet step, which starts a chain for
  a new key pair and announces the length of the one it closes.
\<close>

definition sending_side :: "RatchetState \<Rightarrow> bytes option \<times> (bytes \<times> bytes) option \<times> u32 \<times> u32" where
  "sending_side st = (sending_chain_key st, sending_keypair st, send_message_number st, previous_chain_length st)"

lemma skipping_side:
  "skip_message_keys_for_current_chain P n st = (st', r) \<Longrightarrow> sending_side st' = sending_side st"
  "skip_message_keys P n st = (st', r') \<Longrightarrow> sending_side st' = sending_side st"
  by (auto simp: skip_message_keys_for_current_chain_def skip_message_keys_def sending_side_def and_then_st_def
      split: prod.splits sum.splits if_splits option.splits)

lemma receive_at_side: "receive_at P n c ad st = (st', r) \<Longrightarrow> sending_side st' = sending_side st"
  unfolding receive_at_def
  by (cases "skip_message_keys P n st")
    (auto simp: and_then_st_def sending_side_def dest!: skipping_side(2) split: prod.splits sum.splits)

lemma step_side:
  assumes "dh_ratchet_step P drawn pk st = (st', r)"
  shows "send_message_number st' = 0" "previous_chain_length st' = send_message_number st"
    "r = Ok u \<Longrightarrow> sending_chain_key st' \<noteq> None \<and> sending_keypair st' = Some drawn"
    "r \<noteq> Err (RatchetError ''too many skipped messages'')"
proof -
  have "dh_exchange P a b \<noteq> Err (RatchetError ''too many skipped messages'')"
    "kdf_rk P a b \<noteq> Err (RatchetError ''too many skipped messages'')" for a b
    by (simp_all add: dh_exchange_def kdf_rk_def ok_or_def and_then_def split: option.split sum.split)
  then show "r \<noteq> Err (RatchetError ''too many skipped messages'')"
    using assms by (auto simp: dh_ratchet_step_def and_then_st_def ok_or_def Let_def split: prod.splits sum.splits option.splits)
  show "send_message_number st' = 0" "previous_chain_length st' = send_message_number st"
    "r = Ok u \<Longrightarrow> sending_chain_key st' \<noteq> None \<and> sending_keypair st' = Some drawn"
    using assms by (auto simp: dh_ratchet_step_def and_then_st_def Let_def split: prod.splits sum.splits)
qed

lemma decrypt_side:
  assumes P: "ratchet_prims_ok P" and len: "length (h_ratchet_public_key h) = 32"
    and d: "decrypt P drawn h c ad st = (st', r)"
  shows "sending_side st' = sending_side st \<and> (remote_ratchet_key st = None \<and> skipped_keys st = Map.empty \<longrightarrow> r \<noteq> Ok m) \<or>
    send_message_number st' = 0 \<and> previous_chain_length st' = send_message_number st \<and>
      (r \<in> {Ok m, Err (RatchetError ''too many skipped messages'')} \<longrightarrow>
        sending_chain_key st' \<noteq> None \<and> sending_keypair st' = Some drawn)"
proof (cases "skipped_keys st (h_ratchet_public_key h, h_message_number h)")
  case (Some mk)
  then show ?thesis
    using d decrypt_cached [OF Some] by (auto simp: sending_side_def)
next
  case None
  note slices = ratchet_prims(1) [OF P]
  show ?thesis
  proof (cases "remote_ratchet_key st = Some (h_ratchet_public_key h)")
    case True
    with d decrypt_current [OF slices True len None] receive_at_side show ?thesis
      by fastforce
  next
    case False
    obtain st1 r1 where 1: "skip_message_keys_for_current_chain P (h_previous_chain_length h) st = (st1, r1)"
      by fastforce
    obtain st2 r2 where 2: "dh_ratchet_step P drawn (h_ratchet_public_key h) st1 = (st2, r2)"
      by fastforce
    have side: "sending_side st1 = sending_side st"
      by (rule skipping_side(1) [OF 1])
    show ?thesis
    proof (cases r1)
      case (Inl e)
      with d decrypt_new_key [OF slices False len None] 1 side show ?thesis
        by auto
    next
      case r1: (Inr u)
      show ?thesis
      proof (cases r2)
        case (Inl e)
        with d decrypt_new_key [OF slices False len None] 1 2 side r1 step_side(1,2,4) [OF 2] show ?thesis
          by (auto simp: sending_side_def)
      next
        case (Inr u')
        with d decrypt_new_key [OF slices False len None] 1 2 r1
        have "receive_at P (h_message_number h) c ad st2 = (st', r)"
          by simp
        then have "sending_side st' = sending_side st2"
          by (rule receive_at_side)
        with side step_side [OF 2] Inr show ?thesis
          by (auto simp: sending_side_def)
      qed
    qed
  qed
qed

subsection \<open>Properties\<close>

text \<open>
  C2: end-to-end delivery.  In every state that the two parties can reach from one shared
  secret, whatever was sent, delivered, reordered or lost so far, any message in flight that is
  delivered now decrypts to the plaintext it was encrypted from, across any number of ratchet
  steps.  The only refusal is that of the skipping limit, exactly when the message is more than
  1000 numbers ahead of the receiver.
\<close>

theorem ratchet_session_delivers:
  assumes "ratchet_prims_ok P" "session_start P ss ka kb s0" "session_reachable P s0 s"
    and "p \<in> net s X" "box_keypair P pk sk" "pk \<notin> drawn_keys s"
  shows "snd (decrypt P (pk, sk) (p_header p) (p_body p) (p_ad p) (ends s X)) =
    (if gap_ok (ends s X) (p_header p) then Ok (p_plain p)
     else Err (RatchetError ''too many skipped messages''))"
  by (rule deliver_outcome [OF assms(1) session_reachable_inv [OF assms(1-3)] assms(4-6)])
    (simp add: receipt_def)

definition demo_pair :: "u8 \<Rightarrow> bytes \<times> bytes" where
  "demo_pair b = (replicate 32 b, replicate 32 b)"

lemma demo_pair_ok: "box_keypair demo_prims (fst (demo_pair b)) (snd (demo_pair b))"
  by (simp add: demo_pair_def demo_prims_def)

lemma demo_first_message:
  obtains s0 s p where "session_start demo_prims (replicate 32 7) (demo_pair 1) (demo_pair 2) s0"
    "session_event demo_prims s0 (Sent Alice [1, 2, 3]) s" "p \<in> net s Bob" "p_plain p = [1, 2, 3]"
    "drawn_keys s = {replicate 32 1, replicate 32 2}" "gap_ok (ends s Bob) (p_header p)"
proof -
  let ?P = demo_prims and ?ss = "replicate 32 7 :: bytes"
  note P = ratchet_prims [OF demo_ratchet_prims]
  obtain x where x: "dh_exchange ?P (replicate 32 1) (replicate 32 2) = Ok x"
    using dh_exchange_agree [OF P(1,2) demo_pair_ok [of 1] demo_pair_ok [of 2]]
    by (auto simp: demo_pair_def)
  note init = init_sender_eq [OF P(5,3) x, of "replicate 32 1" ?ss]
  obtain a where a: "init_sender ?P (demo_pair 1) ?ss (replicate 32 2) = Ok a"
    "sending_chain_key a \<noteq> None" "sending_keypair a = Some (demo_pair 1)" "send_message_number a = 0"
    using init by (simp add: demo_pair_def)
  define s0 where "s0 = \<lparr>ends = case_party a (init_receiver ?ss (demo_pair 2)), net = \<lambda>_. {},
    drawn_keys = {replicate 32 1, replicate 32 2}\<rparr>"
  have start: "session_start ?P ?ss (demo_pair 1) (demo_pair 2) s0"
    using a(1) demo_pair_ok by (simp add: session_start_def s0_def) (simp add: demo_pair_def)
  obtain st' h c where enc: "encrypt ?P (replicate 24 0) [1, 2, 3] [9] a = (st', Ok (h, c))"
      "h_message_number h = 0"
    using a encrypt_eq [OF demo_ratchet_prims] by (auto simp: demo_pair_def)
  let ?p = "\<lparr>p_header = h, p_body = c, p_ad = [9], p_plain = [1, 2, 3]\<rparr>"
  define s where "s = s0\<lparr>ends := (ends s0)(Alice := st'), net := (net s0)(peer Alice := insert ?p (net s0 (peer Alice)))\<rparr>"
  have "session_event ?P s0 (Sent Alice [1, 2, 3]) s"
    unfolding s_def by (rule session_event.send) (use a enc in \<open>simp_all add: s0_def\<close>)
  then show ?thesis
    by (rule that [OF start, of _ ?p]) (simp_all add: s_def s0_def gap_ok_def enc init_receiver_def)
qed

lemma demo_session:
  obtains s0 s p where "session_start demo_prims (replicate 32 7) (demo_pair 1) (demo_pair 2) s0"
    "session_reachable demo_prims s0 s" "p \<in> net s Bob" "p_plain p = [1, 2, 3]"
    "drawn_keys s = {replicate 32 1, replicate 32 2}" "gap_ok (ends s Bob) (p_header p)"
proof -
  obtain s0 s p where s: "session_start demo_prims (replicate 32 7) (demo_pair 1) (demo_pair 2) s0"
    "session_event demo_prims s0 (Sent Alice [1, 2, 3]) s" "p \<in> net s Bob" "p_plain p = [1, 2, 3]"
    "drawn_keys s = {replicate 32 1, replicate 32 2}" "gap_ok (ends s Bob) (p_header p)"
    by (rule demo_first_message)
  show ?thesis
    by (rule that [OF s(1) session_reachable.step [OF session_reachable.start s(2)] s(3-6)])
qed

theorem ratchet_session_delivers_witness:
  "\<exists>s0 s p. session_start demo_prims (replicate 32 7) (demo_pair 1) (demo_pair 2) s0 \<and>
     session_reachable demo_prims s0 s \<and> p \<in> net s Bob \<and>
     snd (decrypt demo_prims (demo_pair 3) (p_header p) (p_body p) (p_ad p) (ends s Bob)) = Ok [1, 2, 3]"
proof -
  obtain s0 s p where s: "session_start demo_prims (replicate 32 7) (demo_pair 1) (demo_pair 2) s0"
    "session_reachable demo_prims s0 s" "p \<in> net s Bob" "p_plain p = [1, 2, 3]"
    "drawn_keys s = {replicate 32 1, replicate 32 2}" "gap_ok (ends s Bob) (p_header p)"
    by (rule demo_session)
  have "replicate 32 3 \<notin> drawn_keys s"
    by (simp add: s(5))
  then have "snd (decrypt demo_prims (replicate 32 3, replicate 32 3) (p_header p) (p_body p) (p_ad p) (ends s Bob)) =
      Ok (p_plain p)"
    using ratchet_session_delivers [OF demo_ratchet_prims s(1-3), of "replicate 32 3" "replicate 32 3"] s(6)
      demo_pair_ok [of 3] by (simp add: demo_pair_def)
  with s show ?thesis
    by (auto simp: demo_pair_def)
qed

end
