(* ===== verification/Ratchet_Safety.thy ===== *)
theory Ratchet_Safety
  imports Ratchet_Session
begin

section \<open>The ratchet under arbitrary input\<close>

text \<open>
  What holds of a ratchet state whatever headers, bodies and associated data arrive: the type
  invariant \<open>ratchet_wf\<close> is kept by every operation on every outcome, the errors of
  \<open>decrypt\<close> are those listed, the cache grows by at most two limits per call and loses
  only the key that is used.  The last part shows what the limit does not bound, and what a
  forged header changes before authentication fails.
\<close>

definition ratchet_wf :: "prims \<Rightarrow> RatchetState \<Rightarrow> bool" where
  "ratchet_wf P st \<longleftrightarrow> length (root_key st) = 32 \<and>
     (\<forall>ck. sending_chain_key st = Some ck \<longrightarrow> length ck = 32) \<and>
     (\<forall>ck. receiving_chain_key st = Some ck \<longrightarrow> length ck = 32 \<and> remote_ratchet_key st \<noteq> None) \<and>
     (\<exists>pk sk. sending_keypair st = Some (pk, sk) \<and> box_keypair P pk sk) \<and>
     (\<forall>k. remote_ratchet_key st = Some k \<longrightarrow> length k = 32) \<and>
     finite (dom (skipped_keys st)) \<and>
     (\<forall>k n mk. skipped_keys st (k, n) = Some mk \<longrightarrow> length k = 32 \<and> length mk = 32)"

lemma ratchet_wf_dests:
  assumes "ratchet_wf P st"
  shows "finite (dom (skipped_keys st))" "receiving_chain_key st \<noteq> None \<Longrightarrow> remote_ratchet_key st \<noteq> None"
    "skipped_keys st (k, n) = Some mk \<Longrightarrow> length mk = 32"
  using assms by (auto simp: ratchet_wf_def)

text \<open>
  One call on a device: encrypting, or decrypting a header whose key is an array of 32 bytes,
  as its type says.
\<close>

inductive device_step :: "prims \<Rightarrow> RatchetState \<Rightarrow> RatchetState \<Rightarrow> bool" for P where
  encrypts: "encrypt P nonce p ad st = (st', r) \<Longrightarrow> device_step P st st'"
| decrypts: "length (h_ratchet_public_key h) = 32 \<Longrightarrow> box_keypair P pk sk \<Longrightarrow>
    decrypt P (pk, sk) h c ad st = (st', r) \<Longrightarrow> device_step P st st'"

inductive device_reachable :: "prims \<Rightarrow> RatchetState \<Rightarrow> RatchetState \<Rightarrow> bool" for P st0 where
  init: "device_reachable P st0 st0"
| call: "device_reachable P st0 st \<Longrightarrow> device_step P st st' \<Longrightarrow> device_reachable P st0 st'"

inductive_cases device_stepE: "device_step P st st'"

subsection \<open>Every operation keeps the type invariant\<close>

lemma init_wf:
  assumes P: "ratchet_prims_ok P" and "length ss = 32" "box_keypair P pk sk"
  shows "ratchet_wf P (init_receiver ss (pk, sk))"
    and "length remote = 32 \<Longrightarrow> init_sender P (pk, sk) ss remote = Ok st \<Longrightarrow> ratchet_wf P st"
proof -
  note prims = ratchet_prims [OF P]
  show "ratchet_wf P (init_receiver ss (pk, sk))"
    using assms(2,3) by (simp add: ratchet_wf_def init_receiver_def)
  assume "length remote = 32" "init_sender P (pk, sk) ss remote = Ok st"
  then show "ratchet_wf P st"
    using assms(3) prims(5) kdf_rk_eq [OF prims(3)]
    by (auto simp: init_sender_def and_then_eq_Inr ratchet_wf_def)
qed

lemma encrypt_wf:
  assumes P: "ratchet_prims_ok P" and wf: "ratchet_wf P st" and "encrypt P nonce p ad st = (st', r)"
  shows "ratchet_wf P st'"
proof -
  obtain pk sk where k: "sending_keypair st = Some (pk, sk)"
    using wf by (auto simp: ratchet_wf_def)
  show ?thesis
  proof (cases "sending_chain_key st")
    case None
    with assms(2,3) show ?thesis
      by (auto simp: encrypt_def)
  next
    case (Some ck)
    with encrypt_eq [OF P Some k] wf assms(3) kdf_ck_eq(2) [OF ratchet_prims(3) [OF P]] show ?thesis
      by (auto simp: ratchet_wf_def)
  qed
qed

lemma skip_store_wf:
  assumes "kdf_ok P" "length pk = 32"
    and "\<forall>k n mk. m (k, n) = Some mk \<longrightarrow> length k = 32 \<and> length mk = 32"
  shows "\<forall>k n mk. skip_store P pk ck a b m (k, n) = Some mk \<longrightarrow> length k = 32 \<and> length mk = 32"
  using assms by (auto simp: skip_store_def length_msg_key_at)

lemma skip_store_small:
  assumes "finite (dom m)" "\<not> n < a" "\<not> MAX_SKIP < n - a"
  shows "card (dom (skip_store P pk ck a n m)) \<le> card (dom m) + 1000"
proof -
  have "unat n - unat a \<le> 1000"
    using assms(2,3) by (simp add: MAX_SKIP_def word_less_nat_alt unat_sub word_le_nat_alt not_less)
  with card_skip_store [OF assms(1), of P pk ck a n] show ?thesis
    by simp
qed

lemma skip_for_current_chain_wf:
  assumes K: "kdf_ok P" and wf: "ratchet_wf P st"
    and s: "skip_message_keys_for_current_chain P n st = (st', r)"
  shows "ratchet_wf P st'" "r = Ok () \<or> r = Err (RatchetError ''too many skipped messages'')"
    "card (dom (skipped_keys st')) \<le> card (dom (skipped_keys st)) + 1000"
    "dom (skipped_keys st) \<subseteq> dom (skipped_keys st')"
proof -
  have "ratchet_wf P st' \<and> (r = Ok () \<or> r = Err (RatchetError ''too many skipped messages'')) \<and>
      card (dom (skipped_keys st')) \<le> card (dom (skipped_keys st)) + 1000 \<and>
      dom (skipped_keys st) \<subseteq> dom (skipped_keys st')"
  proof (cases "receiving_chain_key st")
    case None
    with s wf show ?thesis
      by (auto simp: skip_message_keys_for_current_chain_def)
  next
    case (Some ck)
    with wf obtain pk where pk: "remote_ratchet_key st = Some pk"
      by (auto simp: ratchet_wf_def)
    with Some wf have *: "\<forall>k m mk. skip_store P pk ck (recv_message_number st) n (skipped_keys st) (k, m) = Some mk \<longrightarrow>
        length k = 32 \<and> length mk = 32"
      by (intro skip_store_wf [OF K]) (auto simp: ratchet_wf_def)
    let ?m = "skip_store P pk ck (recv_message_number st) n (skipped_keys st)"
    have "ratchet_wf P (st\<lparr>skipped_keys := ?m, receiving_chain_key :=
        Some (chain_key_at P ck (unat n - unat (recv_message_number st))), recv_message_number := n\<rparr>)"
      using wf Some pk * by (auto simp: ratchet_wf_def finite_skip_store length_chain_key_at [OF K])
    moreover have "dom (skipped_keys st) \<subseteq> dom ?m"
      by (simp add: dom_skip_store)
    moreover note skip_store_small [OF ratchet_wf_dests(1) [OF wf], of n "recv_message_number st" P pk ck]
    ultimately show ?thesis
      using s wf by (auto simp: skip_for_current_chain_eq [OF K pk Some] simp del: domIff split: if_splits)
  qed
  then show "ratchet_wf P st'" "r = Ok () \<or> r = Err (RatchetError ''too many skipped messages'')"
    "card (dom (skipped_keys st')) \<le> card (dom (skipped_keys st)) + 1000"
    "dom (skipped_keys st) \<subseteq> dom (skipped_keys st')"
    by blast+
qed

lemma dh_exchange_result:
  assumes "slices_ok P" "length sk = 32" "length pk = 32"
  obtains x where "dh_exchange P sk pk = Ok x" | "dh_exchange P sk pk = Err (RatchetError ''DH failed'')"
  using assms by (cases "scalarmult P sk pk") (simp_all add: dh_exchange_eq)

lemma dh_ratchet_step_wf:
  assumes P: "ratchet_prims_ok P" and wf: "ratchet_wf P st" and drawn: "box_keypair P pd sd"
    and pl: "length pl = 32" and s: "dh_ratchet_step P (pd, sd) pl st = (st', r)"
  shows "ratchet_wf P st'" "r = Ok () \<and> receiving_chain_key st' \<noteq> None \<or> r = Err (RatchetError ''DH failed'')"
    "skipped_keys st' = skipped_keys st"
proof -
  note prims = ratchet_prims [OF P]
  obtain pk sk where k: "sending_keypair st = Some (pk, sk)" "box_keypair P pk sk"
    using wf by (auto simp: ratchet_wf_def)
  note len = keypair_lengths [OF prims(2) drawn] keypair_lengths [OF prims(2) k(2)]
  note kdf = kdf_rk_eq [OF prims(3)]
  have "ratchet_wf P st' \<and> (r = Ok () \<and> receiving_chain_key st' \<noteq> None \<or> r = Err (RatchetError ''DH failed'')) \<and>
      skipped_keys st' = skipped_keys st"
  proof (cases rule: dh_exchange_result [OF prims(1) len(4) pl])
    case (1 x)
    note x = 1
    show ?thesis
    proof (cases rule: dh_exchange_result [OF prims(1) len(2) pl])
      case (1 y)
      with x s k wf pl drawn kdf show ?thesis
        by (auto simp: dh_ratchet_step_def ratchet_wf_def)
    next
      case 2
      with x s k wf pl kdf show ?thesis
        by (auto simp: dh_ratchet_step_def ratchet_wf_def)
    qed
  next
    case 2
    with s k wf pl show ?thesis
      by (auto simp: dh_ratchet_step_def ratchet_wf_def)
  qed
  then show "ratchet_wf P st'" "r = Ok () \<and> receiving_chain_key st' \<noteq> None \<or> r = Err (RatchetError ''DH failed'')"
    "skipped_keys st' = skipped_keys st"
    by blast+
qed

definition decrypt_errors :: "CryptoError set" where
  "decrypt_errors = {DecryptionFailed, RatchetError ''message number already consumed'',
     RatchetError ''too many skipped messages'', RatchetError ''no receiving chain key'',
     RatchetError ''DH failed''}"

lemma in_decrypt_errors [simp]:
  "DecryptionFailed \<in> decrypt_errors"
  "RatchetError ''message number already consumed'' \<in> decrypt_errors"
  "RatchetError ''too many skipped messages'' \<in> decrypt_errors"
  "RatchetError ''no receiving chain key'' \<in> decrypt_errors"
  "RatchetError ''DH failed'' \<in> decrypt_errors"
  by (simp_all add: decrypt_errors_def)

lemma decrypt_with_key_result:
  assumes "slices_ok P" "length key = 32" "decrypt_with_key P key c ad = Err e"
  shows "e \<in> decrypt_errors"
  using assms by (auto simp: decrypt_with_key_def aes_decrypt_eq ok_or_eq_Inl Let_def split: if_splits)

lemma receive_at_wf:
  assumes P: "ratchet_prims_ok P" and wf: "ratchet_wf P st" and rem: "remote_ratchet_key st \<noteq> None"
    and s: "receive_at P n c ad st = (st', r)"
  shows "ratchet_wf P st'" "r = Err e \<Longrightarrow> e \<in> decrypt_errors"
    "card (dom (skipped_keys st')) \<le> card (dom (skipped_keys st)) + 1000"
    "dom (skipped_keys st) \<subseteq> dom (skipped_keys st')"
proof -
  note prims = ratchet_prims [OF P]
  obtain pk where pk: "remote_ratchet_key st = Some pk" "length pk = 32"
    using rem wf by (auto simp: ratchet_wf_def)
  have "ratchet_wf P st' \<and> (\<forall>e. r = Err e \<longrightarrow> e \<in> decrypt_errors) \<and>
      card (dom (skipped_keys st')) \<le> card (dom (skipped_keys st)) + 1000 \<and>
      dom (skipped_keys st) \<subseteq> dom (skipped_keys st')"
  proof (cases "receiving_chain_key st")
    case None
    with s pk wf show ?thesis
      by (auto simp: receive_at_def skip_message_keys_def split: if_splits)
  next
    case (Some ck)
    let ?r = "recv_message_number st"
    have *: "\<forall>k m mk. skip_store P pk ck ?r n (skipped_keys st) (k, m) = Some mk \<longrightarrow>
        length k = 32 \<and> length mk = 32"
      using pk wf by (intro skip_store_wf [OF prims(3)]) (auto simp: ratchet_wf_def)
    note skip_store_small [OF ratchet_wf_dests(1) [OF wf], of n ?r P pk ck]
    moreover have "dom (skipped_keys st) \<subseteq> dom (skip_store P pk ck ?r n (skipped_keys st))"
      by (simp add: dom_skip_store)
    moreover have "ratchet_wf P (st\<lparr>skipped_keys := skip_store P pk ck ?r n (skipped_keys st),
        receiving_chain_key := Some (chain_key_at P ck (Suc (unat n - unat ?r))), recv_message_number := n + 1\<rparr>)"
      using wf Some pk * by (auto simp: ratchet_wf_def finite_skip_store length_chain_key_at [OF prims(3)])
    ultimately show ?thesis
      using s wf decrypt_with_key_result [OF prims(1) length_msg_key_at [OF prims(3)]]
      by (auto simp: receive_at_eq [OF prims(3) pk(1) Some] simp del: domIff split: if_splits)
  qed
  then show "ratchet_wf P st'" "r = Err e \<Longrightarrow> e \<in> decrypt_errors"
    "card (dom (skipped_keys st')) \<le> card (dom (skipped_keys st)) + 1000"
    "dom (skipped_keys st) \<subseteq> dom (skipped_keys st')"
    by blast+
qed

lemma decrypt_safe:
  assumes P: "ratchet_prims_ok P" and wf: "ratchet_wf P st" and key: "length (h_ratchet_public_key h) = 32"
    and drawn: "box_keypair P pd sd" and d: "decrypt P (pd, sd) h c ad st = (st', r)"
  shows "ratchet_wf P st'" "r = Err e \<Longrightarrow> e \<in> decrypt_errors"
    "card (dom (skipped_keys st')) \<le> card (dom (skipped_keys st)) + 2000"
    "dom (skipped_keys st) - {(h_ratchet_public_key h, h_message_number h)} \<subseteq> dom (skipped_keys st')"
proof -
  note prims = ratchet_prims [OF P]
  let ?id = "(h_ratchet_public_key h, h_message_number h)"
  have "ratchet_wf P st' \<and> (\<forall>e. r = Err e \<longrightarrow> e \<in> decrypt_errors) \<and>
      card (dom (skipped_keys st')) \<le> card (dom (skipped_keys st)) + 2000 \<and>
      dom (skipped_keys st) - {?id} \<subseteq> dom (skipped_keys st')"
  proof (cases "skipped_keys st ?id")
    case (Some k)
    have "length k = 32"
      by (rule ratchet_wf_dests(3) [OF wf Some])
    with decrypt_with_key_result [OF prims(1), of k c ad] d wf decrypt_cached [OF Some]
    have "ratchet_wf P st'" "\<forall>e. r = Err e \<longrightarrow> e \<in> decrypt_errors"
      "skipped_keys st' = (skipped_keys st)(?id := None)"
      by (auto simp: ratchet_wf_def split: if_splits)
    moreover from this(3) have "card (dom (skipped_keys st')) \<le> card (dom (skipped_keys st))"
      by (simp add: card_Diff1_le ratchet_wf_dests(1) [OF wf])
    ultimately show ?thesis
      by auto
  next
    case None
    show ?thesis
    proof (cases "remote_ratchet_key st = Some (h_ratchet_public_key h)")
      case True
      then have "receive_at P (h_message_number h) c ad st = (st', r)" "remote_ratchet_key st \<noteq> None"
        using d decrypt_current [OF prims(1) True key None] by simp_all
      from receive_at_wf [OF P wf this(2,1)] show ?thesis
        by (auto simp del: domIff)
    next
      case False
      obtain st1 r1 where 1: "skip_message_keys_for_current_chain P (h_previous_chain_length h) st = (st1, r1)"
        by fastforce
      note s1 = skip_for_current_chain_wf [OF prims(3) wf 1]
      obtain st2 r2 where 2: "dh_ratchet_step P (pd, sd) (h_ratchet_public_key h) st1 = (st2, r2)"
        by fastforce
      note s2 = dh_ratchet_step_wf [OF P s1(1) drawn key 2]
      obtain st3 r3 where 3: "receive_at P (h_message_number h) c ad st2 = (st3, r3)"
        by fastforce
      note eq = d [unfolded decrypt_new_key [OF prims(1) False key None] 1]
      consider (a) e where "r1 = Err e" "e \<in> decrypt_errors" "(st', r) = (st1, Err e)"
        | (b) "r1 = Ok ()" "(st', r) = (st2, Err (RatchetError ''DH failed''))"
        | (c) "r1 = Ok ()" "receiving_chain_key st2 \<noteq> None" "(st', r) = (st3, r3)"
        using s1(2) s2(2) eq 2 3 by auto
      then show ?thesis
      proof cases
        case a
        with s1(1,3,4) show ?thesis by auto
      next
        case b
        then have "st' = st2" "r = Err (RatchetError ''DH failed'')"
          by simp_all
        moreover have "dom (skipped_keys st) - {?id} \<subseteq> dom (skipped_keys st2)"
          using s1(4) s2(3) by auto
        ultimately show ?thesis
          using s2(1) s1(3) by (simp add: s2(3) del: domIff)
      next
        case c
        note s3 = receive_at_wf [OF P s2(1) ratchet_wf_dests(2) [OF s2(1) c(2)] 3]
        have st': "st' = st3" "r = r3"
          using c(3) by simp_all
        have "dom (skipped_keys st) - {?id} \<subseteq> dom (skipped_keys st3)"
          using s1(4) s3(4) s2(3) by auto
        moreover have "card (dom (skipped_keys st3)) \<le> card (dom (skipped_keys st)) + 2000"
          using s1(3) s3(3) s2(3) by simp
        ultimately show ?thesis
          using s3(1,2) by (simp add: st')
      qed
    qed
  qed
  then show "ratchet_wf P st'" "r = Err e \<Longrightarrow> e \<in> decrypt_errors"
    "card (dom (skipped_keys st')) \<le> card (dom (skipped_keys st)) + 2000"
    "dom (skipped_keys st) - {?id} \<subseteq> dom (skipped_keys st')"
    by blast+
qed

lemma device_step_wf:
  assumes P: "ratchet_prims_ok P" and wf: "ratchet_wf P st" and s: "device_step P st st'"
  shows "ratchet_wf P st'"
  by (rule device_stepE [OF s]) (rule encrypt_wf [OF P wf], assumption, rule decrypt_safe(1) [OF P wf], assumption+)

subsection \<open>Properties\<close>

text \<open>
  C20: type safety against any sender.  Starting from a well-formed state, whatever sequence of
  encryptions and decryptions a device runs, on whatever headers and bodies, key lengths and
  the shape of the state stay right on success and on every error path.
\<close>

theorem ratchet_type_invariant:
  assumes "ratchet_prims_ok P" "ratchet_wf P st0" "device_reachable P st0 st"
  shows "ratchet_wf P st"
  using assms(3,2) by (induction rule: device_reachable.induct) (blast intro: device_step_wf [OF assms(1)])+

lemma demo_receiver_wf: "ratchet_wf demo_prims (init_receiver (replicate 32 7) (demo_pair 2))"
  using init_wf(1) [OF demo_ratchet_prims, of "replicate 32 7"] demo_pair_ok [of 2]
  by (simp add: demo_pair_def)

definition demo_forged :: MessageHeader where
  "demo_forged = \<lparr>h_ratchet_public_key = replicate 32 66, h_previous_chain_length = 5, h_message_number = 3\<rparr>"

theorem ratchet_type_invariant_witness:
  "ratchet_wf demo_prims (fst (decrypt demo_prims (demo_pair 3) demo_forged [1, 2] [9]
     (init_receiver (replicate 32 7) (demo_pair 2))))"
proof (rule ratchet_type_invariant [OF demo_ratchet_prims demo_receiver_wf])
  let ?st = "init_receiver (replicate 32 7) (demo_pair 2)"
  have "device_step demo_prims ?st (fst (decrypt demo_prims (demo_pair 3) demo_forged [1, 2] [9] ?st))"
    by (rule device_step.decrypts [of demo_forged demo_prims "replicate 32 3" "replicate 32 3" "[1, 2]" "[9]" _ _
          "snd (decrypt demo_prims (demo_pair 3) demo_forged [1, 2] [9] ?st)"])
      (use demo_pair_ok [of 3] in \<open>simp_all add: demo_forged_def demo_pair_def\<close>)
  then show "device_reachable demo_prims ?st (fst (decrypt demo_prims (demo_pair 3) demo_forged [1, 2] [9] ?st))"
    by (rule device_reachable.call [OF device_reachable.init])
qed

text \<open>
  C21: the errors of \<open>decrypt\<close> are exactly of five kinds; key derivation, key lengths and
  missing key pairs never fail on a well-formed state.
\<close>

theorem decrypt_error_kinds:
  assumes "ratchet_prims_ok P" "ratchet_wf P st" "length (h_ratchet_public_key h) = 32"
    and "box_keypair P pk sk" "snd (decrypt P (pk, sk) h c ad st) = Err e"
  shows "e \<in> {DecryptionFailed, RatchetError ''message number already consumed'',
     RatchetError ''too many skipped messages'', RatchetError ''no receiving chain key'',
     RatchetError ''DH failed''}"
proof -
  have "decrypt P (pk, sk) h c ad st = (fst (decrypt P (pk, sk) h c ad st), Err e)"
    using assms(5) by (simp add: prod_eq_iff)
  from decrypt_safe(2) [OF assms(1-4) this] show ?thesis
    unfolding decrypt_errors_def by blast
qed

theorem decrypt_error_kinds_witness:
  "\<exists>e. snd (decrypt demo_prims (demo_pair 3) demo_forged [] [9]
       (init_receiver (replicate 32 7) (demo_pair 2))) = Err e \<and>
     e \<in> {DecryptionFailed, RatchetError ''message number already consumed'',
       RatchetError ''too many skipped messages'', RatchetError ''no receiving chain key'',
       RatchetError ''DH failed''}"
proof -
  let ?st = "init_receiver (replicate 32 7) (demo_pair 2)"
  let ?r = "snd (decrypt demo_prims (demo_pair 3) demo_forged [] [9] ?st)"
  have "isl ?r"
    by code_simp
  then obtain e where e: "?r = Err e"
    by (auto simp: isl_def)
  have "e \<in> {DecryptionFailed, RatchetError ''message number already consumed'',
       RatchetError ''too many skipped messages'', RatchetError ''no receiving chain key'',
       RatchetError ''DH failed''}"
    by (rule decrypt_error_kinds [OF demo_ratchet_prims demo_receiver_wf _ _ e [unfolded demo_pair_def [of 3]]])
      (use demo_pair_ok [of 3] in \<open>simp_all add: demo_forged_def demo_pair_def\<close>)
  with e show ?thesis by blast
qed

text \<open>
  C22: one call of \<open>decrypt\<close> caches at most two limits of keys (the rest of the old chain and
  the gap in the new one), and evicts no key but the one of the message it was given.
\<close>

theorem decrypt_cache_growth:
  assumes "ratchet_prims_ok P" "ratchet_wf P st" "length (h_ratchet_public_key h) = 32" "box_keypair P pk sk"
  shows "card (dom (skipped_keys (fst (decrypt P (pk, sk) h c ad st)))) \<le>
      card (dom (skipped_keys st)) + 2 * unat MAX_SKIP \<and>
    dom (skipped_keys st) - {(h_ratchet_public_key h, h_message_number h)} \<subseteq>
      dom (skipped_keys (fst (decrypt P (pk, sk) h c ad st)))"
  using decrypt_safe(3,4) [OF assms prod.collapse [symmetric]] by (simp add: MAX_SKIP_def)

theorem decrypt_cache_growth_witness:
  "card (dom (skipped_keys (fst (decrypt demo_prims (demo_pair 3) demo_forged [] [9]
     (init_receiver (replicate 32 7) (demo_pair 2)))))) \<le> 2000"
  using decrypt_cache_growth [OF demo_ratchet_prims demo_receiver_wf _ demo_pair_ok [of 3],
      of demo_forged "[]" "[9]"]
  by (simp add: demo_forged_def MAX_SKIP_def init_receiver_def)

subsection \<open>What the limit does not bound\<close>

text \<open>
  Forged messages in the current chain, each the limit ahead of the counter the previous one
  left, with empty bodies.
\<close>

definition forged_flood :: "RatchetState \<Rightarrow> bytes \<Rightarrow> nat \<Rightarrow> MessageHeader list" where
  "forged_flood st pk n = map (\<lambda>i. \<lparr>h_ratchet_public_key = pk, h_previous_chain_length = 0,
     h_message_number = word_of_nat (unat (recv_message_number st) + 1001 * i + 1000)\<rparr>) [0 ..< n]"

lemma decrypt_with_key_short: "length c < 24 \<Longrightarrow> decrypt_with_key P k c ad = Err DecryptionFailed"
  by (simp add: decrypt_with_key_def)

lemma forged_once:
  assumes P: "ratchet_prims_ok P" and pk: "remote_ratchet_key st = Some pk" "length pk = 32"
    and ck: "receiving_chain_key st = Some ck" and fin: "finite (dom (skipped_keys st))"
    and ahead: "\<forall>n \<ge> recv_message_number st. skipped_keys st (pk, n) = None"
    and room: "unat (recv_message_number st) + 1001 < 2 ^ 32"
  obtains st' where "decrypt P drawn \<lparr>h_ratchet_public_key = pk, h_previous_chain_length = 0,
      h_message_number = word_of_nat (unat (recv_message_number st) + 1000)\<rparr> [] ad st = (st', Err DecryptionFailed)"
    "remote_ratchet_key st' = Some pk" "receiving_chain_key st' \<noteq> None" "finite (dom (skipped_keys st'))"
    "\<forall>n \<ge> recv_message_number st'. skipped_keys st' (pk, n) = None"
    "unat (recv_message_number st') = unat (recv_message_number st) + 1001"
    "card (dom (skipped_keys st')) = card (dom (skipped_keys st)) + 1000"
proof -
  let ?r = "recv_message_number st"
  define n :: u32 where "n = word_of_nat (unat ?r + 1000)"
  have n: "unat n = unat ?r + 1000"
    unfolding n_def by (rule unat_u32_of_nat) (use room in simp)
  have suc: "unat (n + 1) = unat ?r + 1001"
    using room n by (simp add: unat_word_ariths)
  have le: "?r \<le> n" "\<not> n < ?r" "\<not> MAX_SKIP < n - ?r"
    using n by (simp_all add: word_le_nat_alt word_less_nat_alt unat_sub MAX_SKIP_def)
  let ?m = "skip_store P pk ck ?r n (skipped_keys st)"
  let ?st = "st\<lparr>skipped_keys := ?m, receiving_chain_key := Some (chain_key_at P ck (Suc (unat n - unat ?r))),
      recv_message_number := n + 1\<rparr>"
  have d: "decrypt P drawn \<lparr>h_ratchet_public_key = pk, h_previous_chain_length = 0,
      h_message_number = word_of_nat (unat ?r + 1000)\<rparr> [] ad st = (?st, Err DecryptionFailed)"
    unfolding n_def [symmetric] using pk ahead le
    by (simp add: decrypt_current ratchet_prims [OF P] receive_at_eq [OF ratchet_prims(3) [OF P] pk(1) ck]
        decrypt_with_key_short)
  have "Pair pk ` {k. ?r \<le> k \<and> k < n} \<inter> dom (skipped_keys st) = {}"
    using ahead by auto
  then have "card (dom ?m) = card (dom (skipped_keys st)) + 1000"
    unfolding dom_skip_store
    by (subst card_Un_disjoint) (use fin n in \<open>auto simp: card_image inj_on_def card_range_u32 Int_commute\<close>)
  moreover have "?m (pk, k) = None" if "n + 1 \<le> k" for k
  proof -
    have "n \<le> k"
      using that suc n by (simp add: word_le_nat_alt)
    with le ahead show ?thesis
      by (simp add: order_trans)
  qed
  ultimately show ?thesis
    by (intro that [OF d]) (use pk fin suc finite_skip_store in simp_all)
qed

lemma forged_flood_grows:
  assumes P: "ratchet_prims_ok P"
  shows "remote_ratchet_key st = Some pk \<Longrightarrow> length pk = 32 \<Longrightarrow> receiving_chain_key st \<noteq> None \<Longrightarrow>
    finite (dom (skipped_keys st)) \<Longrightarrow> \<forall>m \<ge> recv_message_number st. skipped_keys st (pk, m) = None \<Longrightarrow>
    unat (recv_message_number st) + 1001 * n < 2 ^ 32 \<Longrightarrow>
    \<exists>st'. receive_all (\<lambda>h. decrypt P drawn h [] ad) (forged_flood st pk n) st =
        (st', replicate n (Err DecryptionFailed)) \<and>
      card (dom (skipped_keys st')) = card (dom (skipped_keys st)) + 1000 * n"
proof (induction n arbitrary: st)
  case 0
  then show ?case by (simp add: forged_flood_def)
next
  case (Suc n)
  obtain ck where ck: "receiving_chain_key st = Some ck"
    using Suc.prems by blast
  have room: "unat (recv_message_number st) + 1001 < 2 ^ 32"
    using Suc.prems by simp
  obtain st' where st': "decrypt P drawn \<lparr>h_ratchet_public_key = pk, h_previous_chain_length = 0,
      h_message_number = word_of_nat (unat (recv_message_number st) + 1000)\<rparr> [] ad st = (st', Err DecryptionFailed)"
    "remote_ratchet_key st' = Some pk" "receiving_chain_key st' \<noteq> None" "finite (dom (skipped_keys st'))"
    "\<forall>n \<ge> recv_message_number st'. skipped_keys st' (pk, n) = None"
    "unat (recv_message_number st') = unat (recv_message_number st) + 1001"
    "card (dom (skipped_keys st')) = card (dom (skipped_keys st)) + 1000"
    by (rule forged_once [OF P Suc.prems(1,2) ck Suc.prems(4,5) room])
  have "forged_flood st pk (Suc n) = \<lparr>h_ratchet_public_key = pk, h_previous_chain_length = 0,
      h_message_number = word_of_nat (unat (recv_message_number st) + 1000)\<rparr> # forged_flood st' pk n"
    unfolding forged_flood_def upt_conv_Cons [OF zero_less_Suc] map_Suc_upt [symmetric]
    by (simp add: st'(6) add.commute add.left_commute)
  moreover have "unat (recv_message_number st') + 1001 * n < 2 ^ 32"
    using Suc.prems(6) st'(6) by simp
  ultimately show ?case
    using Suc.IH [OF st'(2) Suc.prems(2) st'(3-5)] st'(1,7) by auto
qed

text \<open>
  C24: the cache is bounded per call but not per session.  For every \<open>n\<close> that the counter
  leaves room for, \<open>n\<close> forged messages with empty bodies, all of them rejected, leave
  \<open>1000 n\<close> more keys in the cache of a receiver in the current chain.
\<close>

theorem rejected_messages_fill_cache:
  assumes "receiving P pk D got st" "finite (dom (skipped_keys st))"
    and "unat (recv_message_number st) + 1001 * n < 2 ^ 32"
  shows "\<exists>st'. receive_all (\<lambda>h. decrypt P drawn h [] ad) (forged_flood st pk n) st =
      (st', replicate n (Err DecryptionFailed)) \<and>
    card (dom (skipped_keys st')) = card (dom (skipped_keys st)) + 1000 * n"
  by (rule forged_flood_grows) (use assms in \<open>auto simp: receiving_def not_less [symmetric]\<close>)

theorem rejected_messages_fill_cache_witness:
  "\<exists>st'. receive_all (\<lambda>h. decrypt demo_prims ([], []) h [] [])
       (forged_flood demo_chain_state (replicate 32 4) 50) demo_chain_state =
      (st', replicate 50 (Err DecryptionFailed)) \<and> card (dom (skipped_keys st')) = 50000"
  using rejected_messages_fill_cache [OF demo_chain_receiving, of 50 "([], [])" "[]"]
  by (simp add: demo_chain_state_def)

text \<open>
  C23: a header acts before anything is authenticated.  A header with a ratchet key other than the
  current one (that the exchange accepts) moves the receiver to that key whatever the body is:
  root key, sending chain and counters are replaced, so the peer's own messages no longer match.
  The body decides only the result, and one too short to be a message is rejected; a replayed
  message of an earlier chain acts in the same way.
\<close>

theorem rejected_header_moves_ratchet:
  assumes "ratchet_prims_ok P" "receiving P pk D got st" "sending_keypair st = Some (pf, sf)"
    and "h_ratchet_public_key h \<noteq> pk" "length (h_ratchet_public_key h) = 32" "h_message_number h = 0"
    and "h_previous_chain_length h < recv_message_number st"
    and "skipped_keys st (h_ratchet_public_key h, 0) = None"
    and "dh_exchange P sf (h_ratchet_public_key h) = Ok x" "dh_exchange P sd (h_ratchet_public_key h) = Ok y"
  shows "decrypt P (pd, sd) h c ad st =
    (st\<lparr>previous_chain_length := send_message_number st, send_message_number := 0,
        recv_message_number := 1, remote_ratchet_key := Some (h_ratchet_public_key h),
        root_key := root_next P (root_next P (root_key st) x) y,
        receiving_chain_key := Some (chain_key_at P (root_chain P (root_key st) x) 1),
        sending_chain_key := Some (root_chain P (root_next P (root_key st) x) y),
        sending_keypair := Some (pd, sd)\<rparr>,
     if length c < 24 then Err DecryptionFailed
     else decrypt_with_key P (msg_key_at P (root_chain P (root_key st) x) 0) c ad)"
proof -
  note prims = ratchet_prims [OF assms(1)]
  have st: "remote_ratchet_key st = Some pk" "receiving_chain_key st \<noteq> None"
    using assms(2) by (simp_all add: receiving_def)
  then obtain ck where ck: "receiving_chain_key st = Some ck"
    by blast
  have skip: "skip_message_keys_for_current_chain P (h_previous_chain_length h) st = (st, Ok ())"
    using skip_for_current_chain_eq [OF prims(3) st(1) ck] assms(7) by simp
  have store: "skip_store P k ck' 0 0 m = m" for k ck' m
    by (auto simp: skip_store_def)
  show ?thesis
    using decrypt_new_key [OF prims(1), of st h "(pd, sd)" c ad] st assms(4-6,8)
    by (simp add: skip dh_ratchet_step_eq [OF prims(3) assms(3,9,10)] receive_at_eq [OF prims(3)]
        decrypt_with_key_short store MAX_SKIP_def)
qed

definition demo_new_key :: MessageHeader where
  "demo_new_key = \<lparr>h_ratchet_public_key = replicate 32 66, h_previous_chain_length = 0, h_message_number = 0\<rparr>"

theorem rejected_header_moves_ratchet_witness:
  "\<exists>st'. decrypt demo_prims (demo_pair 3) demo_new_key [1, 2] [9]
      (demo_consumed_state\<lparr>sending_keypair := Some (demo_pair 2)\<rparr>) = (st', Err DecryptionFailed) \<and>
    remote_ratchet_key st' = Some (replicate 32 66) \<and> sending_keypair st' = Some (demo_pair 3)"
proof -
  let ?st = "demo_consumed_state\<lparr>sending_keypair := Some (demo_pair 2)\<rparr>"
  have r: "receiving demo_prims (replicate 32 4) (replicate 32 6) {0} ?st"
    using demo_consumed_receiving by (simp add: receiving_def)
  have dh: "dh_exchange demo_prims (replicate 32 b) (h_ratchet_public_key demo_new_key) =
      Ok (fit 32 (map2 (+) (replicate 32 b) (replicate 32 66)))" for b
    by (simp add: dh_exchange_eq demo_laws demo_new_key_def) (simp add: demo_prims_def)
  have k: "sending_keypair ?st = Some (replicate 32 2, replicate 32 2)"
    by (simp add: demo_pair_def)
  note d = rejected_header_moves_ratchet [OF demo_ratchet_prims r k _ _ _ _ _ dh [of 2] dh [of 3],
      of "replicate 32 3" "[1, 2]" "[9]"]
  show ?thesis
    unfolding demo_pair_def [of 3]
    by (subst d) (simp_all add: demo_new_key_def demo_consumed_state_def demo_chain_state_def)
qed

end
