(* ===== verification/Ratchet_Persistence.thy ===== *)
theory Ratchet_Persistence
  imports Ratchet_Safety
begin

section \<open>Saving and restoring a ratchet state\<close>

text \<open>
  \<open>to_bytes\<close> and \<open>from_bytes\<close> of \<open>double_ratchet.rs\<close>.  \<open>serde_json\<close> is a
  pair of functions on the serializable record, with its error texts; the order in which the
  hash map yields its entries is an argument.
\<close>

record RatchetStateSer =
  ser_root_key :: bytes
  ser_sending_chain_key :: "bytes option"
  ser_receiving_chain_key :: "bytes option"
  ser_sending_public_key :: "bytes option"
  ser_sending_secret_key :: "bytes option"
  ser_remote_ratchet_key :: "bytes option"
  ser_send_message_number :: u32
  ser_recv_message_number :: u32
  ser_previous_chain_length :: u32
  ser_skipped_keys :: "(bytes \<times> u32 \<times> bytes) list"

type_synonym entries = "((bytes \<times> u32) \<times> bytes) list"

definition ratchet_to_ser :: "entries \<Rightarrow> RatchetState \<Rightarrow> RatchetStateSer" where
  "ratchet_to_ser iter st =
     \<lparr>ser_root_key = root_key st,
      ser_sending_chain_key = sending_chain_key st,
      ser_receiving_chain_key = receiving_chain_key st,
      ser_sending_public_key = map_option fst (sending_keypair st),
      ser_sending_secret_key = map_option snd (sending_keypair st),
      ser_remote_ratchet_key = remote_ratchet_key st,
      ser_send_message_number = send_message_number st,
      ser_recv_message_number = recv_message_number st,
      ser_previous_chain_length = previous_chain_length st,
      ser_skipped_keys = map (\<lambda>((rpk, mn), mk). (rpk, mn, mk)) iter\<rparr>"

definition ratchet_to_bytes :: "(RatchetStateSer \<Rightarrow> string + bytes) \<Rightarrow> entries \<Rightarrow> RatchetState \<Rightarrow> bytes result" where
  "ratchet_to_bytes ser iter st = map_err SerializationError (ser (ratchet_to_ser iter st))"

fun insert_entries :: "(bytes \<times> u32 \<times> bytes) list \<Rightarrow> skip_map \<Rightarrow> skip_map" where
  "insert_entries [] m = m"
| "insert_entries ((rpk, mn, mk) # es) m = insert_entries es (m((rpk, mn) \<mapsto> mk))"

definition ratchet_from_bytes :: "prims \<Rightarrow> (bytes \<Rightarrow> string + RatchetStateSer) \<Rightarrow> bytes \<Rightarrow> RatchetState result" where
  "ratchet_from_bytes P de bs =
     and_then (map_err SerializationError (de bs)) (\<lambda>ser.
     and_then
       (case (ser_sending_public_key ser, ser_sending_secret_key ser) of
          (Some pk_bytes, Some sk_bytes) \<Rightarrow>
            and_then (ok_or (from_slice P 32 pk_bytes) (SerializationError ''invalid sending public key'')) (\<lambda>pk.
            and_then (ok_or (from_slice P 32 sk_bytes) (SerializationError ''invalid sending secret key'')) (\<lambda>sk.
            Ok (Some (pk, sk))))
        | _ \<Rightarrow> Ok None) (\<lambda>keypair.
     Ok \<lparr>root_key = ser_root_key ser,
         sending_chain_key = ser_sending_chain_key ser,
         receiving_chain_key = ser_receiving_chain_key ser,
         sending_keypair = keypair,
         remote_ratchet_key = Option.bind (ser_remote_ratchet_key ser) (from_slice P 32),
         send_message_number = ser_send_message_number ser,
         recv_message_number = ser_recv_message_number ser,
         previous_chain_length = ser_previous_chain_length ser,
         skipped_keys = insert_entries (ser_skipped_keys ser) Map.empty\<rparr>))"

subsection \<open>Lemmas\<close>

text \<open>An iteration of a hash map yields each of its entries once.\<close>

definition iterates :: "('k \<rightharpoonup> 'v) \<Rightarrow> ('k \<times> 'v) list \<Rightarrow> bool" where
  "iterates m es \<longleftrightarrow> distinct (map fst es) \<and> map_of es = m"

lemma insert_entries_map_of:
  "distinct (map fst es) \<Longrightarrow>
   insert_entries (map (\<lambda>((rpk, mn), mk). (rpk, mn, mk)) es) m = m ++ map_of es"
proof (induction es arbitrary: m)
  case Nil
  then show ?case by simp
next
  case (Cons e es)
  obtain rpk mn mk where e: "e = ((rpk, mn), mk)"
    by (metis prod.collapse)
  with Cons.prems have "(rpk, mn) \<notin> dom (map_of es)"
    by (simp add: dom_map_of_conv_image_fst)
  then have "m((rpk, mn) \<mapsto> mk) ++ map_of es = m ++ map_of (e # es)"
    by (auto simp: e map_add_def fun_eq_iff split: option.split)
  moreover have "insert_entries (map (\<lambda>((rpk, mn), mk). (rpk, mn, mk)) (e # es)) m = m((rpk, mn) \<mapsto> mk) ++ map_of es"
    using Cons e by (simp del: fun_upd_apply)
  ultimately show ?case
    by (rule trans [rotated])
qed

lemma ratchet_restore:
  assumes S: "slices_ok P" and D: "dh_ok P" and wf: "ratchet_wf P st" and iter: "iterates (skipped_keys st) es"
    and de: "de b = Inr (ratchet_to_ser es st)"
  shows "ratchet_from_bytes P de b = Ok st"
proof -
  obtain pk sk where k: "sending_keypair st = Some (pk, sk)" "length pk = 32" "length sk = 32"
    using wf keypair_lengths [OF D] by (auto simp: ratchet_wf_def)
  have "Option.bind (remote_ratchet_key st) (from_slice P 32) = remote_ratchet_key st"
    using wf by (cases "remote_ratchet_key st") (simp_all add: ratchet_wf_def from_slice_eq [OF S])
  moreover have "insert_entries (map (\<lambda>((rpk, mn), mk). (rpk, mn, mk)) es) Map.empty = skipped_keys st"
    using iter by (simp add: insert_entries_map_of iterates_def)
  ultimately show ?thesis
    using k de by (simp add: ratchet_from_bytes_def ratchet_to_ser_def from_slice_eq [OF S])
qed

text \<open>The interface: a context of packages, serializers and an iteration order of every map.\<close>

type_synonym persist_context = "prims \<times> (RatchetStateSer \<Rightarrow> string + bytes) \<times>
  (bytes \<Rightarrow> string + RatchetStateSer) \<times> (skip_map \<Rightarrow> entries)"

fun persist_ok :: "persist_context \<Rightarrow> bool" where
  "persist_ok (P, ser, de, order) \<longleftrightarrow> slices_ok P \<and> dh_ok P \<and>
     (\<forall>x b. ser x = Inr b \<longrightarrow> de b = Inr x) \<and> (\<forall>m. finite (dom m) \<longrightarrow> iterates m (order m))"

fun persist_enc :: "persist_context \<Rightarrow> unit \<Rightarrow> RatchetState \<Rightarrow> bytes result" where
  "persist_enc (P, ser, de, order) r st = ratchet_to_bytes ser (order (skipped_keys st)) st"

fun persist_dec :: "persist_context \<Rightarrow> bytes \<Rightarrow> RatchetState result" where
  "persist_dec (P, ser, de, order) b = ratchet_from_bytes P de b"

interpretation persisted: lossless persist_ok "\<lambda>(P, _). ratchet_wf P" persist_enc persist_dec
proof
  fix c :: persist_context and st r b
  assume "persist_ok c" "(case c of (P, _) \<Rightarrow> ratchet_wf P) st" "persist_enc c r st = Ok b"
  then show "persist_dec c b = Ok st"
    by (cases c) (auto intro!: ratchet_restore simp: ratchet_to_bytes_def map_err_eq_Inr ratchet_wf_dests)
qed

subsection \<open>Properties\<close>

text \<open>
  C25: persistence is lossless.  A well-formed state that is serialized, in whatever order the
  hash map is iterated, is restored exactly, cached keys included.
\<close>

theorem ratchet_persistence:
  assumes "slices_ok P" "dh_ok P" "ratchet_wf P st" "iterates (skipped_keys st) es"
    and "ser (ratchet_to_ser es st) = Inr b" "de b = Inr (ratchet_to_ser es st)"
  shows "ratchet_to_bytes ser es st = Ok b \<and> ratchet_from_bytes P de b = Ok st"
  using ratchet_restore [where de = de, OF assms(1-4,6)] by (simp add: ratchet_to_bytes_def assms(5))

theorem ratchet_persistence_witness:
  "\<exists>st. skipped_keys st \<noteq> Map.empty \<and>
     ratchet_from_bytes demo_prims (\<lambda>c. if c = [7] then Inr (ratchet_to_ser [((replicate 32 4, 3), replicate 32 5)] st)
        else Inl ''bad'') [7] = Ok st"
proof -
  let ?st = "init_receiver (replicate 32 7) (demo_pair 2) \<lparr>skipped_keys := [(replicate 32 4, 3) \<mapsto> replicate 32 5]\<rparr>"
  let ?es = "[((replicate 32 4, 3), replicate 32 5)] :: entries"
  have "ratchet_wf demo_prims ?st"
    using demo_receiver_wf by (auto simp: ratchet_wf_def split: if_splits)
  moreover have "iterates (skipped_keys ?st) ?es"
    by (simp add: iterates_def)
  ultimately have "ratchet_to_bytes (\<lambda>_. Inr [7]) ?es ?st = Ok [7] \<and>
      ratchet_from_bytes demo_prims (\<lambda>c. if c = [7] then Inr (ratchet_to_ser ?es ?st) else Inl ''bad'') [7] = Ok ?st"
    by (intro ratchet_persistence) (simp_all add: demo_laws)
  then show ?thesis
    by (intro exI [of _ ?st]) simp
qed

end
