(* ===== verification/Ratchet_Mailbox.thy ===== *)
theory Ratchet_Mailbox
  imports Ratchet_Safety
begin

section \<open>Emptying a mailbox\<close>

text \<open>
  The messages in flight to a party, taken together.  Delivering one never puts another beyond
  the skipping limit: counters only grow within a chain, and a ratchet step caches the keys that
  the old chain still owes.  So whatever lies within the limit now is delivered in any order.
\<close>

definition live :: "prims \<Rightarrow> session \<Rightarrow> bool" where
  "live P s \<longleftrightarrow> session_inv P s \<and> (\<forall>X. ratchet_wf P (ends s X))"

lemma in_flight:
  assumes P: "ratchet_prims_ok P" and "session_inv P s" and p: "p \<in> net s X"
  shows "length (p_key p) = 32" "skipped_keys (ends s X) (p_id p) = None \<Longrightarrow> p_num p \<noteq> -1"
    "q \<in> net s X - {p} \<Longrightarrow> p_id q \<noteq> p_id p"
proof -
  obtain Y C kl kf where i: "in_sync P (drawn_keys s) C kl kf (ends s Y) (ends s (peer Y)) (net s Y) (net s (peer Y))"
    using assms(2) by (auto simp: session_inv_def)
  have kl: "length (fst kl) = 32"
    using i keypair_lengths(1) [OF ratchet_prims(2) [OF P]] by (auto simp: in_sync_def linked_def)
  have below: "n \<noteq> -1" if "n < m" for n m :: u32
    using that by (metis word_order.extremum_strict)
  have "X = Y \<or> X = peer Y"
    by (cases "X = Y") simp_all
  then have "inj_on p_id (net s X) \<and> length (p_key p) = 32 \<and>
      (skipped_keys (ends s X) (p_id p) = None \<longrightarrow> p_num p \<noteq> -1)"
    using i p kl below by (auto simp: in_sync_def readable_def announced_def)
  then show "length (p_key p) = 32" "skipped_keys (ends s X) (p_id p) = None \<Longrightarrow> p_num p \<noteq> -1"
    "q \<in> net s X - {p} \<Longrightarrow> p_id q \<noteq> p_id p"
    using other_id [OF _ p] by blast+
qed

subsection \<open>Counters and chains\<close>

text \<open>
  Either the remote ratchet key is replaced by the one of the header, or the counter does not
  go back and the receiving chain is still there.
\<close>

definition onward :: "RatchetState \<Rightarrow> RatchetState \<Rightarrow> bool" where
  "onward st st' \<longleftrightarrow> remote_ratchet_key st' = remote_ratchet_key st \<and>
     recv_message_number st \<le> recv_message_number st' \<and>
     (receiving_chain_key st' = None \<longleftrightarrow> receiving_chain_key st = None)"

lemma receive_at_onward:
  assumes K: "kdf_ok P" and wf: "ratchet_wf P st" and rem: "remote_ratchet_key st \<noteq> None" and n: "n \<noteq> -1"
    and s: "receive_at P n c ad st = (st', r)"
  shows "onward st st'"
proof (cases "receiving_chain_key st")
  case None
  with s rem show ?thesis
    by (auto simp: onward_def receive_at_def skip_message_keys_def split: if_splits)
next
  case (Some ck)
  obtain pk where pk: "remote_ratchet_key st = Some pk"
    using rem by blast
  have "recv_message_number st \<le> n + 1" if "\<not> n < recv_message_number st"
    using that succ_not_max [OF n] by (simp add: word_le_nat_alt word_less_nat_alt)
  with s Some pk show ?thesis
    by (auto simp: onward_def receive_at_eq [OF K pk Some] split: if_splits)
qed

lemma skip_for_current_chain_onward:
  assumes "kdf_ok P" "ratchet_wf P st" "skip_message_keys_for_current_chain P n st = (st', r)"
  shows "onward st st'"
proof (cases "receiving_chain_key st")
  case None
  with assms(3) show ?thesis
    by (simp add: onward_def skip_message_keys_for_current_chain_def)
next
  case (Some ck)
  then obtain pk where "remote_ratchet_key st = Some pk"
    using ratchet_wf_dests(2) [OF assms(2)] by auto
  with assms(3) Some show ?thesis
    by (auto simp: onward_def skip_for_current_chain_eq [OF assms(1) _ Some] split: if_splits)
qed

lemma dh_ratchet_step_remote:
  "dh_ratchet_step P drawn pl st = (st', r) \<Longrightarrow> remote_ratchet_key st' = Some pl"
  by (auto simp: dh_ratchet_step_def Let_def and_then_st_def split: prod.splits sum.splits)

lemma decrypt_onward:
  assumes P: "ratchet_prims_ok P" and wf: "ratchet_wf P st" and key: "length (h_ratchet_public_key h) = 32"
    and drawn: "box_keypair P pd sd"
    and n: "skipped_keys st (h_ratchet_public_key h, h_message_number h) = None \<Longrightarrow> h_message_number h \<noteq> -1"
    and d: "decrypt P (pd, sd) h c ad st = (st', r)"
  shows "onward st st' \<or>
    remote_ratchet_key st \<noteq> Some (h_ratchet_public_key h) \<and> remote_ratchet_key st' = Some (h_ratchet_public_key h)"
proof -
  note prims = ratchet_prims [OF P]
  let ?k = "h_ratchet_public_key h"
  show ?thesis
  proof (cases "skipped_keys st (?k, h_message_number h)")
    case (Some mk)
    with d show ?thesis
      by (auto simp: onward_def decrypt_cached)
  next
    case None
    note num = n [OF None]
    show ?thesis
    proof (cases "remote_ratchet_key st = Some ?k")
      case True
      with d have "receive_at P (h_message_number h) c ad st = (st', r)"
        by (simp add: decrypt_current [OF prims(1) True key None])
      with receive_at_onward [OF prims(3) wf _ num] True show ?thesis
        by auto
    next
      case False
      obtain st1 r1 where 1: "skip_message_keys_for_current_chain P (h_previous_chain_length h) st = (st1, r1)"
        by fastforce
      obtain st2 r2 where 2: "dh_ratchet_step P (pd, sd) ?k st1 = (st2, r2)"
        by fastforce
      obtain st3 r3 where 3: "receive_at P (h_message_number h) c ad st2 = (st3, r3)"
        by fastforce
      note wf1 = skip_for_current_chain_wf [OF prims(3) wf 1]
      have "remote_ratchet_key st2 = Some ?k"
        by (rule dh_ratchet_step_remote [OF 2])
      moreover from this have "remote_ratchet_key st3 = Some ?k"
        using receive_at_onward [OF prims(3) dh_ratchet_step_wf(1) [OF P wf1(1) drawn key 2] _ num 3]
        by (simp add: onward_def)
      moreover have "onward st st1"
        by (rule skip_for_current_chain_onward [OF prims(3) wf 1])
      moreover have "st' \<in> {st1, st2, st3}"
        using d [unfolded decrypt_new_key [OF prims(1) False key None] 1] 2 3
        by (cases r1; cases r2) auto
      ultimately show ?thesis
        using False by auto
    qed
  qed
qed

subsection \<open>One delivery\<close>

lemma gap_onward:
  assumes "onward st st'" "gap_ok st h" "skipped_keys st (h_ratchet_public_key h, h_message_number h) = None"
  shows "gap_ok st' h"
  using assms by (auto simp: gap_ok_def onward_def word_le_nat_alt split: if_splits)

lemma deliver_live:
  assumes P: "ratchet_prims_ok P" and live: "live P s" and p: "p \<in> net s X" and gap: "gap_ok (ends s X) (p_header p)"
    and fresh: "box_keypair P pd sd" "pd \<notin> drawn_keys s"
  obtains st' where "decrypt P (pd, sd) (p_header p) (p_body p) (p_ad p) (ends s X) = (st', Ok (p_plain p))"
    "live P (s\<lparr>ends := (ends s)(X := st'), net := (net s)(X := net s X - {p}),
       drawn_keys := insert pd (drawn_keys s)\<rparr>)"
    "\<And>q. q \<in> net s X - {p} \<Longrightarrow> gap_ok (ends s X) (p_header q) \<Longrightarrow> gap_ok st' (p_header q)"
proof -
  have inv: "session_inv P s" and wf: "ratchet_wf P (ends s Y)" for Y
    using live by (simp_all add: live_def)
  note flight = in_flight [OF P inv p]
  obtain st' where d: "decrypt P (pd, sd) (p_header p) (p_body p) (p_ad p) (ends s X) = (st', receipt (ends s X) p)"
    "session_inv P (s\<lparr>ends := (ends s)(X := st'), net := (net s)(X := net s X - {p}),
       drawn_keys := insert pd (drawn_keys s)\<rparr>)"
    "remote_ratchet_key st' = remote_ratchet_key (ends s X) \<or>
     (\<forall>q \<in> net s X - {p}. skipped_keys st' (p_id q) \<noteq> None \<or> remote_ratchet_key st' = Some (p_key q))"
    by (rule deliver_outcome [OF P inv p fresh])
  note safe = decrypt_safe [OF P wf flight(1) fresh(1) d(1)]
  have step: "onward (ends s X) st' \<or>
      remote_ratchet_key (ends s X) \<noteq> Some (p_key p) \<and> remote_ratchet_key st' = Some (p_key p)"
    by (rule decrypt_onward [OF P wf flight(1) fresh(1) flight(2) d(1)])
  show ?thesis
  proof (rule that)
    show "decrypt P (pd, sd) (p_header p) (p_body p) (p_ad p) (ends s X) = (st', Ok (p_plain p))"
      using d(1) gap by (simp add: receipt_def)
    show "live P (s\<lparr>ends := (ends s)(X := st'), net := (net s)(X := net s X - {p}),
       drawn_keys := insert pd (drawn_keys s)\<rparr>)"
      using d(2) wf safe(1) by (simp add: live_def)
    show "gap_ok st' (p_header q)" if q: "q \<in> net s X - {p}" "gap_ok (ends s X) (p_header q)" for q
    proof (cases "skipped_keys (ends s X) (p_id q) = None")
      case False
      then have "p_id q \<in> dom (skipped_keys st')"
        using safe(4) flight(3) [OF q(1)] by blast
      then show ?thesis
        by (simp add: gap_ok_def domIff)
    next
      case None: True
      show ?thesis
      proof (cases "onward (ends s X) st'")
        case True
        then show ?thesis
          by (rule gap_onward [OF _ q(2) None])
      next
        case False
        with step d(3) q(1) have "skipped_keys st' (p_id q) \<noteq> None \<or>
            remote_ratchet_key st' = Some (p_key q) \<and> remote_ratchet_key (ends s X) \<noteq> Some (p_key q)"
          by (metis option.inject)
        with q(2) None show ?thesis
          by (auto simp: gap_ok_def)
      qed
    qed
  qed
qed

lemma drain:
  assumes P: "ratchet_prims_ok P"
  shows "live P s \<Longrightarrow> distinct ps \<Longrightarrow> set ps \<subseteq> net s X \<Longrightarrow> \<forall>p \<in> set ps. gap_ok (ends s X) (p_header p) \<Longrightarrow>
    length ks = length ps \<Longrightarrow> distinct (map fst ks) \<Longrightarrow>
    \<forall>(pk, sk) \<in> set ks. box_keypair P pk sk \<and> pk \<notin> drawn_keys s \<Longrightarrow>
    snd (receive_all (\<lambda>(drawn, p). decrypt P drawn (p_header p) (p_body p) (p_ad p)) (zip ks ps) (ends s X)) =
      map (\<lambda>p. Ok (p_plain p)) ps"
proof (induction ps arbitrary: s ks)
  case Nil
  then show ?case by simp
next
  case (Cons p ps)
  from Cons.prems(5) obtain pd sd ks' where ks: "ks = (pd, sd) # ks'"
    by (cases ks) auto
  have p: "p \<in> net s X" "gap_ok (ends s X) (p_header p)" "box_keypair P pd sd" "pd \<notin> drawn_keys s"
    using Cons.prems by (simp_all add: ks)
  obtain st' where d: "decrypt P (pd, sd) (p_header p) (p_body p) (p_ad p) (ends s X) = (st', Ok (p_plain p))"
    "live P (s\<lparr>ends := (ends s)(X := st'), net := (net s)(X := net s X - {p}),
       drawn_keys := insert pd (drawn_keys s)\<rparr>)"
    "\<And>q. q \<in> net s X - {p} \<Longrightarrow> gap_ok (ends s X) (p_header q) \<Longrightarrow> gap_ok st' (p_header q)"
    by (rule deliver_live [OF P Cons.prems(1) p]) blast
  have rest: "set ps \<subseteq> net s X - {p}" "\<forall>q \<in> set ps. gap_ok st' (p_header q)"
    using Cons.prems(2-4) d(3) by auto
  let ?s = "s\<lparr>ends := (ends s)(X := st'), net := (net s)(X := net s X - {p}), drawn_keys := insert pd (drawn_keys s)\<rparr>"
  have s': "ends ?s X = st'" "net ?s X = net s X - {p}" "drawn_keys ?s = insert pd (drawn_keys s)"
    by simp_all
  have fresh: "length ks' = length ps" "distinct (map fst ks')"
    "\<forall>(pk, sk) \<in> set ks'. box_keypair P pk sk \<and> pk \<notin> drawn_keys ?s"
    using Cons.prems(5-7) unfolding s' by (auto simp: ks rev_image_eqI)
  have "distinct ps"
    using Cons.prems(2) by simp
  from Cons.IH [OF d(2) this, unfolded s', OF rest fresh [unfolded s']]
  have "snd (receive_all (\<lambda>(drawn, p). decrypt P drawn (p_header p) (p_body p) (p_ad p)) (zip ks' ps) st') =
      map (\<lambda>p. Ok (p_plain p)) ps" .
  then show ?case
    by (auto simp: ks d(1) split: prod.split)
qed

lemma live_event:
  assumes P: "ratchet_prims_ok P" and live: "live P s" and step: "session_event P s e s'"
  shows "live P s'"
proof -
  have inv: "session_inv P s" and wf: "ratchet_wf P (ends s X)" for X
    using live by (simp_all add: live_def)
  from step have "ratchet_wf P (ends s' X)" for X
  proof cases
    case (deliver pkt Y pk sk st' r)
    then show ?thesis
      using decrypt_safe(1) [OF P wf in_flight(1) [OF P inv deliver(3)] deliver(4,6)] wf by simp
  qed (use wf encrypt_wf [OF P wf] in auto)
  with session_event_inv [OF P step inv] show ?thesis
    by (simp add: live_def)
qed

lemma session_reachable_live:
  assumes P: "ratchet_prims_ok P" and ss: "length ss = 32" and start: "session_start P ss ka kb s0"
  shows "session_reachable P s0 s \<Longrightarrow> live P s"
proof (induction rule: session_reachable.induct)
  case start
  obtain pa sa pb sb where k: "ka = (pa, sa)" "kb = (pb, sb)"
    by (cases ka; cases kb)
  with assms(3) have kp: "box_keypair P pa sa" "box_keypair P pb sb"
    and init: "init_sender P (pa, sa) ss pb = Ok (ends s0 Alice)" "ends s0 Bob = init_receiver ss (pb, sb)"
    by (simp_all add: session_start_def)
  have "length pb = 32"
    by (rule keypair_lengths(1) [OF ratchet_prims(2) [OF P] kp(2)])
  with init_wf [OF P ss] kp init have "ratchet_wf P (ends s0 X)" for X
    by (cases X) auto
  with session_start_inv [OF P assms(3)] show ?case
    by (simp add: live_def)
next
  case (step s e s')
  show ?case
    by (rule live_event [OF P step.IH step.hyps(2)])
qed

subsection \<open>Properties\<close>

text \<open>
  C4: a mailbox can be emptied in any order.  In every reachable state, take any messages in
  flight to a party, in any order, that lie within the skipping limit now: decrypting them one
  after the other gives all their plaintexts, whichever ratchet steps the deliveries cause on
  the way.
\<close>

theorem mailbox_empties:
  assumes "ratchet_prims_ok P" "length ss = 32" "session_start P ss ka kb s0" "session_reachable P s0 s"
    and "distinct ps" "set ps \<subseteq> net s X" "\<forall>p \<in> set ps. gap_ok (ends s X) (p_header p)"
    and "length ks = length ps" "distinct (map fst ks)"
    and "\<forall>(pk, sk) \<in> set ks. box_keypair P pk sk \<and> pk \<notin> drawn_keys s"
  shows "snd (receive_all (\<lambda>(drawn, p). decrypt P drawn (p_header p) (p_body p) (p_ad p)) (zip ks ps) (ends s X)) =
    map (\<lambda>p. Ok (p_plain p)) ps"
  by (rule drain [OF assms(1) session_reachable_live [OF assms(1-4)] assms(5-10)])

theorem mailbox_empties_witness:
  "\<exists>(s :: session) p. p \<in> net s Bob \<and> p_plain p = [1, 2, 3] \<and>
     snd (receive_all (\<lambda>(drawn, p). decrypt demo_prims drawn (p_header p) (p_body p) (p_ad p))
       (zip [demo_pair 3] [p]) (ends s Bob)) = [Ok [1, 2, 3]]"
proof -
  obtain s0 s p where s: "session_start demo_prims (replicate 32 7) (demo_pair 1) (demo_pair 2) s0"
    "session_reachable demo_prims s0 s" "p \<in> net s Bob" "p_plain p = [1, 2, 3]"
    "drawn_keys s = {replicate 32 1, replicate 32 2}" "gap_ok (ends s Bob) (p_header p)"
    by (rule demo_session)
  have ks: "\<forall>(pk, sk) \<in> set [demo_pair 3]. box_keypair demo_prims pk sk \<and> pk \<notin> drawn_keys s"
    using demo_pair_ok [of 3] by (simp add: s(5) demo_pair_def)
  have "snd (receive_all (\<lambda>(drawn, p). decrypt demo_prims drawn (p_header p) (p_body p) (p_ad p))
       (zip [demo_pair 3] [p]) (ends s Bob)) = map (\<lambda>p. Ok (p_plain p)) [p]"
    by (rule mailbox_empties [OF demo_ratchet_prims _ s(1,2) _ _ _ _ _ ks]) (simp_all add: s)
  then have "snd (receive_all (\<lambda>(drawn, p). decrypt demo_prims drawn (p_header p) (p_body p) (p_ad p))
       (zip [demo_pair 3] [p]) (ends s Bob)) = [Ok [1, 2, 3]]"
    by (simp only: list.map s(4))
  with s(3,4) show ?thesis
    by blast
qed

end
