(* ===== verification/Ratchet_Refinement.thy ===== *)
theory Ratchet_Refinement
  imports Ratchet_Session "HOL-Library.Multiset"
begin

section \<open>A session refines a post office\<close>

text \<open>
  The contract of a session, with no keys in it: a post office holds a multiset of plaintexts
  per addressee.  Sending adds one, receiving hands one out and removes it, a letter may be
  lost, and the only failure is the one of the skipping limit, which loses a letter.  Every
  observable run of two ratchets over the network is a run of the post office.  What a run of the
  post office accepts was sent (\<open>post_run_account\<close>), which \<open>Ratchet_Replay\<close> uses for
  networks that deliver copies as well.
\<close>

type_synonym office = "party \<Rightarrow> bytes multiset"

inductive post_event :: "office \<Rightarrow> event \<Rightarrow> office \<Rightarrow> bool" where
  post: "post_event b (Sent X p) (b(peer X := add_mset p (b (peer X))))"
| refuse: "post_event b (Refused X) b"
| hand_out: "p \<in># b X \<Longrightarrow> post_event b (Received X (Ok p)) (b(X := b X - {#p#}))"
| too_far: "p \<in># b X \<Longrightarrow>
    post_event b (Received X (Err (RatchetError ''too many skipped messages''))) (b(X := b X - {#p#}))"
| lose: "post_event b (Lost X) (b(X := b X - {#p#}))"

inductive_cases post_eventE: "post_event b e b'"

subsection \<open>The post office\<close>

text \<open>What a run addressed to a party, and what the party accepted, in order.\<close>

fun sent_to :: "party \<Rightarrow> event list \<Rightarrow> bytes list" where
  "sent_to X [] = []"
| "sent_to X (Sent Y p # es) = (if Y = peer X then p # sent_to X es else sent_to X es)"
| "sent_to X (_ # es) = sent_to X es"

fun accepted :: "party \<Rightarrow> event list \<Rightarrow> bytes list" where
  "accepted X [] = []"
| "accepted X (Received Y (Inr p) # es) = (if Y = X then p # accepted X es else accepted X es)"
| "accepted X (_ # es) = accepted X es"

fun failures :: "event list \<Rightarrow> CryptoError list" where
  "failures [] = []"
| "failures (Received Y (Inl e) # es) = e # failures es"
| "failures (_ # es) = failures es"

lemma post_event_account:
  assumes "post_event b e b'"
  shows "mset (accepted X [e]) + b' X \<subseteq># mset (sent_to X [e]) + b X"
    "set (failures [e]) \<subseteq> {RatchetError ''too many skipped messages''}"
  using assms by (cases rule: post_event.cases; cases X; auto simp: insert_DiffM)+

lemma one_event:
  "sent_to X (e # es) = sent_to X [e] @ sent_to X es"
  "accepted X (e # es) = accepted X [e] @ accepted X es"
  "failures (e # es) = failures [e] @ failures es"
proof -
  show "sent_to X (e # es) = sent_to X [e] @ sent_to X es"
    by (cases e) simp_all
  have "accepted X (Received Y r # es) = accepted X [Received Y r] @ accepted X es"
    "failures (Received Y r # es) = failures [Received Y r] @ failures es" for Y r
    by (cases r; simp)+
  then show "accepted X (e # es) = accepted X [e] @ accepted X es" "failures (e # es) = failures [e] @ failures es"
    by (cases e; simp)+
qed

lemma post_run_account:
  "run post_event b es b' \<Longrightarrow> mset (accepted X es) + b' X \<subseteq># mset (sent_to X es) + b X \<and>
     set (failures es) \<subseteq> {RatchetError ''too many skipped messages''}"
proof (induction rule: run.induct)
  case (go s e t es u)
  have "mset (accepted X [e]) + (mset (accepted X es) + u X) \<subseteq># mset (accepted X [e]) + (mset (sent_to X es) + t X)"
    using go.IH by (intro subset_mset.add_left_mono) simp
  also have "\<dots> = mset (sent_to X es) + (mset (accepted X [e]) + t X)"
    by (simp add: ac_simps)
  also have "\<dots> \<subseteq># mset (sent_to X es) + (mset (sent_to X [e]) + s X)"
    by (intro subset_mset.add_left_mono post_event_account(1) [OF go.hyps(1)])
  finally have "mset (accepted X (e # es)) + u X \<subseteq># mset (sent_to X (e # es)) + s X"
    unfolding one_event(1,2) [of X e es] by (simp add: ac_simps)
  with go.IH post_event_account(2) [OF go.hyps(1)] show ?case
    unfolding one_event(3) [of e es] by simp
qed simp

subsection \<open>The simulation\<close>

definition letters :: "session \<Rightarrow> office" where
  "letters s = (\<lambda>X. image_mset p_plain (mset_set (net s X)))"

definition refines :: "prims \<Rightarrow> session \<Rightarrow> office \<Rightarrow> bool" where
  "refines P s b \<longleftrightarrow> session_inv P s \<and> (\<forall>X. finite (net s X)) \<and> b = letters s"

lemma letters_insert:
  "finite (net s X) \<Longrightarrow> pkt \<notin> net s X \<Longrightarrow>
   letters (s\<lparr>ends := e, net := (net s)(X := insert pkt (net s X))\<rparr>) =
     (letters s)(X := add_mset (p_plain pkt) (letters s X))"
  by (auto simp: letters_def)

lemma letters_remove:
  assumes "finite (net s X)" "net s' = (net s)(X := net s X - {pkt})" "pkt \<in> net s X"
  shows "letters s' = (letters s)(X := letters s X - {#p_plain pkt#})" "p_plain pkt \<in># letters s X"
  using assms by (auto simp: letters_def mset_set_Diff image_mset_Diff)

interpretation post_office: simulation ratchet_prims_ok session_event post_event refines
proof
  fix P s b e s'
  assume P: "ratchet_prims_ok P" and "refines P s b" and step: "session_event P s e s'"
  then have inv: "session_inv P s" and fin: "finite (net s X)" and b: "b = letters s" for X
    by (simp_all add: refines_def)
  have inv': "session_inv P s'"
    by (rule session_event_inv [OF P step inv])
  have fin': "finite (net s' X)" for X
    using step fin by cases auto
  have "post_event (letters s) e (letters s')"
    using step
  proof cases
    case (send nonce X p ad st' h c)
    with letters_insert [OF fin send_inv(2) [OF P inv send(3-5)]] show ?thesis
      by (simp add: post)
  next
    case (send_refused nonce p ad X st' err)
    then have "letters s' = letters s"
      by (simp add: letters_def)
    with send_refused(1) show ?thesis
      by (simp add: refuse)
  next
    case (deliver pkt X pk sk st' r)
    have r: "r = receipt (ends s X) pkt"
      using deliver_outcome [OF P inv deliver(3-5)] deliver(6) by (metis prod.inject)
    have "letters s' = (letters s)(X := letters s X - {#p_plain pkt#})" "p_plain pkt \<in># letters s X"
      using letters_remove [OF fin _ deliver(3), of s'] deliver(2) by simp_all
    then show ?thesis
      using deliver(1) by (simp add: r receipt_def hand_out too_far)
  next
    case (lose X pkt)
    show ?thesis
    proof (cases "pkt \<in> net s X")
      case True
      then have "letters s' = (letters s)(X := letters s X - {#p_plain pkt#})"
        using letters_remove(1) [OF fin _ True, of s'] lose(2) by simp
      with lose(1) show ?thesis
        by (simp add: post_event.lose)
    next
      case False
      obtain q where "q \<notin># letters s X"
        using infinite_UNIV_listI finite_set_mset by (metis ex_new_if_finite)
      then have "letters s' = (letters s)(X := letters s X - {#q#})"
        using False lose(2) by (simp add: letters_def fun_eq_iff)
      with lose(1) show ?thesis
        by (simp add: post_event.lose)
    qed
  qed
  with inv' fin' show "\<exists>b'. post_event b e b' \<and> refines P s' b'"
    by (auto simp: refines_def b)
qed

lemma start_refines:
  assumes "ratchet_prims_ok P" "session_start P ss ka kb s0"
  shows "refines P s0 (\<lambda>_. {#})"
  using session_start_inv [OF assms] assms(2) by (auto simp: refines_def letters_def session_start_def)

text \<open>Every reachable state is reached by a run.\<close>

lemma run_of_reachable: "session_reachable P s0 s \<Longrightarrow> \<exists>es. run (session_event P) s0 es s"
  by (induction rule: session_reachable.induct) (auto intro: run_snoc exI [of _ "[]"])

subsection \<open>Properties\<close>

text \<open>
  C3: a session refines a post office.  Whatever two ratchets started from one secret do over a
  network that delays, reorders and loses, the observed sequence of sends, results and losses is
  one that the post office allows, and the letters it holds at the end are the plaintexts in flight.
\<close>

theorem session_refines_post_office:
  assumes "ratchet_prims_ok P" "session_start P ss ka kb s0" "run (session_event P) s0 es s"
  shows "run post_event (\<lambda>_. {#}) es (\<lambda>X. image_mset p_plain (mset_set (net s X)))"
proof -
  obtain b where "run post_event (\<lambda>_. {#}) es b" "refines P s b"
    using post_office.run_matched [OF assms(3,1) start_refines [OF assms(1,2)]] by blast
  then show ?thesis
    by (simp add: refines_def letters_def)
qed

text \<open>A run in which Alice sends one message and Bob accepts it.\<close>

lemma demo_run:
  obtains s0 s where "session_start demo_prims (replicate 32 7) (demo_pair 1) (demo_pair 2) s0"
    "run (session_event demo_prims) s0 [Sent Alice [1, 2, 3], Received Bob (Ok [1, 2, 3])] s"
proof -
  obtain s0 s p where s: "session_start demo_prims (replicate 32 7) (demo_pair 1) (demo_pair 2) s0"
    "session_event demo_prims s0 (Sent Alice [1, 2, 3]) s" "p \<in> net s Bob" "p_plain p = [1, 2, 3]"
    "drawn_keys s = {replicate 32 1, replicate 32 2}" "gap_ok (ends s Bob) (p_header p)"
    by (rule demo_first_message)
  have inv: "session_inv demo_prims s"
    by (rule session_event_inv [OF demo_ratchet_prims s(2) session_start_inv [OF demo_ratchet_prims s(1)]])
  have fresh: "box_keypair demo_prims (replicate 32 3) (replicate 32 3)" "replicate 32 3 \<notin> drawn_keys s"
    using demo_pair_ok [of 3] by (simp_all add: demo_pair_def s(5))
  obtain st' where "decrypt demo_prims (replicate 32 3, replicate 32 3) (p_header p) (p_body p) (p_ad p) (ends s Bob) =
      (st', Ok [1, 2, 3])"
    using deliver_outcome [OF demo_ratchet_prims inv s(3) fresh] s(4,6) by (metis receipt_def)
  from session_event.deliver [OF s(3) fresh this] s(2) show ?thesis
    by (intro that [OF s(1)]) auto
qed

theorem session_refines_post_office_witness:
  "\<exists>b. run post_event (\<lambda>_. {#}) [Sent Alice [1, 2, 3], Received Bob (Ok [1, 2, 3])] b"
  by (rule demo_run) (use session_refines_post_office [OF demo_ratchet_prims] in blast)

end
