(* ===== verification/Ratchet_Restart.thy ===== *)
theory Ratchet_Restart
  imports Ratchet_Persistence Ratchet_Mailbox Ratchet_Refinement
begin

section \<open>Sessions across restarts\<close>

text \<open>
  A device may save its ratchet state and load it again between any two steps of a session.  The
  runs with restarts are exactly those without, once the restarts are erased, so everything
  proved of sessions holds of devices that restart.
\<close>

datatype life = Event event | Restart party

text \<open>
  The serializers are \<open>ser\<close> and \<open>de\<close>; the order in which the hash map is iterated is any.
\<close>

inductive life_event :: "prims \<Rightarrow> (RatchetStateSer \<Rightarrow> string + bytes) \<Rightarrow>
    (bytes \<Rightarrow> string + RatchetStateSer) \<Rightarrow> session \<Rightarrow> life \<Rightarrow> session \<Rightarrow> bool" for P ser de where
  event: "session_event P s e s' \<Longrightarrow> life_event P ser de s (Event e) s'"
| restart: "iterates (skipped_keys (ends s X)) es \<Longrightarrow> ratchet_to_bytes ser es (ends s X) = Ok b \<Longrightarrow>
    ratchet_from_bytes P de b = Ok st' \<Longrightarrow>
    life_event P ser de s (Restart X) (s\<lparr>ends := (ends s)(X := st')\<rparr>)"

fun observed :: "life list \<Rightarrow> event list" where
  "observed [] = []"
| "observed (Event e # es) = e # observed es"
| "observed (Restart X # es) = observed es"

text \<open>A live state is restored exactly.\<close>

lemma live_restored:
  assumes P: "ratchet_prims_ok P" and live: "live P s"
    and serde: "\<forall>x b. ser x = Inr b \<longrightarrow> de b = Inr x"
    and iter: "iterates (skipped_keys (ends s X)) es" and b: "ratchet_to_bytes ser es (ends s X) = Ok b"
  shows "ratchet_from_bytes P de b = Ok (ends s X)"
proof -
  have "de b = Inr (ratchet_to_ser es (ends s X))"
    using b serde by (simp add: ratchet_to_bytes_def map_err_eq_Inr)
  with ratchet_restore [OF ratchet_prims(1,2) [OF P] _ iter] live show ?thesis
    by (simp add: live_def)
qed

lemma restarts_erased:
  assumes P: "ratchet_prims_ok P" and serde: "\<forall>x b. ser x = Inr b \<longrightarrow> de b = Inr x"
  shows "run (life_event P ser de) s es s' \<Longrightarrow> live P s \<Longrightarrow> run (session_event P) s (observed es) s' \<and> live P s'"
proof (induction rule: run.induct)
  case (go s e t es u)
  from go.hyps(1) show ?case
  proof cases
    case (event ev)
    with go.IH live_event [OF P go.prems] show ?thesis
      by auto
  next
    case (restart X ord b st')
    have "st' = ends s X"
      using live_restored [OF P go.prems serde restart(3,4)] restart(5) by simp
    then have "t = s"
      using restart(2) by simp
    with go restart(1) show ?thesis
      by simp
  qed
qed simp

subsection \<open>Properties\<close>

text \<open>
  C6: restarts are invisible.  A run in which devices save and load their ratchet states between
  steps, as often as they like and with the hash map iterated in any order, reaches the state that
  the same run without restarts reaches; and in that state what a device saves is loaded
  exactly, with no error.
\<close>

theorem restarts_invisible:
  assumes "ratchet_prims_ok P" "length ss = 32" "session_start P ss ka kb s0"
    and "\<forall>x b. ser x = Inr b \<longrightarrow> de b = Inr x" "run (life_event P ser de) s0 es s"
    and "iterates (skipped_keys (ends s X)) order" "ratchet_to_bytes ser order (ends s X) = Ok b"
  shows "run (session_event P) s0 (observed es) s \<and> ratchet_from_bytes P de b = Ok (ends s X)"
proof -
  have "live P s0"
    by (rule session_reachable_live [OF assms(1-3) session_reachable.start])
  then have r: "run (session_event P) s0 (observed es) s" "live P s"
    using restarts_erased [OF assms(1,4,5)] by simp_all
  then show ?thesis
    using live_restored [OF assms(1) r(2) assms(4,6,7)] by simp
qed

text \<open>Bob saves his first state, written as one byte, and loads it while a message is in flight to him.\<close>

definition demo_bob :: RatchetState where
  "demo_bob = init_receiver (replicate 32 7) (demo_pair 2)"

definition demo_ratchet_ser :: "RatchetStateSer \<Rightarrow> string + bytes" where
  "demo_ratchet_ser x = (if x = ratchet_to_ser [] demo_bob then Inr [7] else Inl ''unsupported'')"

definition demo_ratchet_de :: "bytes \<Rightarrow> string + RatchetStateSer" where
  "demo_ratchet_de b = (if b = [7] then Inr (ratchet_to_ser [] demo_bob) else Inl ''malformed'')"

theorem restarts_invisible_witness:
  "\<exists>s0 s. session_start demo_prims (replicate 32 7) (demo_pair 1) (demo_pair 2) s0 \<and>
     run (life_event demo_prims demo_ratchet_ser demo_ratchet_de) s0 [Event (Sent Alice [1, 2, 3]), Restart Bob] s \<and>
     run (session_event demo_prims) s0 [Sent Alice [1, 2, 3]] s \<and>
     ratchet_from_bytes demo_prims demo_ratchet_de [7] = Ok (ends s Bob)"
proof -
  obtain s0 s p where s: "session_start demo_prims (replicate 32 7) (demo_pair 1) (demo_pair 2) s0"
    "session_event demo_prims s0 (Sent Alice [1, 2, 3]) s" "p \<in> net s Bob" "p_plain p = [1, 2, 3]"
    "drawn_keys s = {replicate 32 1, replicate 32 2}" "gap_ok (ends s Bob) (p_header p)"
    by (rule demo_first_message)
  have "ends s Bob = ends s0 Bob"
    using s(2) by cases simp
  then have bob: "ends s Bob = demo_bob"
    using s(1) by (simp add: session_start_def demo_bob_def)
  have serde: "\<forall>x b. demo_ratchet_ser x = Inr b \<longrightarrow> demo_ratchet_de b = Inr x"
    by (simp add: demo_ratchet_ser_def demo_ratchet_de_def)
  have iter: "iterates (skipped_keys (ends s Bob)) []"
    by (simp add: bob demo_bob_def init_receiver_def iterates_def)
  have save: "ratchet_to_bytes demo_ratchet_ser [] (ends s Bob) = Ok [7]"
    by (simp add: bob ratchet_to_bytes_def demo_ratchet_ser_def)
  have "live demo_prims s"
    by (rule session_reachable_live [OF demo_ratchet_prims _ s(1) session_reachable.step [OF session_reachable.start s(2)]])
      simp
  note load = live_restored [OF demo_ratchet_prims this serde iter save]
  have life: "run (life_event demo_prims demo_ratchet_ser demo_ratchet_de) s0
      [Event (Sent Alice [1, 2, 3]), Restart Bob] s"
    using life_event.event [OF s(2), of demo_ratchet_ser demo_ratchet_de] life_event.restart [OF iter save load]
    by auto
  from restarts_invisible [OF demo_ratchet_prims _ s(1) serde life iter save] life s(1) show ?thesis
    by auto
qed

end
