(* ===== verification/Padding.thy ===== *)
theory Padding
  imports Primitives Interfaces
begin

section \<open>Message padding\<close>

text \<open>
  \<open>crates/vaultex-crypto/src/padding.rs\<close>.  A message is followed by random fill and the
  padding length as a little-endian \<open>u32\<close>, so that the padded size is one of the
  buckets 256, 512, ..., 65536 or a multiple of 65536.  The file proves the round trip, the
  bucket bounds, that only the bucket of the length is visible, and that cover traffic is told
  apart from real messages.
\<close>

definition MIN_BUCKET :: nat where "MIN_BUCKET = 256"

definition MAX_BUCKET :: nat where "MAX_BUCKET = 65536"

definition PAD_LEN_BYTES :: nat where "PAD_LEN_BYTES = 4"

lemmas padding_consts = MIN_BUCKET_def MAX_BUCKET_def PAD_LEN_BYTES_def

definition bucket_size :: "nat \<Rightarrow> nat" where
  "bucket_size len =
     (let needed = len + PAD_LEN_BYTES in
      if needed \<le> MIN_BUCKET then MIN_BUCKET
      else if needed \<le> MAX_BUCKET then next_power_of_two needed
      else div_ceil needed MAX_BUCKET * MAX_BUCKET)"

definition pad_message :: "random \<Rightarrow> bytes \<Rightarrow> bytes result" where
  "pad_message rnd plaintext =
     (let target = bucket_size (length plaintext);
          pad_len = target - length plaintext in
      if pad_len < PAD_LEN_BYTES
      then Err (PaddingError ''computed padding too small for length encoding'')
      else
        let fill_len = pad_len - PAD_LEN_BYTES;
            fill = (if 0 < fill_len then random_bytes rnd fill_len else [])
        in Ok (plaintext @ fill @ to_le_bytes (word_of_nat pad_len)))"

definition unpad_message :: "bytes \<Rightarrow> bytes result" where
  "unpad_message padded =
     (if length padded < PAD_LEN_BYTES then Err (PaddingError ''padded message too short'')
      else
        let offset = length padded - PAD_LEN_BYTES;
            pad_len = unat (from_le_bytes (padded ! offset) (padded ! (offset + 1))
                              (padded ! (offset + 2)) (padded ! (offset + 3)))
        in if pad_len < PAD_LEN_BYTES \<or> length padded < pad_len
           then Err (PaddingError ''invalid padding length'')
           else Ok (take (length padded - pad_len) padded))"

definition generate_dummy_message :: "random \<Rightarrow> nat \<Rightarrow> bytes" where
  "generate_dummy_message rnd sz =
     (let actual_size = (if sz < MIN_BUCKET then MIN_BUCKET else sz);
          buf = random_bytes rnd actual_size;
          mark = actual_size - PAD_LEN_BYTES
      in buf[mark := 0xFF, mark + 1 := 0xFF, mark + 2 := 0xFF, mark + 3 := 0xFF])"

definition is_dummy_message :: "bytes \<Rightarrow> bool" where
  "is_dummy_message d =
     (if length d < PAD_LEN_BYTES then False
      else
        let offset = length d - PAD_LEN_BYTES
        in d ! offset = 0xFF \<and> d ! (offset + 1) = 0xFF \<and> d ! (offset + 2) = 0xFF \<and> d ! (offset + 3) = 0xFF)"

subsection \<open>Buckets\<close>

lemma bucket_small: "len + 4 \<le> 256 \<Longrightarrow> bucket_size len = 256"
  by (simp add: bucket_size_def padding_consts)

lemma bucket_medium:
  assumes "256 < len + 4" "len + 4 \<le> 65536"
  obtains k where "bucket_size len = 2 ^ k" "8 < k" "k \<le> 16" "2 ^ (k - 1) < len + 4" "len + 4 \<le> 2 ^ k"
proof -
  have b: "bucket_size len = next_power_of_two (len + 4)"
    using assms by (simp add: bucket_size_def padding_consts)
  obtain k where k: "next_power_of_two (len + 4) = 2 ^ k"
    using next_power_of_two_power by blast
  have le: "len + 4 \<le> 2 ^ k"
    using next_power_of_two_ge [of "len + 4"] k by simp
  have "(2 :: nat) ^ k \<le> 2 ^ 16"
    using next_power_of_two_least [of "len + 4" 16] assms k by simp
  then have "k \<le> 16"
    by (rule power_le_imp_le_exp [rotated]) simp
  moreover have "(2 :: nat) ^ 8 < 2 ^ k"
    using assms le by simp
  then have "8 < k"
    by (rule power_less_imp_less_exp [rotated]) simp
  moreover have "2 ^ (k - 1) < len + 4"
  proof (rule ccontr)
    assume "\<not> 2 ^ (k - 1) < len + 4"
    then have "(2 :: nat) ^ k \<le> 2 ^ (k - 1)"
      using next_power_of_two_least [of "len + 4" "k - 1"] k by simp
    with \<open>8 < k\<close> show False by simp
  qed
  ultimately show ?thesis
    using that b k le by simp
qed

lemma bucket_large:
  assumes "65536 < len + 4"
  shows "bucket_size len mod 65536 = 0" "len + 4 \<le> bucket_size len" "bucket_size len < len + 4 + 65536"
  using assms div_ceil_bounds [of 65536 "len + 4"] by (simp_all add: bucket_size_def padding_consts)

lemma bucket_size_ge: "len + PAD_LEN_BYTES \<le> bucket_size len"
proof -
  consider "len + 4 \<le> 256" | "256 < len + 4" "len + 4 \<le> 65536" | "65536 < len + 4"
    by linarith
  then show ?thesis
  proof cases
    case 2
    then obtain k where "bucket_size len = 2 ^ k" "len + 4 \<le> 2 ^ k"
      by (rule bucket_medium)
    then show ?thesis
      by (simp add: PAD_LEN_BYTES_def)
  qed (simp_all add: bucket_small PAD_LEN_BYTES_def bucket_large)
qed

lemma bucket_size_le: "bucket_size len \<le> len + 65539"
proof -
  consider "len + 4 \<le> 256" | "256 < len + 4" "len + 4 \<le> 65536" | "65536 < len + 4"
    by linarith
  then show ?thesis
  proof cases
    case 2
    then obtain k where k: "bucket_size len = 2 ^ k" "k \<le> 16"
      by (rule bucket_medium)
    from k(2) have "(2 :: nat) ^ k \<le> 2 ^ 16"
      by (rule power_increasing) simp
    with k(1) have "bucket_size len \<le> 2 ^ 16"
      by simp
    then show ?thesis by simp
  qed (use bucket_large(3) [of len] in \<open>auto simp: bucket_small\<close>)
qed

subsection \<open>Padding and unpadding\<close>

text \<open>The padding length fits its field: the cast to \<open>u32\<close> loses nothing.\<close>

definition padding_of :: "random \<Rightarrow> nat \<Rightarrow> bytes" where
  "padding_of rnd len =
     random_bytes rnd (bucket_size len - len - 4) @ to_le_bytes (word_of_nat (bucket_size len - len))"

lemma length_padding_of: "length (padding_of rnd len) = bucket_size len - len"
  using bucket_size_ge [of len] by (simp add: padding_of_def PAD_LEN_BYTES_def)

lemma pad_message_eq: "pad_message rnd p = Ok (p @ padding_of rnd (length p))"
proof -
  have "\<not> bucket_size (length p) - length p < PAD_LEN_BYTES"
    using bucket_size_ge [of "length p"] by simp
  then show ?thesis
    by (simp add: pad_message_def padding_of_def Let_def PAD_LEN_BYTES_def random_bytes_def)
qed

lemma length_pad_message: "pad_message rnd p = Ok b \<Longrightarrow> length b = bucket_size (length p)"
  using bucket_size_ge [of "length p"] by (auto simp: pad_message_eq length_padding_of)

lemma pad_len_field:
  fixes len :: nat
  defines "k \<equiv> bucket_size len - len"
  shows "unat (word_of_nat k :: u32) = k" "4 \<le> k" "k \<le> 65539"
proof -
  show "4 \<le> k" "k \<le> 65539"
    using bucket_size_ge [of len] bucket_size_le [of len] by (auto simp: k_def PAD_LEN_BYTES_def)
  then show "unat (word_of_nat k :: u32) = k"
    by (simp add: unsigned_of_nat take_bit_nat_eq_self)
qed

lemma nth_suffix: "length a = n \<Longrightarrow> (a @ b) ! (n + i) = b ! i"
  by (simp add: nth_append)

lemma le_suffix:
  fixes p :: bytes and f :: bytes and w :: u32
  defines "b \<equiv> p @ f @ to_le_bytes w"
  defines "n \<equiv> length b - PAD_LEN_BYTES"
  shows "from_le_bytes (b ! n) (b ! (n + 1)) (b ! (n + 2)) (b ! (n + 3)) = w"
proof -
  have n: "length (p @ f) = n" and b: "b = (p @ f) @ to_le_bytes w"
    by (simp_all add: b_def n_def PAD_LEN_BYTES_def)
  have "b ! (n + i) = to_le_bytes w ! i" for i
    unfolding b using n by (rule nth_suffix)
  from this [of 0] this [of 1] this [of 2] this [of 3] show ?thesis
    by (simp add: to_le_bytes_def from_to_le_bytes numeral_2_eq_2 numeral_3_eq_3)
qed

lemma unpad_message_suffix:
  assumes "4 \<le> unat w" "length p + length f + 4 = n" "unat w \<le> n"
  shows "unpad_message (p @ f @ to_le_bytes w) = Ok (take (n - unat w) (p @ f @ to_le_bytes w))"
proof -
  have "length (p @ f @ to_le_bytes w) = n"
    using assms by simp
  then show ?thesis
    unfolding unpad_message_def Let_def le_suffix using assms
    by (simp add: PAD_LEN_BYTES_def del: length_append)
qed

lemma unpad_pad_message: "pad_message rnd p = Ok b \<Longrightarrow> unpad_message b = Ok p"
proof -
  assume "pad_message rnd p = Ok b"
  then have b: "b = p @ random_bytes rnd (bucket_size (length p) - length p - 4)
      @ to_le_bytes (word_of_nat (bucket_size (length p) - length p))"
    by (simp add: pad_message_eq padding_of_def)
  note f = pad_len_field [of "length p"]
  have "length p + (bucket_size (length p) - length p - 4) + 4 = bucket_size (length p)"
    using f(2) by simp
  then show ?thesis
    using f by (simp add: b unpad_message_suffix [of _ _ _ "bucket_size (length p)"])
qed

interpretation padder: length_hiding
  "\<lambda>_ :: unit. True" "\<lambda>_ _. True" "\<lambda>_. pad_message" "\<lambda>_. unpad_message" length length bucket_size
  by unfold_locales (auto simp: unpad_pad_message length_pad_message)

subsection \<open>Properties\<close>

text \<open>The sizes an observer can see: powers of two from 256 to 65536, and multiples of 65536.\<close>

definition buckets :: "nat set" where
  "buckets = (\<lambda>k. 2 ^ k) ` {8 .. 16} \<union> (\<lambda>m. 65536 * m) ` {1 ..}"

lemma bucket_in_buckets: "bucket_size len \<in> buckets"
proof -
  consider "len + 4 \<le> 256" | "256 < len + 4" "len + 4 \<le> 65536" | "65536 < len + 4"
    by linarith
  then show ?thesis
  proof cases
    case 1
    then have "bucket_size len = 2 ^ 8"
      by (simp add: bucket_small)
    moreover have "(2 :: nat) ^ 8 \<in> buckets"
      unfolding buckets_def by (intro UnI1 imageI) simp
    ultimately show ?thesis by metis
  next
    case 2
    then obtain k where "bucket_size len = 2 ^ k" "8 < k" "k \<le> 16"
      by (rule bucket_medium)
    then show ?thesis
      by (simp add: buckets_def)
  next
    case 3
    then have "bucket_size len = 65536 * (bucket_size len div 65536)" "0 < bucket_size len"
      using bucket_large [of len] by auto
    then have "bucket_size len div 65536 \<in> {1 ..}"
      by (cases "bucket_size len div 65536") auto
    with \<open>bucket_size len = 65536 * (bucket_size len div 65536)\<close> show ?thesis
      unfolding buckets_def by blast
  qed
qed

lemma bucket_least:
  assumes "b \<in> buckets" "len + 4 \<le> b"
  shows "bucket_size len \<le> b"
proof -
  have small: "256 \<le> b"
    using assms(1) power_increasing [of 8 _ "2 :: nat"] by (auto simp: buckets_def)
  consider "len + 4 \<le> 256" | "256 < len + 4" "len + 4 \<le> 65536" | "65536 < len + 4"
    by linarith
  then show ?thesis
  proof cases
    case 1
    with small show ?thesis by (simp add: bucket_small)
  next
    case 2
    then obtain k where k: "bucket_size len = 2 ^ k" "k \<le> 16" "2 ^ (k - 1) < len + 4" "8 < k"
      by (rule bucket_medium) blast
    have pow: "(2 :: nat) ^ k \<le> 2 ^ 16"
      using k(2) by (rule power_increasing) simp
    from assms(1) consider j where "b = 2 ^ j" | m where "b = 65536 * m" "1 \<le> m"
      by (auto simp: buckets_def)
    then show ?thesis
    proof cases
      case (1 j)
      with k(3) assms(2) have "(2 :: nat) ^ (k - 1) < 2 ^ j" by linarith
      then have "k - 1 < j"
        by (rule power_less_imp_less_exp [rotated]) simp
      then have "(2 :: nat) ^ k \<le> 2 ^ j"
        by (intro power_increasing) auto
      with k(1) 1 show ?thesis by simp
    next
      case 2
      with k(1) pow show ?thesis by simp
    qed
  next
    case 3
    have "65536 dvd b"
    proof -
      from assms(1) consider j where "b = 2 ^ j" "j \<le> 16" | m where "b = 65536 * m"
        by (auto simp: buckets_def)
      then show ?thesis
      proof cases
        case (1 j)
        from 1(2) have "(2 :: nat) ^ j \<le> 2 ^ 16"
          by (rule power_increasing) simp
        with 1(1) 3 assms(2) show ?thesis by simp
      qed simp
    qed
    with bucket_large(1) [OF 3] have "65536 dvd b" "65536 dvd bucket_size len"
      by auto
    then obtain m n where "b = 65536 * m" "bucket_size len = 65536 * n"
      by (auto elim!: dvdE)
    with bucket_large(3) [OF 3] assms(2) show ?thesis by simp
  qed
qed

text \<open>
  C29: the bucket of a message is the smallest visible size with room for the message and
  its four-byte padding length.
\<close>

theorem bucket_size_smallest: "bucket_size len = (LEAST b. b \<in> buckets \<and> len + PAD_LEN_BYTES \<le> b)"
  by (rule Least_equality [symmetric])
    (use bucket_in_buckets bucket_size_ge bucket_least in \<open>auto simp: PAD_LEN_BYTES_def\<close>)

text \<open>
  C28: padding never fails, the padded size is the bucket of the message's length whatever the
  random fill, and unpadding gives back the message.
\<close>

theorem pad_unpad_total:
  "\<exists>b. pad_message rnd p = Ok b \<and> length b = bucket_size (length p) \<and> unpad_message b = Ok p"
  using unpad_pad_message length_pad_message pad_message_eq by blast

text \<open>
  C30: unpadding accepts exactly the byte strings that end with a fill and its own length
  field, and returns what precedes them.
\<close>

theorem unpad_accepts_exactly:
  "unpad_message b = Ok p \<longleftrightarrow>
     (\<exists>f. b = p @ f @ to_le_bytes (word_of_nat (length f + 4)) \<and> length f + 4 < 2 ^ 32)"
proof
  assume ok: "unpad_message b = Ok p"
  define n where "n = length b - 4"
  define w where "w = from_le_bytes (b ! n) (b ! (n + 1)) (b ! (n + 2)) (b ! (n + 3))"
  from ok have len: "4 \<le> length b" "4 \<le> unat w" "unat w \<le> length b"
    and p: "p = take (length b - unat w) b"
    by (auto simp: unpad_message_def Let_def PAD_LEN_BYTES_def n_def w_def split: if_splits)
  have n4: "length b = n + 4"
    using len by (simp add: n_def)
  have "drop n b = [b ! n, b ! (n + 1), b ! (n + 2), b ! (n + 3)]"
    using n4 by (simp add: Cons_nth_drop_Suc [symmetric] eval_nat_numeral)
  then have suffix: "drop n b = to_le_bytes w"
    by (simp add: w_def to_from_le_bytes)
  define f where "f = take (unat w - 4) (drop (length b - unat w) b)"
  have lf: "length f + 4 = unat w"
    using len by (simp add: f_def)
  have "drop (length b - unat w) b = f @ drop n b"
  proof -
    have "unat w - 4 + (length b - unat w) = n"
      using len n4 by simp
    then have "drop (unat w - 4) (drop (length b - unat w) b) = drop n b"
      by (simp add: drop_drop)
    then show ?thesis
      unfolding f_def by (metis append_take_drop_id)
  qed
  then have "b = p @ f @ to_le_bytes w"
    using p suffix by (metis append_take_drop_id)
  moreover have "unat w < 2 ^ 32"
    using unsigned_less [of w] by simp
  ultimately show "\<exists>f. b = p @ f @ to_le_bytes (word_of_nat (length f + 4)) \<and> length f + 4 < 2 ^ 32"
    using lf by (intro exI [of _ f]) simp
next
  assume "\<exists>f. b = p @ f @ to_le_bytes (word_of_nat (length f + 4)) \<and> length f + 4 < 2 ^ 32"
  then obtain f where b: "b = p @ f @ to_le_bytes (word_of_nat (length f + 4))" and "length f + 4 < 2 ^ 32"
    by blast
  then have "unat (word_of_nat (length f + 4) :: u32) = length f + 4"
    by (intro unat_u32_of_nat)
  then show "unpad_message b = Ok p"
    by (simp add: b unpad_message_suffix [of _ _ _ "length p + length f + 4"] del: of_nat_add)
qed

text \<open>The dummy marker read as a padding length is \<open>u32::MAX\<close>.\<close>

lemma marker_value: "unat (from_le_bytes 0xFF 0xFF 0xFF 0xFF) = 2 ^ 32 - 1"
proof -
  have ones: "(0xFF :: u8) = -1" "(-1 :: u32) = 0xFFFFFFFF"
    by simp_all
  have "from_le_bytes (-1) (-1) (-1) (-1) = -1"
    by (rule bit_word_eqI) (auto simp: from_le_bytes_def bit_simps)
  then have "from_le_bytes 0xFF 0xFF 0xFF 0xFF = 0xFFFFFFFF"
    unfolding ones .
  then show ?thesis by simp
qed

lemma dummy_suffix:
  fixes rnd n
  defines "b \<equiv> generate_dummy_message rnd n"
  defines "m \<equiv> length b - 4"
  shows "length b = max 256 n" "b ! m = 0xFF" "b ! (m + 1) = 0xFF" "b ! (m + 2) = 0xFF" "b ! (m + 3) = 0xFF"
  by (auto simp: b_def m_def generate_dummy_message_def Let_def padding_consts nth_list_update)

lemma padded_not_dummy: "\<not> is_dummy_message (p @ padding_of rnd (length p))"
proof
  let ?k = "bucket_size (length p) - length p"
  let ?b = "p @ random_bytes rnd (?k - 4) @ to_le_bytes (word_of_nat ?k)"
  let ?n = "length ?b - PAD_LEN_BYTES"
  assume "is_dummy_message (p @ padding_of rnd (length p))"
  then have "?b ! ?n = 0xFF" "?b ! (?n + 1) = 0xFF" "?b ! (?n + 2) = 0xFF" "?b ! (?n + 3) = 0xFF"
    unfolding padding_of_def is_dummy_message_def Let_def by (meson if_splits)+
  then have "from_le_bytes 0xFF 0xFF 0xFF 0xFF = (word_of_nat ?k :: u32)"
    using le_suffix [of p "random_bytes rnd (?k - 4)" "word_of_nat ?k"] by simp
  then show False
    using marker_value pad_len_field [of "length p"] by simp
qed

text \<open>
  C31: cover traffic carries the dummy marker at every size, and no padded message carries it.
\<close>

theorem dummy_marker_separates:
  "is_dummy_message (generate_dummy_message rnd n) \<and> length (generate_dummy_message rnd n) = max 256 n \<and>
   (\<exists>b. pad_message rnd' p = Ok b \<and> \<not> is_dummy_message b)"
  using dummy_suffix [of rnd n] padded_not_dummy [of p rnd']
  by (auto simp: is_dummy_message_def Let_def PAD_LEN_BYTES_def pad_message_eq)

text \<open>Unpadding refuses a dummy message of any size below 4 GiB.\<close>

theorem unpad_rejects_dummy:
  "max 256 n < 2 ^ 32 - 1 \<Longrightarrow>
   unpad_message (generate_dummy_message rnd n) = Err (PaddingError ''invalid padding length'')"
  using dummy_suffix [of rnd n] marker_value by (simp add: unpad_message_def Let_def PAD_LEN_BYTES_def)

theorem unpad_rejects_dummy_witness:
  "unpad_message (generate_dummy_message (\<lambda>i. word_of_nat i) 512)
   = Err (PaddingError ''invalid padding length'')"
  by (rule unpad_rejects_dummy) simp

end
