(* ===== verification/Message_Payload.thy ===== *)
theory Message_Payload
  imports Padding
begin

section \<open>Message payloads\<close>

text \<open>
  \<open>crates/vaultex-crypto/src/message_payload.rs\<close>: the structure that is encrypted inside the
  ratchet, its padded wire form, and the check of the group field on receipt.  \<open>serde_json\<close>
  on the payload is a pair of functions with their error texts.
\<close>

definition GROUP_ID_LEN :: nat where "GROUP_ID_LEN = 64"

definition GROUP_ID_PLACEHOLDER :: string where "GROUP_ID_PLACEHOLDER = replicate 64 (CHR ''0'')"

record Attachment =
  at_media_id :: string
  at_file_name :: string
  at_mime_type :: string
  at_file_size :: u64
  at_file_key_hex :: string
  at_thumbnail_base64 :: "string option"

record MessagePayload =
  mp_body :: string
  mp_ttl_seconds :: "u32 option"
  mp_group_id :: "string option"
  mp_media_type :: "string option"
  mp_attachment :: "Attachment option"

type_synonym payload_ser = "MessagePayload \<Rightarrow> string + bytes"
type_synonym payload_de = "bytes \<Rightarrow> string + MessagePayload"

definition mp_new :: "string \<Rightarrow> MessagePayload" where
  "mp_new body = \<lparr>mp_body = body, mp_ttl_seconds = None, mp_group_id = None, mp_media_type = None, mp_attachment = None\<rparr>"

definition mp_with_ttl :: "string \<Rightarrow> u32 \<Rightarrow> MessagePayload" where
  "mp_with_ttl body ttl_seconds =
     \<lparr>mp_body = body, mp_ttl_seconds = Some ttl_seconds, mp_group_id = None, mp_media_type = None, mp_attachment = None\<rparr>"

definition mp_with_attachment :: "string \<Rightarrow> Attachment \<Rightarrow> MessagePayload \<Rightarrow> MessagePayload" where
  "mp_with_attachment media_type attachment p = p\<lparr>mp_media_type := Some media_type, mp_attachment := Some attachment\<rparr>"

definition mp_in_group :: "string \<Rightarrow> MessagePayload \<Rightarrow> MessagePayload" where
  "mp_in_group group_id p = p\<lparr>mp_group_id := Some group_id\<rparr>"

definition mp_to_bytes :: "payload_ser \<Rightarrow> MessagePayload \<Rightarrow> string + bytes" where
  "mp_to_bytes ser p = ser p"

definition mp_from_bytes :: "payload_de \<Rightarrow> bytes \<Rightarrow> string + MessagePayload" where
  "mp_from_bytes de bs = de bs"

definition normalize_group_id :: "MessagePayload \<Rightarrow> MessagePayload \<times> unit result" where
  "normalize_group_id p = (case mp_group_id p of
     None \<Rightarrow> (p, Ok ())
   | Some i \<Rightarrow>
       if i = GROUP_ID_PLACEHOLDER then (p\<lparr>mp_group_id := None\<rparr>, Ok ())
       else if i = [] then (p\<lparr>mp_group_id := None\<rparr>, Ok ())
       else if length i = GROUP_ID_LEN \<and> list_all is_ascii_hexdigit i then (p, Ok ())
       else (p, Err (SerializationError (''invalid group_id: expected '' @ show_nat GROUP_ID_LEN @
                 ''-char hex, got '' @ show_nat (length i) @ '' chars''))))"

definition to_padded_bytes :: "random \<Rightarrow> payload_ser \<Rightarrow> MessagePayload \<Rightarrow> bytes result" where
  "to_padded_bytes rnd ser p =
     (let on_wire = (if mp_group_id p = None then p\<lparr>mp_group_id := Some GROUP_ID_PLACEHOLDER\<rparr> else p) in
      and_then (map_err SerializationError (ser on_wire)) (\<lambda>json.
      pad_message rnd json))"

definition from_padded_bytes :: "payload_de \<Rightarrow> bytes \<Rightarrow> MessagePayload result" where
  "from_padded_bytes de padded =
     and_then (unpad_message padded) (\<lambda>unpadded.
     and_then (map_err SerializationError (de unpadded)) (\<lambda>payload.
     (case normalize_group_id payload of (payload, r) \<Rightarrow> and_then r (\<lambda>_. Ok payload))))"

subsection \<open>The wire form in two layers\<close>

text \<open>A payload that a sender may build: no group, or a real group identifier.\<close>

definition group_ok :: "MessagePayload \<Rightarrow> bool" where
  "group_ok p \<longleftrightarrow> (case mp_group_id p of None \<Rightarrow> True
     | Some i \<Rightarrow> length i = 64 \<and> list_all is_ascii_hexdigit i \<and> i \<noteq> GROUP_ID_PLACEHOLDER)"

definition on_wire :: "MessagePayload \<Rightarrow> MessagePayload" where
  "on_wire p = (if mp_group_id p = None then p\<lparr>mp_group_id := Some GROUP_ID_PLACEHOLDER\<rparr> else p)"

definition json_enc :: "payload_ser \<times> payload_de \<Rightarrow> unit \<Rightarrow> MessagePayload \<Rightarrow> bytes result" where
  "json_enc = (\<lambda>(ser, de) _ p. map_err SerializationError (ser (on_wire p)))"

definition json_dec :: "payload_ser \<times> payload_de \<Rightarrow> bytes \<Rightarrow> MessagePayload result" where
  "json_dec = (\<lambda>(ser, de) b. and_then (map_err SerializationError (de b)) (\<lambda>p.
     case normalize_group_id p of (p, r) \<Rightarrow> and_then r (\<lambda>_. Ok p)))"

lemma padded_layers:
  "to_padded_bytes rnd ser p = layer_enc json_enc (\<lambda>_. pad_message) ((ser, de), ()) ((), rnd) p"
  "from_padded_bytes de b = layer_dec json_dec (\<lambda>_. unpad_message) ((ser, de), ()) b"
  by (simp_all add: to_padded_bytes_def from_padded_bytes_def layer_enc_def layer_dec_def json_enc_def
      json_dec_def on_wire_def Let_def)

lemma placeholder_props: "length GROUP_ID_PLACEHOLDER = 64" "list_all is_ascii_hexdigit GROUP_ID_PLACEHOLDER"
  by (simp_all add: GROUP_ID_PLACEHOLDER_def list_all_iff is_ascii_hexdigit_def)

lemma normalize_on_wire: "group_ok p \<Longrightarrow> normalize_group_id (on_wire p) = (p, Ok ())"
  by (cases "mp_group_id p") (auto simp: group_ok_def on_wire_def normalize_group_id_def GROUP_ID_LEN_def)

interpretation padded: layered
  "\<lambda>(ser, de). \<forall>x b. ser x = Inr b \<longrightarrow> de b = Inr x" "\<lambda>_. group_ok" json_enc json_dec
  "\<lambda>_ :: unit. True" "\<lambda>_ _. True" "\<lambda>_. pad_message" "\<lambda>_. unpad_message"
proof
  fix c :: "payload_ser \<times> payload_de" and p b and r :: unit
  assume "case c of (ser, de) \<Rightarrow> \<forall>x b. ser x = Inr b \<longrightarrow> de b = Inr x" "group_ok p" "json_enc c r p = Ok b"
  then show "json_dec c b = Ok p"
    by (cases c) (auto simp: json_enc_def json_dec_def map_err_eq_Inr normalize_on_wire)
qed simp

lemma size_of_padded:
  "to_padded_bytes rnd ser p = Ok c \<Longrightarrow> \<exists>b. ser (on_wire p) = Inr b \<and> pad_message rnd b = Ok c"
  by (auto simp: to_padded_bytes_def on_wire_def Let_def and_then_eq_Inr map_err_eq_Inr)

lemma padded_payload_opens:
  assumes "\<forall>x b. ser x = Inr b \<longrightarrow> de b = Inr x" "group_ok p" "to_padded_bytes rnd ser p = Ok c"
  shows "from_padded_bytes de c = Ok p"
  unfolding padded_layers(2) [where ser = ser]
  by (rule padded.layers_roundtrip) (use assms in \<open>auto simp: padded_layers(1) [where de = de]\<close>)

subsection \<open>Properties\<close>

text \<open>
  C26: the padded wire form is lossless: whatever the padding bytes, a payload without a group or
  with a real group identifier comes back unchanged, so the placeholder is never visible above
  the wire.
\<close>

theorem payload_roundtrip:
  assumes "\<forall>x b. ser x = Inr b \<longrightarrow> de b = Inr x" "group_ok p" "to_padded_bytes rnd ser p = Ok c"
  shows "from_padded_bytes de c = Ok p"
  by (rule padded_payload_opens [OF assms])

text \<open>A serializer for the witnesses, which keeps the body and the group identifier.\<close>

definition demo_ser_payload :: payload_ser where
  "demo_ser_payload p =
     (if mp_ttl_seconds p = None \<and> mp_media_type p = None \<and> mp_attachment p = None
      then case mp_group_id p of
          None \<Rightarrow> Inr (0 # as_bytes (mp_body p))
        | Some i \<Rightarrow> if length i = 64 then Inr (1 # as_bytes i @ as_bytes (mp_body p)) else Inl ''group''
      else Inl ''unsupported'')"

definition demo_de_payload :: payload_de where
  "demo_de_payload b =
     (if b = [] then Inl ''eof''
      else if hd b = 0 then Inr (mp_new (string_of_bytes (tl b)))
      else Inr (mp_in_group (string_of_bytes (take 64 (tl b))) (mp_new (string_of_bytes (drop 64 (tl b))))))"

lemma demo_payload_serde: "demo_ser_payload x = Inr b \<Longrightarrow> demo_de_payload b = Inr x"
  by (cases x) (auto simp: demo_ser_payload_def demo_de_payload_def mp_new_def mp_in_group_def
      split: option.splits if_splits)

lemma demo_hello_sent: "\<exists>c. to_padded_bytes rnd demo_ser_payload (mp_new ''hello'') = Ok c"
  by (simp add: to_padded_bytes_def demo_ser_payload_def mp_new_def placeholder_props pad_message_eq Let_def)

theorem payload_roundtrip_witness:
  "\<exists>c. to_padded_bytes (\<lambda>_. 7) demo_ser_payload (mp_new ''hello'') = Ok c \<and>
     from_padded_bytes demo_de_payload c = Ok (mp_new ''hello'')"
proof -
  obtain c where c: "to_padded_bytes (\<lambda>_. 7) demo_ser_payload (mp_new ''hello'') = Ok c"
    using demo_hello_sent by blast
  have "group_ok (mp_new ''hello'')"
    by (simp add: group_ok_def mp_new_def)
  with payload_roundtrip [OF _ this c] demo_payload_serde c show ?thesis
    by blast
qed

text \<open>
  C27: direct and group messages are not told apart by size.  The serializer writes a string of
  hexadecimal digits without escapes, so its length depends on the field only through the
  field's length; then the same payload sent to a group or directly has padded forms of equal
  size.
\<close>

theorem group_hidden_by_padding:
  assumes json: "\<And>x i j b b'. list_all is_ascii_hexdigit i \<Longrightarrow> list_all is_ascii_hexdigit j \<Longrightarrow>
      length i = length j \<Longrightarrow> ser (x\<lparr>mp_group_id := Some i\<rparr>) = Inr b \<Longrightarrow>
      ser (x\<lparr>mp_group_id := Some j\<rparr>) = Inr b' \<Longrightarrow> length b = length b'"
    and "mp_group_id p = None" "length g = 64" "list_all is_ascii_hexdigit g"
    and "to_padded_bytes rnd ser p = Ok c" "to_padded_bytes rnd' ser (mp_in_group g p) = Ok c'"
  shows "length c = length c'"
proof -
  obtain b b' where b: "ser (on_wire p) = Inr b" "pad_message rnd b = Ok c"
    "ser (on_wire (mp_in_group g p)) = Inr b'" "pad_message rnd' b' = Ok c'"
    using size_of_padded assms(5,6) by blast
  then have "ser (p\<lparr>mp_group_id := Some GROUP_ID_PLACEHOLDER\<rparr>) = Inr b" "ser (p\<lparr>mp_group_id := Some g\<rparr>) = Inr b'"
    by (simp_all add: on_wire_def mp_in_group_def assms(2))
  then have "length b = length b'"
    using json [of GROUP_ID_PLACEHOLDER g p b b'] assms(3,4) by (simp add: placeholder_props)
  with b(2,4) show ?thesis
    by (intro padder.same_bucket_same_size [of rnd b c rnd' b' c']) simp_all
qed

theorem group_hidden_by_padding_witness:
  "\<exists>c c'. to_padded_bytes (\<lambda>_. 7) demo_ser_payload (mp_new ''hello'') = Ok c \<and>
     to_padded_bytes (\<lambda>_. 9) demo_ser_payload (mp_in_group (replicate 64 (CHR ''a'')) (mp_new ''hello'')) = Ok c' \<and>
     length c = length c'"
proof -
  let ?g = "replicate 64 (CHR ''a'')"
  obtain c where c: "to_padded_bytes (\<lambda>_. 7) demo_ser_payload (mp_new ''hello'') = Ok c"
    using demo_hello_sent by blast
  obtain c' where c': "to_padded_bytes (\<lambda>_. 9) demo_ser_payload (mp_in_group ?g (mp_new ''hello'')) = Ok c'"
    by (auto simp: to_padded_bytes_def demo_ser_payload_def mp_new_def mp_in_group_def pad_message_eq Let_def)
  have "length c = length c'"
  proof (rule group_hidden_by_padding [OF _ _ _ _ c c'])
    show "length b = length b'"
      if "length i = length j" "demo_ser_payload (x\<lparr>mp_group_id := Some i\<rparr>) = Inr b"
        "demo_ser_payload (x\<lparr>mp_group_id := Some j\<rparr>) = Inr b'" for x i j b b'
      using that by (auto simp: demo_ser_payload_def split: if_splits)
  qed (simp_all add: mp_new_def list_all_iff is_ascii_hexdigit_def)
  with c c' show ?thesis by blast
qed

text \<open>
  On receipt the group field decides: absent, empty and placeholder become no group, 64
  hexadecimal digits are kept, and anything else is rejected, so no other text reaches the
  routing of messages.
\<close>

theorem received_group_checked:
  assumes "unpad_message b = Ok json" "de json = Inr p"
  shows "from_padded_bytes de b =
    (if mp_group_id p \<in> {None, Some [], Some GROUP_ID_PLACEHOLDER} then Ok (p\<lparr>mp_group_id := None\<rparr>)
     else if length (the (mp_group_id p)) = 64 \<and> list_all is_ascii_hexdigit (the (mp_group_id p)) then Ok p
     else Err (SerializationError (''invalid group_id: expected 64-char hex, got '' @
       show_nat (length (the (mp_group_id p))) @ '' chars'')))"
proof -
  define msg where "msg t = ''invalid group_id: expected 64-char hex, got '' @ t @ '' chars''" for t
  have msg: "''invalid group_id: expected '' @ show_nat GROUP_ID_LEN @ ''-char hex, got '' @ t @ '' chars'' = msg t" for t
    by (simp add: msg_def GROUP_ID_LEN_def show_nat.simps digit_char_def char_of_def bit_0)
  have from_p: "from_padded_bytes de b = (case normalize_group_id p of (p, r) \<Rightarrow> and_then r (\<lambda>_. Ok p))"
    using assms by (simp add: from_padded_bytes_def)
  have "from_padded_bytes de b =
    (if mp_group_id p \<in> {None, Some [], Some GROUP_ID_PLACEHOLDER} then Ok (p\<lparr>mp_group_id := None\<rparr>)
     else if length (the (mp_group_id p)) = 64 \<and> list_all is_ascii_hexdigit (the (mp_group_id p)) then Ok p
     else Err (SerializationError (msg (show_nat (length (the (mp_group_id p)))))))"
  proof (cases "mp_group_id p")
    case None
    moreover from None have "p\<lparr>mp_group_id := None\<rparr> = p"
      by (cases p) simp
    ultimately show ?thesis
      by (simp add: from_p normalize_group_id_def)
  next
    case (Some i)
    then show ?thesis
      unfolding from_p normalize_group_id_def msg by (simp add: GROUP_ID_LEN_def)
  qed
  then show ?thesis
    by (simp only: msg_def)
qed

theorem received_group_checked_witness:
  "from_padded_bytes (\<lambda>b. Inr (mp_in_group ''../evil'' (mp_new ''hi''))) [8, 9, 4, 0, 0, 0] =
     Err (SerializationError (''invalid group_id: expected 64-char hex, got '' @ show_nat (length ''../evil'') @ '' chars''))"
proof -
  have ne: "''../evil'' \<noteq> GROUP_ID_PLACEHOLDER"
    by (rule notI, drule arg_cong [of _ _ length]) (simp add: placeholder_props)
  have "unpad_message [8, 9, 4, 0, 0, 0] = Ok [8, 9]"
    by (simp add: unpad_message_def PAD_LEN_BYTES_def from_le_bytes_def Let_def)
  from received_group_checked [OF this, of "\<lambda>b. Inr (mp_in_group ''../evil'' (mp_new ''hi''))"]
  show ?thesis
    using ne by (simp add: mp_in_group_def mp_new_def)
qed

end
