(* ===== verification/Media.thy ===== *)
theory Media
  imports Demo_Prims Interfaces
begin

section \<open>Media files\<close>

text \<open>
  \<open>crates/vaultex-crypto/src/media.rs\<close>: a file is sealed with a fresh key and nonce (both
  arguments here) and the nonce is prepended.
\<close>

definition MAX_FILE_SIZE :: nat where "MAX_FILE_SIZE = 100 * 1024 * 1024"

definition SECRETBOX_NONCEBYTES :: nat where "SECRETBOX_NONCEBYTES = 24"

definition SECRETBOX_MACBYTES :: nat where "SECRETBOX_MACBYTES = 16"

definition SECRETBOX_KEYBYTES :: nat where "SECRETBOX_KEYBYTES = 32"

lemmas secretbox_consts = SECRETBOX_NONCEBYTES_def SECRETBOX_MACBYTES_def SECRETBOX_KEYBYTES_def

record FileMetadata =
  fm_filename :: string
  fm_mime_type :: string
  fm_size :: u64
  fm_thumbnail :: "string option"

definition encrypt_file :: "prims \<Rightarrow> bytes \<Rightarrow> bytes \<Rightarrow> bytes \<Rightarrow> (bytes \<times> bytes) result" where
  "encrypt_file P key nonce plaintext =
     (if MAX_FILE_SIZE < length plaintext then Err EncryptionFailed
      else if \<not> sodium_init P then Err InitFailed
      else Ok (nonce @ secretbox_seal P plaintext nonce key, key))"

definition decrypt_file :: "prims \<Rightarrow> bytes \<Rightarrow> bytes \<Rightarrow> bytes result" where
  "decrypt_file P ciphertext key =
     (if length ciphertext < SECRETBOX_NONCEBYTES + SECRETBOX_MACBYTES then Err DecryptionFailed
      else
        and_then (ok_or (from_slice P SECRETBOX_NONCEBYTES (take SECRETBOX_NONCEBYTES ciphertext)) DecryptionFailed) (\<lambda>nonce.
        and_then (ok_or (from_slice P SECRETBOX_KEYBYTES key) (InvalidKeyLength SECRETBOX_KEYBYTES (length key))) (\<lambda>secret_key.
        ok_or (secretbox_open P (drop SECRETBOX_NONCEBYTES ciphertext) nonce secret_key) DecryptionFailed)))"

record FileEncryptionKey =
  fek_key :: bytes

definition fek_new :: "bytes \<Rightarrow> FileEncryptionKey" where
  "fek_new key = \<lparr>fek_key = key\<rparr>"

definition fek_as_bytes :: "FileEncryptionKey \<Rightarrow> bytes" where
  "fek_as_bytes k = fek_key k"

definition fek_zeroize :: "FileEncryptionKey \<Rightarrow> FileEncryptionKey" where
  "fek_zeroize k = k\<lparr>fek_key := zeroed (fek_key k)\<rparr>"

subsection \<open>The channel of one file key\<close>

fun media_ok :: "prims \<times> bytes \<Rightarrow> bool" where
  "media_ok (P, key) \<longleftrightarrow> slices_ok P \<and> secretbox_ok P \<and> sodium_init P \<and> length key = 32"

fun media_seal :: "prims \<times> bytes \<Rightarrow> bytes \<Rightarrow> bytes \<Rightarrow> bytes result" where
  "media_seal (P, key) nonce p = and_then (encrypt_file P key nonce p)
     (\<lambda>(output, _). if length nonce = 24 then Ok output else Err EncryptionFailed)"

fun media_open :: "prims \<times> bytes \<Rightarrow> bytes \<Rightarrow> bytes result" where
  "media_open (P, key) c = decrypt_file P c key"

lemma secretbox_laws:
  assumes "secretbox_ok P"
  shows "secretbox_open P (secretbox_seal P m n k) n k = Some m"
    and "length (secretbox_seal P m n k) = length m + 16"
  using assms by (simp_all add: secretbox_ok_def)

lemma decrypt_sealed_file:
  assumes "slices_ok P" "secretbox_ok P" "length key = 32" "length nonce = 24"
  shows "decrypt_file P (nonce @ secretbox_seal P p nonce key) key = Ok p"
  using assms by (simp add: decrypt_file_def from_slice_eq secretbox_consts secretbox_laws)

interpretation media: sealed_channel media_ok "\<lambda>c p. length p \<le> MAX_FILE_SIZE" media_seal media_open
  "\<lambda>c nonce. length nonce = 24"
proof
  fix c :: "prims \<times> bytes" and a b r :: bytes
  assume ok: "media_ok c" "length a \<le> MAX_FILE_SIZE"
  show "media_open c b = Ok a" if "media_seal c r a = Ok b"
    using ok that
    by (cases c) (auto simp: encrypt_file_def and_then_eq_Inr decrypt_sealed_file split: if_splits)
  show "\<exists>b. media_seal c r a = Ok b" if "length r = 24"
    using ok that by (cases c) (auto simp: encrypt_file_def)
qed

subsection \<open>Properties\<close>

text \<open>
  C37: a file of at most 100 MiB is always encrypted, to 40 bytes more than its size, and
  decrypts to itself with the key that was returned; a larger file is always refused, and so
  is every input too short to hold a nonce and a tag.
\<close>

theorem media_roundtrip:
  assumes "slices_ok P" "secretbox_ok P" "sodium_init P" "length key = 32" "length nonce = 24"
  shows "(if length p \<le> 100 * 1024 * 1024
      then \<exists>c. encrypt_file P key nonce p = Ok (c, key) \<and> length c = length p + 40 \<and>
        decrypt_file P c key = Ok p
      else encrypt_file P key nonce p = Err EncryptionFailed) \<and>
    (length c' < 40 \<longrightarrow> decrypt_file P c' key = Err DecryptionFailed)"
proof (cases "length p \<le> 100 * 1024 * 1024")
  case True
  with assms have c: "media_ok (P, key)" "length p \<le> MAX_FILE_SIZE"
    by (simp_all add: MAX_FILE_SIZE_def)
  obtain c where "media_seal (P, key) nonce p = Ok c" "media_open (P, key) c = Ok p"
    by (rule media.delivers [OF c assms(5)])
  moreover from this(1) have "encrypt_file P key nonce p = Ok (c, key)" "length c = length p + 40"
    using assms(5) by (auto simp: encrypt_file_def and_then_eq_Inr secretbox_laws [OF assms(2)] split: if_splits)
  ultimately show ?thesis
    using True by (auto simp: decrypt_file_def secretbox_consts)
next
  case False
  then show ?thesis
    by (simp add: encrypt_file_def decrypt_file_def MAX_FILE_SIZE_def secretbox_consts)
qed

theorem media_roundtrip_witness:
  "\<exists>c. encrypt_file demo_prims (replicate 32 1) (replicate 24 2) [1, 2, 3] = Ok (c, replicate 32 1) \<and>
     length c = 43 \<and> decrypt_file demo_prims c (replicate 32 1) = Ok [1, 2, 3] \<and>
     decrypt_file demo_prims [7] (replicate 32 1) = Err DecryptionFailed"
  using media_roundtrip [OF demo_laws(1,9,14), of "replicate 32 1" "replicate 24 2" "[1, 2, 3]" "[7]"]
  by simp

end
