(* ===== verification/Sealed_Sender.thy ===== *)
theory Sealed_Sender
  imports Identity Interfaces
begin

section \<open>Sealed sender and identity boxes\<close>

text \<open>
  \<open>crates/vaultex-crypto/src/sealed_sender.rs\<close>: the envelope that hides the sender from
  the server, and the authenticated box between two identities used for call signalling.
  What \<open>sealedbox::seal\<close> draws, and the nonce, are arguments; \<open>serde_json\<close> on the
  envelope is a pair of functions with their error texts.
\<close>

record SealedSenderEnvelope =
  env_encrypted_sender :: bytes
  env_encrypted_message :: bytes

definition seal_envelope ::
    "prims \<Rightarrow> (SealedSenderEnvelope \<Rightarrow> string + bytes) \<Rightarrow> bytes \<times> bytes \<Rightarrow> string \<Rightarrow> bytes \<Rightarrow> bytes \<Rightarrow> bytes result" where
  "seal_envelope P ser rnd sender_identity_key_hex message recipient_public_key =
     (if \<not> sodium_init P then Err InitFailed
      else
        let encrypted_sender = sealedbox_seal P (fst rnd) (as_bytes sender_identity_key_hex) recipient_public_key;
            encrypted_message = sealedbox_seal P (snd rnd) message recipient_public_key
        in map_err SealedSenderError
             (ser \<lparr>env_encrypted_sender = encrypted_sender, env_encrypted_message = encrypted_message\<rparr>))"

definition unseal_envelope ::
    "prims \<Rightarrow> (bytes \<Rightarrow> string + SealedSenderEnvelope) \<Rightarrow> bytes \<Rightarrow> bytes \<Rightarrow> bytes \<Rightarrow> (string \<times> bytes) result" where
  "unseal_envelope P de envelope_bytes recipient_pk recipient_sk =
     and_then (map_err SealedSenderError (de envelope_bytes)) (\<lambda>envelope.
     and_then (ok_or (sealedbox_open P (env_encrypted_sender envelope) recipient_pk recipient_sk)
         (SealedSenderError ''failed to decrypt sender identity'')) (\<lambda>sender_bytes.
     and_then (ok_or (from_utf8 sender_bytes) (SealedSenderError (from_utf8_error_text sender_bytes))) (\<lambda>sender_hex.
     and_then (ok_or (sealedbox_open P (env_encrypted_message envelope) recipient_pk recipient_sk)
         (SealedSenderError ''failed to decrypt message'')) (\<lambda>message.
     Ok (sender_hex, message)))))"

subsection \<open>The box between two identities\<close>

definition BOX_NONCEBYTES :: nat where "BOX_NONCEBYTES = 24"

definition ed25519_pk_to_box :: "prims \<Rightarrow> bytes \<Rightarrow> bytes result" where
  "ed25519_pk_to_box P pk =
     and_then (ok_or (ed_pk_to_curve P pk) (SealedSenderError ''ed25519->x25519 public key conversion failed'')) (\<lambda>curve.
     ok_or (from_slice P 32 curve) (SealedSenderError ''invalid converted x25519 public key''))"

definition ed25519_sk_to_box :: "prims \<Rightarrow> bytes \<Rightarrow> bytes result" where
  "ed25519_sk_to_box P sk =
     and_then (ok_or (ed_sk_to_curve P sk) (SealedSenderError ''ed25519->x25519 secret key conversion failed'')) (\<lambda>curve.
     ok_or (from_slice P 32 curve) (SealedSenderError ''invalid converted x25519 secret key''))"

definition encrypt_to_identity :: "prims \<Rightarrow> bytes \<Rightarrow> IdentityKeyPair \<Rightarrow> bytes \<Rightarrow> bytes \<Rightarrow> bytes result" where
  "encrypt_to_identity P nonce sender_identity recipient_identity_pk plaintext =
     (if \<not> sodium_init P then Err InitFailed
      else
        and_then (ed25519_sk_to_box P (ik_secret_key sender_identity)) (\<lambda>sender_sk.
        and_then (ed25519_pk_to_box P recipient_identity_pk) (\<lambda>recipient_pk.
        Ok (nonce @ box_seal P plaintext nonce recipient_pk sender_sk))))"

definition decrypt_from_identity :: "prims \<Rightarrow> IdentityKeyPair \<Rightarrow> bytes \<Rightarrow> bytes \<Rightarrow> bytes result" where
  "decrypt_from_identity P recipient_identity sender_identity_pk sealed =
     (if \<not> sodium_init P then Err InitFailed
      else if length sealed < BOX_NONCEBYTES
      then Err (SealedSenderError ''sealed call payload too short for nonce'')
      else
        and_then (ok_or (from_slice P BOX_NONCEBYTES (take BOX_NONCEBYTES sealed)) (SealedSenderError ''invalid nonce'')) (\<lambda>nonce.
        and_then (ed25519_pk_to_box P sender_identity_pk) (\<lambda>sender_pk.
        and_then (ed25519_sk_to_box P (ik_secret_key recipient_identity)) (\<lambda>recipient_sk.
        ok_or (box_open P (drop BOX_NONCEBYTES sealed) nonce sender_pk recipient_sk)
          (SealedSenderError ''failed to authenticate/decrypt call payload'')))))"

subsection \<open>The channels\<close>

lemma converted_box_keys:
  assumes "slices_ok P" "dh_ok P" "convert_ok P" "identity_ok P ik"
  obtains cpk csk where "ed25519_pk_to_box P (ik_public_key ik) = Ok cpk"
    "ed25519_sk_to_box P (ik_secret_key ik) = Ok csk" "box_keypair P cpk csk"
proof -
  obtain cpk csk where c: "ed_pk_to_curve P (ik_public_key ik) = Some cpk"
      "ed_sk_to_curve P (ik_secret_key ik) = Some csk" "box_keypair P cpk csk"
    using assms(4) by (auto simp: identity_ok_def intro: converted_keypair [OF assms(3)])
  then show ?thesis
    using keypair_lengths [OF assms(2) c(3)]
    by (intro that [OF _ _ c(3)])
      (simp_all add: ed25519_pk_to_box_def ed25519_sk_to_box_def from_slice_eq [OF assms(1)])
qed

type_synonym box_context = "prims \<times> IdentityKeyPair \<times> IdentityKeyPair"

fun box_context_ok :: "box_context \<Rightarrow> bool" where
  "box_context_ok (P, sender, recipient) \<longleftrightarrow> slices_ok P \<and> dh_ok P \<and> convert_ok P \<and> box_ok P \<and>
     sodium_init P \<and> identity_ok P sender \<and> identity_ok P recipient"

fun box_enc :: "box_context \<Rightarrow> bytes \<Rightarrow> bytes \<Rightarrow> bytes result" where
  "box_enc (P, sender, recipient) nonce p =
     (if length nonce = 24 then encrypt_to_identity P nonce sender (ik_public_key recipient) p
      else Err EncryptionFailed)"

fun box_dec :: "box_context \<Rightarrow> bytes \<Rightarrow> bytes result" where
  "box_dec (P, sender, recipient) c = decrypt_from_identity P recipient (ik_public_key sender) c"

interpretation identity_box: sealed_channel box_context_ok "\<lambda>_ _. True" box_enc box_dec
  "\<lambda>_ nonce. length nonce = 24"
proof
  fix c :: box_context and p b nonce :: bytes
  obtain P sender recipient where c: "c = (P, sender, recipient)"
    by (cases c) auto
  assume ok: "box_context_ok c"
  then have laws: "slices_ok P" "dh_ok P" "convert_ok P" "box_ok P" "sodium_init P"
    and ids: "identity_ok P sender" "identity_ok P recipient"
    by (simp_all add: c)
  obtain spk ssk where s: "ed25519_pk_to_box P (ik_public_key sender) = Ok spk"
    "ed25519_sk_to_box P (ik_secret_key sender) = Ok ssk" "box_keypair P spk ssk"
    by (rule converted_box_keys [OF laws(1-3) ids(1)])
  obtain rpk rsk where r: "ed25519_pk_to_box P (ik_public_key recipient) = Ok rpk"
    "ed25519_sk_to_box P (ik_secret_key recipient) = Ok rsk" "box_keypair P rpk rsk"
    by (rule converted_box_keys [OF laws(1-3) ids(2)])
  have opens: "box_open P (box_seal P p nonce rpk ssk) nonce spk rsk = Some p"
    using laws(4) s(3) r(3) by (simp add: box_ok_def)
  show "box_dec c b = Ok p" if "box_enc c nonce p = Ok b"
    using that s r opens laws
    by (auto simp: c encrypt_to_identity_def decrypt_from_identity_def from_slice_eq BOX_NONCEBYTES_def
        split: if_splits)
  show "\<exists>b. box_enc c nonce p = Ok b" if "length nonce = 24"
    using that s r laws by (simp add: c encrypt_to_identity_def)
qed

type_synonym envelope_context =
  "prims \<times> (SealedSenderEnvelope \<Rightarrow> string + bytes) \<times> (bytes \<Rightarrow> string + SealedSenderEnvelope) \<times> bytes \<times> bytes"

fun envelope_ok :: "envelope_context \<Rightarrow> bool" where
  "envelope_ok (P, ser, de, pk, sk) \<longleftrightarrow> sealedbox_ok P \<and> sodium_init P \<and> box_keypair P pk sk \<and>
     (\<forall>x. \<exists>b. ser x = Inr b \<and> de b = Inr x)"

fun envelope_enc :: "envelope_context \<Rightarrow> bytes \<times> bytes \<Rightarrow> string \<times> bytes \<Rightarrow> bytes result" where
  "envelope_enc (P, ser, de, pk, sk) rnd (sender, message) = seal_envelope P ser rnd sender message pk"

fun envelope_dec :: "envelope_context \<Rightarrow> bytes \<Rightarrow> (string \<times> bytes) result" where
  "envelope_dec (P, ser, de, pk, sk) b = unseal_envelope P de b pk sk"

lemma envelope_delivers:
  assumes "sealedbox_ok P" "sodium_init P" "box_keypair P pk sk" "utf8_valid (as_bytes sender)"
    and "\<And>x. \<exists>b. ser x = Inr b \<and> de b = Inr x"
  obtains b where "seal_envelope P ser rnd sender message pk = Ok b" "unseal_envelope P de b pk sk = Ok (sender, message)"
proof -
  let ?e = "\<lparr>env_encrypted_sender = sealedbox_seal P (fst rnd) (as_bytes sender) pk,
    env_encrypted_message = sealedbox_seal P (snd rnd) message pk\<rparr>"
  obtain b where b: "ser ?e = Inr b" "de b = Inr ?e"
    using assms(5) by blast
  have opens: "sealedbox_open P (sealedbox_seal P r m pk) pk sk = Some m" for r m
    using assms(1,3) by (simp add: sealedbox_ok_def)
  show ?thesis
    by (rule that [of b])
      (simp_all add: seal_envelope_def unseal_envelope_def assms(2) b opens from_utf8_as_bytes assms(4) Let_def)
qed

interpretation envelope: sealed_channel envelope_ok "\<lambda>_ (sender, _). utf8_valid (as_bytes sender)"
  envelope_enc envelope_dec "\<lambda>_ _. True"
proof
  fix c :: envelope_context and a :: "string \<times> bytes" and b r
  obtain P ser de pk sk where c: "c = (P, ser, de, pk, sk)"
    by (cases c) auto
  obtain sender message where a: "a = (sender, message)"
    by (cases a)
  assume "envelope_ok c" "case a of (sender, _) \<Rightarrow> utf8_valid (as_bytes sender)"
  then obtain b' where "seal_envelope P ser r sender message pk = Ok b'"
    "unseal_envelope P de b' pk sk = Ok (sender, message)"
    using envelope_delivers [of P pk sk sender ser de r message] by (auto simp: c a)
  then show "\<exists>b. envelope_enc c r a = Ok b" "envelope_enc c r a = Ok b \<Longrightarrow> envelope_dec c b = Ok a"
    by (simp_all add: c a)
qed

subsection \<open>Properties\<close>

text \<open>
  C35: a sealed sender envelope always opens, with the recipient's keys, to the sender's identity
  string and the message that were sealed, whatever randomness was drawn.
\<close>

theorem sealed_sender_roundtrip:
  assumes "sealedbox_ok P" "sodium_init P" "box_keypair P pk sk" "utf8_valid (as_bytes sender)"
    and "\<forall>x. \<exists>b. ser x = Inr b \<and> de b = Inr x"
  shows "\<exists>b. seal_envelope P ser rnd sender message pk = Ok b \<and>
    unseal_envelope P de b pk sk = Ok (sender, message)"
proof -
  have "envelope_ok (P, ser, de, pk, sk)"
    using assms by simp
  from envelope.delivers [OF this, of "(sender, message)" rnd] assms(4) show ?thesis
    by auto
qed

definition demo_ser_env :: "SealedSenderEnvelope \<Rightarrow> string + bytes" where
  "demo_ser_env e = Inr (replicate (length (env_encrypted_sender e)) 1 @ 0 #
     env_encrypted_sender e @ env_encrypted_message e)"

definition demo_de_env :: "bytes \<Rightarrow> string + SealedSenderEnvelope" where
  "demo_de_env b = (let n = length (takeWhile ((=) 1) b); r = drop (n + 1) b in
     Inr \<lparr>env_encrypted_sender = take n r, env_encrypted_message = drop n r\<rparr>)"

lemma demo_serde_env: "demo_ser_env e = Inr b \<Longrightarrow> demo_de_env b = Inr e"
proof -
  assume b: "demo_ser_env e = Inr b"
  have "takeWhile ((=) (1 :: u8)) (replicate n 1 @ 0 # r) = replicate n 1" for n r
    by (induction n) auto
  with b show ?thesis
    by (auto simp: demo_ser_env_def demo_de_env_def Let_def)
qed

theorem sealed_sender_roundtrip_witness:
  "\<exists>b. seal_envelope demo_prims demo_ser_env ([1], [2]) ''ab12'' [7, 8, 9] (replicate 32 3) = Ok b \<and>
     unseal_envelope demo_prims demo_de_env b (replicate 32 3) (replicate 32 3) = Ok (''ab12'', [7, 8, 9])"
proof (rule sealed_sender_roundtrip)
  show "box_keypair demo_prims (replicate 32 3) (replicate 32 3)"
    by (simp add: demo_prims_def)
  show "utf8_valid (as_bytes ''ab12'')"
    by code_simp
  show "\<forall>x. \<exists>b. demo_ser_env x = Inr b \<and> demo_de_env b = Inr x"
    using demo_serde_env by (metis demo_ser_env_def)
qed (simp_all add: demo_laws)

text \<open>
  C36: a call payload sealed from one identity to another always opens for the recipient under the
  sender's identity key to the same payload; an input shorter than a nonce is refused.
\<close>

theorem identity_box_roundtrip:
  assumes "slices_ok P" "dh_ok P" "convert_ok P" "box_ok P" "sodium_init P"
    and "identity_ok P sender" "identity_ok P recipient" "length nonce = 24"
  shows "(\<exists>c. encrypt_to_identity P nonce sender (ik_public_key recipient) p = Ok c \<and>
      decrypt_from_identity P recipient (ik_public_key sender) c = Ok p) \<and>
    (length c' < 24 \<longrightarrow> decrypt_from_identity P recipient (ik_public_key sender) c' =
      Err (SealedSenderError ''sealed call payload too short for nonce''))"
proof -
  have "box_context_ok (P, sender, recipient)"
    using assms by simp
  then obtain c where "box_enc (P, sender, recipient) nonce p = Ok c" "box_dec (P, sender, recipient) c = Ok p"
    by (rule identity_box.delivers [OF _ TrueI assms(8)])
  then have "encrypt_to_identity P nonce sender (ik_public_key recipient) p = Ok c"
    "decrypt_from_identity P recipient (ik_public_key sender) c = Ok p"
    by (simp_all add: assms(8))
  moreover have "decrypt_from_identity P recipient (ik_public_key sender) c' =
      Err (SealedSenderError ''sealed call payload too short for nonce'')" if "length c' < 24"
    using that assms(5) by (simp add: decrypt_from_identity_def BOX_NONCEBYTES_def)
  ultimately show ?thesis
    by blast
qed

theorem identity_box_roundtrip_witness:
  "(\<exists>c. encrypt_to_identity demo_prims (replicate 24 5)
        \<lparr>ik_public_key = replicate 32 1, ik_secret_key = replicate 64 1\<rparr> (replicate 32 2) [1, 2, 3] = Ok c \<and>
      decrypt_from_identity demo_prims \<lparr>ik_public_key = replicate 32 2, ik_secret_key = replicate 64 2\<rparr>
        (replicate 32 1) c = Ok [1, 2, 3])"
proof -
  let ?a = "\<lparr>ik_public_key = replicate 32 1, ik_secret_key = replicate 64 1\<rparr>"
  let ?b = "\<lparr>ik_public_key = replicate 32 2, ik_secret_key = replicate 64 2\<rparr>"
  have "identity_ok demo_prims ?a" "identity_ok demo_prims ?b"
    by (simp_all add: identity_ok_def demo_prims_def)
  from identity_box_roundtrip [OF demo_laws(1,2,4,10,14) this, of "replicate 24 5" "[1, 2, 3]"]
  show ?thesis by simp
qed

end
