(* ===== verification/Safety_Number.thy ===== *)
theory Safety_Number
  imports Demo_Prims
begin

section \<open>Safety numbers\<close>

text \<open>
  \<open>crates/vaultex-crypto/src/safety_number.rs\<close>: the twelve groups of five digits that two
  users compare.  Slices are compared lexicographically, which is the order of
  \<open>List_Lexorder\<close> on lists of bytes.
\<close>

definition NUM_GROUPS :: nat where "NUM_GROUPS = 12"

definition BYTES_PER_GROUP :: nat where "BYTES_PER_GROUP = 2"

definition generate_safety_number :: "prims \<Rightarrow> bytes \<Rightarrow> bytes \<Rightarrow> string" where
  "generate_safety_number P our_identity_key their_identity_key =
     (case (if our_identity_key \<le> their_identity_key then (our_identity_key, their_identity_key)
            else (their_identity_key, our_identity_key)) of
        (first, second) \<Rightarrow>
          let hash = sha256 P (first @ second);
              groups = map (\<lambda>i.
                let offset = i * BYTES_PER_GROUP;
                    value = (ucast (from_be_bytes (hash ! offset) (hash ! (offset + 1))) :: u32)
                in pad_zeros 5 (show_nat (unat (value mod 100000)))) [0 ..< NUM_GROUPS]
          in join '' '' groups)"

definition generate_safety_number_from_hex :: "prims \<Rightarrow> string \<Rightarrow> string \<Rightarrow> string result" where
  "generate_safety_number_from_hex P our_identity_key_hex their_identity_key_hex =
     and_then (ok_or (hex_decode P our_identity_key_hex) (InvalidKeyLength 32 0)) (\<lambda>our_key.
     and_then (ok_or (hex_decode P their_identity_key_hex) (InvalidKeyLength 32 0)) (\<lambda>their_key.
     if length our_key \<noteq> 32 then Err (InvalidKeyLength 32 (length our_key))
     else if length their_key \<noteq> 32 then Err (InvalidKeyLength 32 (length their_key))
     else Ok (generate_safety_number P our_key their_key)))"

subsection \<open>Groups of digits\<close>

text \<open>The group that two bytes are shown as, and the list of pairs of a hash.\<close>

definition digit_group :: "u8 \<times> u8 \<Rightarrow> string" where
  "digit_group p = pad_zeros 5 (show_nat (unat (from_be_bytes (fst p) (snd p))))"

definition hash_pairs :: "bytes \<Rightarrow> (u8 \<times> u8) list" where
  "hash_pairs h = map (\<lambda>i. (h ! (i * 2), h ! (i * 2 + 1))) [0 ..< 12]"

definition sorted_keys :: "bytes \<Rightarrow> bytes \<Rightarrow> bytes" where
  "sorted_keys a b = (if a \<le> b then a @ b else b @ a)"

lemma unat_u16_below: "unat (w :: u16) < 65536"
  using unsigned_less [of w, where 'a = nat] by simp

text \<open>A 16-bit value is below the modulus, so reducing it changes nothing.\<close>

lemma mod_of_u16: "unat ((ucast (w :: u16) :: u32) mod 100000) = unat w"
  using unat_u16_below [of w] by (simp add: unat_mod unsigned_ucast_eq take_bit_nat_eq_self)

lemma safety_number_eq:
  "generate_safety_number P a b = join '' '' (map digit_group (hash_pairs (sha256 P (sorted_keys a b))))"
  by (simp add: generate_safety_number_def sorted_keys_def hash_pairs_def digit_group_def mod_of_u16
      NUM_GROUPS_def BYTES_PER_GROUP_def Let_def comp_def)

lemma digits_value_pad_zeros: "digits_value (pad_zeros w s) = digits_value s"
proof -
  have "foldl (\<lambda>a c. 10 * a + digit_value c) 0 (replicate k (CHR ''0'') @ s) =
      foldl (\<lambda>a c. 10 * a + digit_value c) 0 s" for k
    by (induction k) (simp_all add: digit_value_def)
  then show ?thesis
    by (simp add: digits_value_def pad_zeros_def)
qed

lemma digit_group_props:
  "length (digit_group p) = 5" "list_all is_digit (digit_group p)"
  "digits_value (digit_group p) = unat (from_be_bytes (fst p) (snd p))"
proof -
  have "unat (from_be_bytes (fst p) (snd p)) < 10 ^ Suc 4"
    using unat_u16_below [of "from_be_bytes (fst p) (snd p)"] by simp
  from length_show_nat [OF this] show "length (digit_group p) = 5"
    by (simp add: digit_group_def pad_zeros_def)
  show "list_all is_digit (digit_group p)"
    using show_nat_digits by (auto simp: digit_group_def pad_zeros_def list_all_iff is_digit_def)
  show "digits_value (digit_group p) = unat (from_be_bytes (fst p) (snd p))"
    by (simp add: digit_group_def digits_value_pad_zeros digits_value_show_nat)
qed

lemma from_be_bytes_inject: "from_be_bytes a b = from_be_bytes c d \<longleftrightarrow> a = c \<and> b = d"
proof
  assume eq: "from_be_bytes a b = from_be_bytes c d"
  have hi: "ucast (drop_bit 8 (from_be_bytes x y)) = x" and lo: "ucast (from_be_bytes x y) = y" for x y
    by (rule bit_word_eqI, auto simp: from_be_bytes_def bit_simps dest: bit_imp_le_length)+
  show "a = c \<and> b = d"
    using hi [of a b] hi [of c d] lo [of a b] lo [of c d] eq by metis
qed simp

lemma digit_group_inject: "digit_group p = digit_group q \<longleftrightarrow> p = q"
  by (metis digit_group_props(3) from_be_bytes_inject prod_eq_iff word_unat_eq_iff)

lemma join_inject:
  "length xs = length ys \<Longrightarrow> \<forall>x \<in> set xs \<union> set ys. length x = n \<Longrightarrow> join sep xs = join sep ys \<longleftrightarrow> xs = ys"
proof (induction xs ys rule: list_induct2)
  case (Cons x xs y ys)
  then have IH: "join sep xs = join sep ys \<longleftrightarrow> xs = ys" and len: "length x = length y"
    by simp_all
  from Cons.hyps show ?case
    using IH len by (cases xs; cases ys) auto
qed simp

lemma length_join:
  "xs \<noteq> [] \<Longrightarrow> \<forall>x \<in> set xs. length x = n \<Longrightarrow> length (join sep xs) + length sep = length xs * (n + length sep)"
  by (induction sep xs rule: join.induct) auto

lemma hash_pairs_inject:
  assumes "length g = 32" "length h = 32"
  shows "hash_pairs g = hash_pairs h \<longleftrightarrow> take 24 g = take 24 h"
proof -
  have "(\<forall>i < 24. g ! i = h ! i) \<longleftrightarrow> (\<forall>i < 12. g ! (i * 2) = h ! (i * 2) \<and> g ! (i * 2 + 1) = h ! (i * 2 + 1))"
  proof (intro iffI allI impI)
    fix j :: nat
    assume all: "\<forall>i < 12. g ! (i * 2) = h ! (i * 2) \<and> g ! (i * 2 + 1) = h ! (i * 2 + 1)" and "j < 24"
    then have "j div 2 < 12" "j = j div 2 * 2 \<or> j = j div 2 * 2 + 1"
      by linarith+
    with all show "g ! j = h ! j"
      by metis
  qed simp
  then show ?thesis
    using assms by (simp add: hash_pairs_def list_eq_iff_nth_eq)
qed

lemma sorted_keys_commute: "sorted_keys a b = sorted_keys b a"
  by (auto simp: sorted_keys_def)

subsection \<open>Properties\<close>

text \<open>Both users see the same safety number, whichever key each of them calls theirs.\<close>

lemma safety_number_symmetric:
  "generate_safety_number P a b = generate_safety_number P b a"
  by (simp add: safety_number_eq sorted_keys_commute)

text \<open>
  C39: a safety number does not depend on whose key is called ours; it is twelve groups of five
  digits separated by spaces, 71 characters; no group exceeds 65535, and two pairs of keys have the same number exactly when the hashes of the
  sorted keys agree on their first 24 bytes.
\<close>

theorem safety_number_shape:
  assumes "sha256_ok P"
  shows "generate_safety_number P a b = generate_safety_number P b a \<and>
    (\<exists>gs. generate_safety_number P a b = join '' '' gs \<and> length gs = 12 \<and>
      (\<forall>g \<in> set gs. length g = 5 \<and> list_all is_digit g \<and> digits_value g \<le> 65535)) \<and>
    length (generate_safety_number P a b) = 71 \<and>
    (generate_safety_number P a b = generate_safety_number P c d \<longleftrightarrow>
      take 24 (sha256 P (sorted_keys a b)) = take 24 (sha256 P (sorted_keys c d)))"
proof (intro conjI)
  show "generate_safety_number P a b = generate_safety_number P b a"
    by (rule safety_number_symmetric)
  let ?gs = "\<lambda>a b. map digit_group (hash_pairs (sha256 P (sorted_keys a b)))"
  have len: "length (?gs a b) = 12" for a b
    by (simp add: hash_pairs_def)
  have five: "\<forall>g \<in> set (?gs a b). length g = 5" for a b
    by (auto simp: digit_group_props)
  have "digits_value (digit_group p) \<le> 65535" for p
    using unat_u16_below [of "from_be_bytes (fst p) (snd p)"] by (simp add: digit_group_props)
  then show "\<exists>gs. generate_safety_number P a b = join '' '' gs \<and> length gs = 12 \<and>
      (\<forall>g \<in> set gs. length g = 5 \<and> list_all is_digit g \<and> digits_value g \<le> 65535)"
    using len [of a b] by (intro exI [of _ "?gs a b"]) (auto simp: safety_number_eq digit_group_props)
  have "?gs a b \<noteq> []"
    using len [of a b] by (cases "?gs a b") simp_all
  from length_join [OF this five, of "'' ''"] show "length (generate_safety_number P a b) = 71"
    unfolding safety_number_eq len by simp
  have "join '' '' (?gs a b) = join '' '' (?gs c d) \<longleftrightarrow> ?gs a b = ?gs c d"
    using five by (intro join_inject) (auto simp: hash_pairs_def)
  also have "\<dots> \<longleftrightarrow> hash_pairs (sha256 P (sorted_keys a b)) = hash_pairs (sha256 P (sorted_keys c d))"
    by (rule inj_map_eq_map) (simp add: inj_def digit_group_inject)
  finally show "generate_safety_number P a b = generate_safety_number P c d \<longleftrightarrow>
      take 24 (sha256 P (sorted_keys a b)) = take 24 (sha256 P (sorted_keys c d))"
    using assms unfolding safety_number_eq by (simp add: hash_pairs_inject sha256_ok_def)
qed

theorem safety_number_shape_witness:
  "length (generate_safety_number demo_prims [1, 2] [3]) = 71 \<and>
   generate_safety_number demo_prims [1, 2] [3] = generate_safety_number demo_prims [3] [1, 2]"
  using safety_number_shape [OF demo_laws(6), of "[1, 2]" "[3]" "[3]" "[1, 2]"]
  unfolding sorted_keys_commute [of "[3]"] by blast

text \<open>
  From hexadecimal keys, the number is that of the decoded keys exactly when both are 32
  bytes; malformed text is reported as length 0, other lengths as they are, ours first.
\<close>

theorem safety_number_hex:
  assumes "hex_ok P"
  shows "generate_safety_number_from_hex P (hex_encode P a) (hex_encode P b) =
      (if length a \<noteq> 32 then Err (InvalidKeyLength 32 (length a))
       else if length b \<noteq> 32 then Err (InvalidKeyLength 32 (length b))
       else Ok (generate_safety_number P a b)) \<and>
    (hex_decode P s = None \<longrightarrow> generate_safety_number_from_hex P s t = Err (InvalidKeyLength 32 0))"
  using hex_laws(1) [OF assms] by (simp add: generate_safety_number_from_hex_def)

theorem safety_number_hex_witness:
  "generate_safety_number_from_hex demo_prims (hex_encode demo_prims (replicate 32 1)) (hex_encode demo_prims [2]) =
     Err (InvalidKeyLength 32 1) \<and>
   generate_safety_number_from_hex demo_prims ''x'' [] = Err (InvalidKeyLength 32 0)"
proof -
  have "hex_decode demo_prims ''x'' = None"
    by (simp add: demo_prims_def)
  then show ?thesis
    using safety_number_hex [OF demo_laws(12), of "replicate 32 1" "[2]" "''x''" "[]"] by simp
qed

end
