(* ===== verification/Group.thy ===== *)
theory Group
  imports Demo_Prims Interfaces
begin

section \<open>Groups\<close>

text \<open>
  \<open>crates/vaultex-crypto/src/group.rs\<close>: group identifiers and the member list that each
  device keeps.  The 32 bytes drawn for an identifier, and the clock (None when it is before
  the epoch, which the code reads as 0), are arguments.
\<close>

datatype GroupId = GroupId (gid_bytes: bytes)

record GroupInfo =
  gi_group_id :: GroupId
  gi_name :: string
  gi_members :: "string list"
  gi_created_at :: u64
  gi_created_by :: string

definition gid_generate :: "prims \<Rightarrow> random \<Rightarrow> GroupId result" where
  "gid_generate P rnd = (if \<not> sodium_init P then Err InitFailed else Ok (GroupId (random_bytes rnd 32)))"

definition gid_to_hex :: "prims \<Rightarrow> GroupId \<Rightarrow> string" where
  "gid_to_hex P g = hex_encode P (gid_bytes g)"

definition gid_from_hex :: "prims \<Rightarrow> string \<Rightarrow> GroupId result" where
  "gid_from_hex P hex_str =
     and_then (ok_or (hex_decode P hex_str) (RatchetError ''invalid hex for group ID'')) (\<lambda>bs.
     if length bs \<noteq> 32 then Err (RatchetError ''group ID must be 32 bytes'') else Ok (GroupId bs))"

definition gi_new :: "prims \<Rightarrow> random \<Rightarrow> u64 option \<Rightarrow> string \<Rightarrow> string \<Rightarrow> string list \<Rightarrow> GroupInfo result" where
  "gi_new P rnd clock name creator_identity_hex member_identity_hexes =
     and_then (gid_generate P rnd) (\<lambda>group_id.
     let members = (if creator_identity_hex \<notin> set member_identity_hexes
                    then member_identity_hexes @ [creator_identity_hex] else member_identity_hexes);
         created_at = (case clock of None \<Rightarrow> 0 | Some t \<Rightarrow> t)
     in Ok \<lparr>gi_group_id = group_id, gi_name = name, gi_members = members,
            gi_created_at = created_at, gi_created_by = creator_identity_hex\<rparr>)"

definition add_member :: "string \<Rightarrow> GroupInfo \<Rightarrow> GroupInfo \<times> bool" where
  "add_member identity_key_hex g =
     (if identity_key_hex \<in> set (gi_members g) then (g, False)
      else (g\<lparr>gi_members := gi_members g @ [identity_key_hex]\<rparr>, True))"

definition remove_member :: "string \<Rightarrow> GroupInfo \<Rightarrow> GroupInfo \<times> bool" where
  "remove_member identity_key_hex g =
     (let before = length (gi_members g);
          members = filter (\<lambda>m. m \<noteq> identity_key_hex) (gi_members g)
      in (g\<lparr>gi_members := members\<rparr>, length members < before))"

definition is_member :: "string \<Rightarrow> GroupInfo \<Rightarrow> bool" where
  "is_member identity_key_hex g = list_ex (\<lambda>m. m = identity_key_hex) (gi_members g)"

definition other_members :: "string \<Rightarrow> GroupInfo \<Rightarrow> string list" where
  "other_members self_identity_hex g = filter (\<lambda>m. m \<noteq> self_identity_hex) (gi_members g)"

subsection \<open>The member list as a set\<close>

abbreviation member_set :: "GroupInfo \<Rightarrow> string set" where
  "member_set g \<equiv> set (gi_members g)"

lemma filter_shorter: "length (filter (\<lambda>m. m \<noteq> k) xs) < length xs \<longleftrightarrow> k \<in> set xs"
  by (induction xs) (auto simp: less_Suc_eq_le)

interpretation members: keyed_set member_set "\<lambda>g. distinct (gi_members g)" add_member remove_member is_member
proof
  fix k and g :: GroupInfo
  show "snd (remove_member k g) \<longleftrightarrow> k \<in> member_set g"
    by (simp add: remove_member_def Let_def filter_shorter)
qed (auto simp: add_member_def remove_member_def is_member_def Let_def list_ex_iff)

lemma gi_new_ok:
  assumes "sodium_init P"
  obtains g where "gi_new P rnd clock name creator ms = Ok g" "member_set g = insert creator (set ms)"
    "distinct ms \<Longrightarrow> distinct (gi_members g)" "gi_created_by g = creator"
    "length (gid_bytes (gi_group_id g)) = 32"
proof -
  let ?g = "\<lparr>gi_group_id = GroupId (random_bytes rnd 32), gi_name = name,
     gi_members = (if creator \<notin> set ms then ms @ [creator] else ms),
     gi_created_at = (case clock of None \<Rightarrow> 0 | Some t \<Rightarrow> t), gi_created_by = creator\<rparr>"
  have "gi_new P rnd clock name creator ms = Ok ?g"
    using assms by (simp add: gi_new_def gid_generate_def Let_def)
  then show ?thesis
    by (rule that) auto
qed

subsection \<open>Properties\<close>

text \<open>
  C38: the member list refines a set.  Each call of a sequence of additions and removals changes
  the set as it says, reports whether it changed anything, and keeps the list free of duplicates.
\<close>

theorem group_members_refine_set:
  assumes "distinct (gi_members g)"
  shows "member_set (fst (run_edits add_member remove_member edits g)) = fst (spec_edits edits (member_set g)) \<and>
    snd (run_edits add_member remove_member edits g) = snd (spec_edits edits (member_set g)) \<and>
    distinct (gi_members (fst (run_edits add_member remove_member edits g)))"
  using members.edits_refine [OF assms] by blast

theorem group_members_refine_set_witness:
  "member_set (fst (run_edits add_member remove_member [Add ''b'', Add ''a'', Remove ''a'', Remove ''z'']
      \<lparr>gi_group_id = GroupId [], gi_name = ''g'', gi_members = [''a''], gi_created_at = 0, gi_created_by = ''a''\<rparr>))
    = {''b''}"
  using group_members_refine_set [of "\<lparr>gi_group_id = GroupId [], gi_name = ''g'', gi_members = [''a''],
      gi_created_at = 0, gi_created_by = ''a''\<rparr>" "[Add ''b'', Add ''a'', Remove ''a'', Remove ''z'']"]
  by auto

text \<open>
  A new group contains its creator and exactly the members named, and fanning a message out
  reaches every member but the sender, each once.
\<close>

theorem group_fan_out:
  assumes "sodium_init P" "distinct ms"
  shows "\<exists>g. gi_new P rnd clock name creator ms = Ok g \<and> is_member creator g \<and>
    set (other_members self g) = insert creator (set ms) - {self} \<and> distinct (other_members self g)"
proof -
  obtain g where g: "gi_new P rnd clock name creator ms = Ok g" "member_set g = insert creator (set ms)"
      "distinct (gi_members g)"
    using gi_new_ok [OF assms(1)] assms(2) by metis
  have "set (other_members self g) = insert creator (set ms) - {self}" "distinct (other_members self g)"
    using g(2,3) by (auto simp: other_members_def)
  moreover have "is_member creator g"
    using g(2) members.member by simp
  ultimately show ?thesis
    using g(1) by blast
qed

theorem group_fan_out_witness:
  "\<exists>g. gi_new demo_prims (\<lambda>_. 0) None ''team'' ''a'' [''b'', ''c''] = Ok g \<and>
     set (other_members ''b'' g) = {''a'', ''c''}"
proof -
  have "insert ''a'' (set [''b'', ''c'']) - {''b''} = {''a'', ''c'' :: string}"
    by auto
  with group_fan_out [OF demo_laws(14), of "[''b'', ''c'']" "\<lambda>_. 0" None "''team''" "''a''" "''b''"]
  show ?thesis by auto
qed

text \<open>
  A group identifier survives its hexadecimal form, which is the 64 digits that message
  payloads require; text of another length is refused.
\<close>

theorem group_id_hex:
  assumes "hex_ok P" "length b = 32"
  shows "gid_from_hex P (gid_to_hex P (GroupId b)) = Ok (GroupId b) \<and>
    length (gid_to_hex P (GroupId b)) = 64 \<and> list_all is_ascii_hexdigit (gid_to_hex P (GroupId b)) \<and>
    (length b' \<noteq> 32 \<longrightarrow> gid_from_hex P (hex_encode P b') = Err (RatchetError ''group ID must be 32 bytes''))"
  using hex_laws [OF assms(1)] assms(2) by (simp add: gid_from_hex_def gid_to_hex_def)

theorem group_id_hex_witness:
  "gid_from_hex demo_prims (gid_to_hex demo_prims (GroupId (replicate 32 171))) = Ok (GroupId (replicate 32 171))"
  using group_id_hex [OF demo_laws(12), of "replicate 32 171" "[]"] by simp

end
