(* ===== verification/Auth.thy ===== *)
theory Auth
  imports Identity Interfaces
begin

section \<open>Client authentication\<close>

text \<open>
  \<open>crates/vaultex-crypto/src/auth.rs\<close>: the canonical message of a request and the headers
  that sign it.  The clock is the number of seconds since the epoch, None before it, which
  \<open>unwrap_or_default\<close> turns into 0.
\<close>

record AuthHeader =
  ah_account_id :: string
  ah_timestamp :: u64
  ah_signature_hex :: string

definition build_signed_message :: "prims \<Rightarrow> string \<Rightarrow> string \<Rightarrow> u64 \<Rightarrow> bytes \<Rightarrow> bytes" where
  "build_signed_message P verb path timestamp body =
     (let body_hash = hex_encode P (sha256 P body);
          message = verb @ '':'' @ path @ '':'' @ show_nat (unat timestamp) @ '':'' @ body_hash
      in as_bytes message)"

definition sign_request_with_timestamp ::
    "prims \<Rightarrow> IdentityKeyPair \<Rightarrow> string \<Rightarrow> string \<Rightarrow> string \<Rightarrow> bytes \<Rightarrow> u64 \<Rightarrow> AuthHeader" where
  "sign_request_with_timestamp P ident account_id verb path body timestamp =
     (let message = build_signed_message P verb path timestamp body;
          signature = ik_sign P ident message
      in \<lparr>ah_account_id = account_id, ah_timestamp = timestamp, ah_signature_hex = hex_encode P signature\<rparr>)"

definition sign_request ::
    "prims \<Rightarrow> u64 option \<Rightarrow> IdentityKeyPair \<Rightarrow> string \<Rightarrow> string \<Rightarrow> string \<Rightarrow> bytes \<Rightarrow> AuthHeader" where
  "sign_request P clock ident account_id verb path body =
     (let timestamp = (case clock of None \<Rightarrow> 0 | Some t \<Rightarrow> t)
      in sign_request_with_timestamp P ident account_id verb path body timestamp)"

subsection \<open>The canonical message is unambiguous\<close>

lemma append_sep_left:
  "c \<notin> set xs \<Longrightarrow> c \<notin> set xs' \<Longrightarrow> xs @ c # ys = xs' @ c # ys' \<longleftrightarrow> xs = xs' \<and> ys = ys'"
proof (induction xs arbitrary: xs')
  case Nil
  then show ?case by (cases xs') auto
next
  case (Cons a xs)
  then show ?case by (cases xs') auto
qed

lemma append_sep_right:
  "c \<notin> set ys \<Longrightarrow> c \<notin> set ys' \<Longrightarrow> xs @ c # ys = xs' @ c # ys' \<longleftrightarrow> xs = xs' \<and> ys = ys'"
proof -
  assume c: "c \<notin> set ys" "c \<notin> set ys'"
  have "xs @ c # ys = xs' @ c # ys' \<longleftrightarrow> rev (xs @ c # ys) = rev (xs' @ c # ys')"
    by (simp only: rev_is_rev_conv)
  also have "\<dots> \<longleftrightarrow> rev ys = rev ys' \<and> rev xs = rev xs'"
    using append_sep_left [of c "rev ys" "rev ys'" "rev xs" "rev xs'"] c by simp
  finally show ?thesis by auto
qed

lemma no_colon:
  "list_all is_digit s \<Longrightarrow> CHR '':'' \<notin> set s" "list_all is_ascii_hexdigit s \<Longrightarrow> CHR '':'' \<notin> set s"
  by (auto simp: list_all_iff is_digit_def is_ascii_hexdigit_def)

lemma canonical_parts:
  assumes "hex_ok P" "CHR '':'' \<notin> set verb" "CHR '':'' \<notin> set verb'"
    and eq: "build_signed_message P verb path ts body = build_signed_message P verb' path' ts' body'"
  shows "verb = verb' \<and> path = path' \<and> ts = ts' \<and> sha256 P body = sha256 P body'"
proof -
  note hex = hex_laws [OF assms(1)]
  have digits: "CHR '':'' \<notin> set (show_nat n)" "CHR '':'' \<notin> set (hex_encode P b)" for n b
    using no_colon show_nat_digits hex(3) by blast+
  have "(verb @ '':'' @ path @ '':'' @ show_nat (unat ts)) @ CHR '':'' # hex_encode P (sha256 P body) =
      (verb' @ '':'' @ path' @ '':'' @ show_nat (unat ts')) @ CHR '':'' # hex_encode P (sha256 P body')"
    using eq unfolding build_signed_message_def Let_def as_bytes_inject by simp
  then have 1: "verb @ '':'' @ path @ '':'' @ show_nat (unat ts) = verb' @ '':'' @ path' @ '':'' @ show_nat (unat ts')"
    and hash: "hex_encode P (sha256 P body) = hex_encode P (sha256 P body')"
    using append_sep_right [OF digits(2) digits(2)] by blast+
  then have "(verb @ '':'' @ path) @ CHR '':'' # show_nat (unat ts) =
      (verb' @ '':'' @ path') @ CHR '':'' # show_nat (unat ts')"
    by simp
  then have 2: "verb @ '':'' @ path = verb' @ '':'' @ path'" and t: "show_nat (unat ts) = show_nat (unat ts')"
    using append_sep_right [OF digits(1) digits(1)] by blast+
  from 2 have "verb @ CHR '':'' # path = verb' @ CHR '':'' # path'"
    by simp
  moreover have "sha256 P body = sha256 P body'"
    using hash hex(1) by (metis option.inject)
  ultimately show ?thesis
    using append_sep_left [OF assms(2,3)] t by (simp add: show_nat_inject word_unat_eq_iff)
qed

text \<open>A request as it is signed: verb, path, time and body.\<close>

type_synonym signed_request = "string \<times> string \<times> u64 \<times> bytes"

fun request_digest :: "prims \<times> IdentityKeyPair \<Rightarrow> signed_request \<Rightarrow> string \<times> string \<times> u64 \<times> bytes" where
  "request_digest (P, _) (verb, path, ts, body) = (verb, path, ts, sha256 P body)"

fun request_message :: "prims \<times> IdentityKeyPair \<Rightarrow> signed_request \<Rightarrow> bytes" where
  "request_message (P, _) (verb, path, ts, body) = build_signed_message P verb path ts body"

interpretation requests: signed_requests
  "\<lambda>(P, ident). hex_ok P \<and> sign_ok P \<and> identity_ok P ident" "\<lambda>(verb, _). CHR '':'' \<notin> set verb"
  request_message request_digest "\<lambda>(P, ident). ik_sign P ident"
  "\<lambda>(P, ident) m s. ik_verify P (ik_public_key ident) m s"
proof
  fix c :: "prims \<times> IdentityKeyPair" and q q' :: signed_request and m
  obtain P ident where c: "c = (P, ident)"
    by (cases c)
  obtain verb path ts body where q: "q = (verb, path, ts, body)"
    by (cases q)
  obtain verb' path' ts' body' where q': "q' = (verb', path', ts', body')"
    by (cases q')
  assume ok: "case c of (P, ident) \<Rightarrow> hex_ok P \<and> sign_ok P \<and> identity_ok P ident"
  then show "(case c of (P, ident) \<Rightarrow> \<lambda>m s. ik_verify P (ik_public_key ident) m s) m
      ((case c of (P, ident) \<Rightarrow> ik_sign P ident) m)"
    by (simp add: c ik_sign_verify)
  assume "case q of (verb, _) \<Rightarrow> CHR '':'' \<notin> set verb" "case q' of (verb, _) \<Rightarrow> CHR '':'' \<notin> set verb"
    "request_message c q = request_message c q'"
  then show "request_digest c q = request_digest c q'"
    using canonical_parts [of P verb verb' path ts body path' ts' body'] ok by (simp add: c q q')
qed

subsection \<open>Properties\<close>

text \<open>
  C32: the canonical message is unambiguous: two requests whose verbs contain no colon (as no
  HTTP verb does) have the same message only if verb, path, timestamp and body hash are all
  the same, although a path may contain colons itself.
\<close>

theorem signed_message_injective:
  assumes "hex_ok P" "CHR '':'' \<notin> set verb" "CHR '':'' \<notin> set verb'"
  shows "build_signed_message P verb path ts body = build_signed_message P verb' path' ts' body' \<longleftrightarrow>
    (verb, path, ts, sha256 P body) = (verb', path', ts', sha256 P body')"
proof
  show "(verb, path, ts, sha256 P body) = (verb', path', ts', sha256 P body')"
    if "build_signed_message P verb path ts body = build_signed_message P verb' path' ts' body'"
    using canonical_parts [OF assms that] by simp
qed (simp add: build_signed_message_def)

theorem signed_message_injective_witness:
  "build_signed_message demo_prims ''GET'' ''/a:1'' 2 [] \<noteq> build_signed_message demo_prims ''GET'' ''/a'' 12 []"
  by (subst signed_message_injective [OF demo_laws(12)]) simp_all

text \<open>
  The header that a client produces carries the time of its clock and a signature of 128
  hexadecimal digits that verifies under its identity key over the canonical message.
\<close>

theorem signed_request_verifies:
  assumes "hex_ok P" "sign_ok P" "identity_ok P ident"
  shows "(let h = sign_request P (Some now) ident account verb path body in
      ah_account_id h = account \<and> ah_timestamp h = now \<and> length (ah_signature_hex h) = 128 \<and>
      (\<exists>s. hex_decode P (ah_signature_hex h) = Some s \<and>
         ik_verify P (ik_public_key ident) (build_signed_message P verb path now body) s))"
proof -
  let ?m = "build_signed_message P verb path now body"
  have h: "sign_request P (Some now) ident account verb path body =
      \<lparr>ah_account_id = account, ah_timestamp = now, ah_signature_hex = hex_encode P (ik_sign P ident ?m)\<rparr>"
    by (simp add: sign_request_def sign_request_with_timestamp_def Let_def)
  have "ik_verify P (ik_public_key ident) ?m (ik_sign P ident ?m)"
    using requests.complete [of "(P, ident)" ?m] assms by simp
  moreover have "length (hex_encode P (ik_sign P ident ?m)) = 128"
    by (simp add: hex_laws(2) [OF assms(1)] ik_sign_def signature_laws(1) [OF assms(2)])
  ultimately show ?thesis
    unfolding h by (simp add: hex_laws(1) [OF assms(1)])
qed

theorem signed_request_verifies_witness:
  "\<exists>s. hex_decode demo_prims (ah_signature_hex (sign_request demo_prims (Some 1700000000)
       \<lparr>ik_public_key = replicate 32 1, ik_secret_key = replicate 64 1\<rparr> ''acc'' ''GET'' ''/x'' [1])) = Some s \<and>
     ik_verify demo_prims (replicate 32 1) (build_signed_message demo_prims ''GET'' ''/x'' 1700000000 [1]) s"
proof -
  let ?i = "\<lparr>ik_public_key = replicate 32 1, ik_secret_key = replicate 64 1\<rparr>"
  have "identity_ok demo_prims ?i"
    by (simp add: identity_ok_def demo_prims_def)
  from signed_request_verifies [OF demo_laws(12,3) this, of 1700000000 "''acc''" "''GET''" "''/x''" "[1]"]
  show ?thesis
    unfolding Let_def by simp
qed

end
