(* ===== verification/Server_Auth.thy ===== *)
theory Server_Auth
  imports Auth
begin

section \<open>The server's authentication middleware\<close>

text \<open>
  \<open>src/extracted/server-middleware/auth.rs\<close>: the list of public routes and the handler
  that checks a signed request before it reaches the next one.  The packages axum, http and
  uuid, the database and the server's \<open>verify_signature\<close> are not part of the repository:
  they are the fields of \<open>server_env\<close>.  A body is a stream of some type \<open>'b\<close>, which
  \<open>to_bytes\<close> reads up to a limit.  Log lines are left out.
\<close>

type_synonym uuid = "128 word"

datatype StatusCode = UNAUTHORIZED | BAD_REQUEST | INTERNAL_SERVER_ERROR

record AuthenticatedUser =
  au_account_id :: uuid
  au_identity_key_hex :: string

record 'b request =
  rq_method :: string
  rq_path :: string
  rq_headers :: "string \<Rightarrow> bytes option"
  rq_body :: 'b
  rq_user :: "AuthenticatedUser option"

record 'b server_env =
  header_to_str :: "bytes \<Rightarrow> string option"
    \<comment> \<open>\<open>HeaderValue::to_str\<close>\<close>
  parse_uuid :: "string \<Rightarrow> uuid option"
  get_account_by_id :: "uuid \<Rightarrow> string + string option"
    \<comment> \<open>a database error, or the \<open>identity_key_hex\<close> of the account if there is one\<close>
  body_to_bytes :: "'b \<Rightarrow> nat \<Rightarrow> bytes option"
  body_from :: "bytes \<Rightarrow> 'b"
  verify_signature :: "bytes \<Rightarrow> bytes \<Rightarrow> bytes \<Rightarrow> string + unit"
    \<comment> \<open>identity key, message, signature\<close>

definition MAX_TIMESTAMP_DRIFT_SECS :: u64 where "MAX_TIMESTAMP_DRIFT_SECS = 300"

definition is_unauthenticated_route :: "string \<Rightarrow> string \<Rightarrow> bool" where
  "is_unauthenticated_route verb path =
     (if verb = ''POST'' \<and> path = ''/api/v1/accounts/register'' then True
      else if verb = ''GET'' \<and> path = ''/api/v1/health'' then True
      else if verb = ''GET'' \<and> path = ''/api/v1/ping'' then True
      else if path = ''/ws'' then True
      else if verb = ''GET'' \<and> starts_with path ''/api/v1/accounts/by-key/'' then True
      else if verb = ''GET'' \<and> contains_str path ''/prekey_bundle'' then True
      else if verb = ''POST'' \<and> path = ''/api/v1/messages/send'' then True
      else if verb = ''POST'' \<and> path = ''/api/v1/messages/sealed'' then True
      else if path = ''/api/v1/stats/visits'' \<and> (verb = ''GET'' \<or> verb = ''POST'') then True
      else False)"

definition get_header :: "'b server_env \<Rightarrow> 'b request \<Rightarrow> string \<Rightarrow> StatusCode + string" where
  "get_header E request name =
     and_then (ok_or (rq_headers request name) UNAUTHORIZED) (\<lambda>v.
     ok_or (header_to_str E v) BAD_REQUEST)"

definition auth_middleware ::
    "prims \<Rightarrow> 'b server_env \<Rightarrow> u64 option \<Rightarrow> ('b request \<Rightarrow> 'r) \<Rightarrow> 'b request \<Rightarrow> StatusCode + 'r" where
  "auth_middleware P E clock next_run request =
     (let verb = to_uppercase (rq_method request);
          path = rq_path request in
      if is_unauthenticated_route verb path then Ok (next_run request)
      else
        and_then (get_header E request ''X-Account-Id'') (\<lambda>account_id_str.
        and_then (ok_or (parse_uuid E account_id_str) BAD_REQUEST) (\<lambda>account_id.
        and_then (get_header E request ''X-Timestamp'') (\<lambda>timestamp_str.
        and_then (ok_or (parse_u64 timestamp_str) BAD_REQUEST) (\<lambda>timestamp.
        and_then (get_header E request ''X-Signature'') (\<lambda>signature_hex.
        and_then (ok_or (hex_decode P signature_hex) BAD_REQUEST) (\<lambda>signature_bytes.
        let now = (case clock of None \<Rightarrow> 0 | Some t \<Rightarrow> t);
            drift = abs_diff now timestamp in
        if MAX_TIMESTAMP_DRIFT_SECS < drift then Err UNAUTHORIZED
        else
        and_then (map_err (\<lambda>_. INTERNAL_SERVER_ERROR) (get_account_by_id E account_id)) (\<lambda>found.
        and_then (ok_or found UNAUTHORIZED) (\<lambda>identity_key_hex.
        and_then (ok_or (hex_decode P (trim identity_key_hex)) INTERNAL_SERVER_ERROR) (\<lambda>identity_key_bytes.
        let body_limit = (if starts_with path ''/api/v1/media/'' then 100 * 1024 * 1024 else 1024 * 1024) in
        and_then (ok_or (body_to_bytes E (rq_body request) body_limit) BAD_REQUEST) (\<lambda>body_bytes.
        let body_hash = hex_encode P (sha256 P body_bytes);
            signed_message = verb @ '':'' @ path @ '':'' @ show_nat (unat timestamp) @ '':'' @ body_hash in
        and_then (map_err (\<lambda>_. UNAUTHORIZED)
            (verify_signature E identity_key_bytes (as_bytes signed_message) signature_bytes)) (\<lambda>_.
        Ok (next_run (request\<lparr>rq_body := body_from E body_bytes,
          rq_user := Some \<lparr>au_account_id = account_id, au_identity_key_hex = trim identity_key_hex\<rparr>\<rparr>))))))))))))))"

definition extract_account_id :: "'b server_env \<Rightarrow> 'b request \<Rightarrow> StatusCode + uuid" where
  "extract_account_id E request =
     and_then (get_header E request ''X-Account-Id'') (\<lambda>header_value.
     ok_or (parse_uuid E header_value) BAD_REQUEST)"

subsection \<open>What the middleware accepts\<close>

definition body_limit :: "string \<Rightarrow> nat" where
  "body_limit path = (if starts_with path ''/api/v1/media/'' then 100 * 1024 * 1024 else 1024 * 1024)"

text \<open>
  The whole condition under which a request to a protected route passes, as data: the account,
  its stored key, the time, the signature and the body.
\<close>

definition passes :: "prims \<Rightarrow> 'b server_env \<Rightarrow> u64 \<Rightarrow> 'b request \<Rightarrow>
    uuid \<Rightarrow> string \<Rightarrow> u64 \<Rightarrow> bytes \<Rightarrow> bool" where
  "passes P E now rq account key ts body \<longleftrightarrow>
     (\<exists>s. get_header E rq ''X-Account-Id'' = Ok s \<and> parse_uuid E s = Some account) \<and>
     (\<exists>s. get_header E rq ''X-Timestamp'' = Ok s \<and> parse_u64 s = Some ts) \<and>
     \<not> MAX_TIMESTAMP_DRIFT_SECS < abs_diff now ts \<and>
     get_account_by_id E account = Inr (Some key) \<and>
     body_to_bytes E (rq_body rq) (body_limit (rq_path rq)) = Some body \<and>
     (\<exists>s sig pk. get_header E rq ''X-Signature'' = Ok s \<and> hex_decode P s = Some sig \<and>
        hex_decode P (trim key) = Some pk \<and>
        verify_signature E pk (build_signed_message P (to_uppercase (rq_method rq)) (rq_path rq) ts body) sig = Inr ())"

lemma middleware_accepts:
  assumes "\<not> is_unauthenticated_route (to_uppercase (rq_method rq)) (rq_path rq)"
  shows "auth_middleware P E (Some now) next_run rq = Ok r \<longleftrightarrow>
    (\<exists>account key ts body. passes P E now rq account key ts body \<and>
       r = next_run (rq\<lparr>rq_body := body_from E body,
         rq_user := Some \<lparr>au_account_id = account, au_identity_key_hex = trim key\<rparr>\<rparr>))"
  using assms
  by (auto simp: auth_middleware_def passes_def body_limit_def build_signed_message_def Let_def and_then_eq_Inr
      ok_or_eq_Inr map_err_eq_Inr split: if_splits)

lemma drift_within: "\<not> MAX_TIMESTAMP_DRIFT_SECS < abs_diff now ts \<longleftrightarrow>
    unat now \<le> unat ts + 300 \<and> unat ts \<le> unat now + 300"
  by (auto simp: MAX_TIMESTAMP_DRIFT_SECS_def word_less_nat_alt unat_abs_diff)

text \<open>On a protected route all three headers are needed.\<close>

lemma refused_without_header:
  assumes "\<not> is_unauthenticated_route (to_uppercase (rq_method rq)) (rq_path rq)"
    and "rq_headers rq h = None" "h \<in> {''X-Account-Id'', ''X-Timestamp'', ''X-Signature''}"
  shows "\<exists>e. auth_middleware P E clock next_run rq = Err e"
proof (cases "auth_middleware P E clock next_run rq")
  case (Inr r)
  have "get_header E rq h = Err UNAUTHORIZED"
    by (simp add: get_header_def assms(2))
  with Inr assms(1,3) show ?thesis
    by (auto simp: auth_middleware_def Let_def and_then_eq_Inr)
qed simp

text \<open>The request carries the three headers of a client's \<open>AuthHeader\<close>.\<close>

definition carries :: "'b server_env \<Rightarrow> 'b request \<Rightarrow> AuthHeader \<Rightarrow> bool" where
  "carries E rq h \<longleftrightarrow>
     get_header E rq ''X-Account-Id'' = Ok (ah_account_id h) \<and>
     get_header E rq ''X-Timestamp'' = Ok (show_nat (unat (ah_timestamp h))) \<and>
     get_header E rq ''X-Signature'' = Ok (ah_signature_hex h)"

lemma client_passes:
  assumes laws: "hex_ok P" "sign_ok P" and ident: "identity_ok P ident"
    and carries: "carries E rq (sign_request P (Some t) ident account (to_uppercase (rq_method rq)) (rq_path rq) body)"
    and uid: "parse_uuid E account = Some uid" and acc: "get_account_by_id E uid = Inr (Some key)"
    and key: "trim key = hex_encode P (ik_public_key ident)"
    and body: "body_to_bytes E (rq_body rq) (body_limit (rq_path rq)) = Some body"
    and verify: "\<And>pk m s. verify_detached P s m pk \<Longrightarrow> verify_signature E pk m s = Inr ()"
    and drift: "unat now \<le> unat t + 300" "unat t \<le> unat now + 300"
  shows "passes P E now rq uid key t body"
proof -
  let ?m = "build_signed_message P (to_uppercase (rq_method rq)) (rq_path rq) t body"
  have "ik_verify P (ik_public_key ident) ?m (ik_sign P ident ?m)"
    using requests.complete [of "(P, ident)" ?m] laws ident by simp
  then have "verify_signature E (ik_public_key ident) ?m (ik_sign P ident ?m) = Inr ()"
    by (simp add: ik_verify_def verify)
  then show ?thesis
    using carries uid acc key body drift drift_within [of now t]
    by (simp add: passes_def carries_def sign_request_def sign_request_with_timestamp_def
        parse_show_u64 hex_laws(1) [OF laws(1)])
qed

subsection \<open>Properties\<close>

text \<open>
  C13: completeness of authentication.  A request that a registered client signed, over the
  upper-case verb, its path and its body, passes the middleware at every server time within 300
  seconds of the client's, and the next handler sees the client's account.
\<close>

theorem client_request_accepted:
  assumes "hex_ok P" "sign_ok P" "identity_ok P ident"
    and "carries E rq (sign_request P (Some t) ident account (to_uppercase (rq_method rq)) (rq_path rq) body)"
    and "parse_uuid E account = Some uid" "get_account_by_id E uid = Inr (Some key)"
    and "trim key = hex_encode P (ik_public_key ident)"
    and "body_to_bytes E (rq_body rq) (body_limit (rq_path rq)) = Some body"
    and "\<And>pk m s. verify_detached P s m pk \<Longrightarrow> verify_signature E pk m s = Inr ()"
    and "unat now \<le> unat t + 300" "unat t \<le> unat now + 300"
    and "\<not> is_unauthenticated_route (to_uppercase (rq_method rq)) (rq_path rq)"
  shows "auth_middleware P E (Some now) next_run rq = Ok (next_run (rq\<lparr>rq_body := body_from E body,
    rq_user := Some \<lparr>au_account_id = uid, au_identity_key_hex = trim key\<rparr>\<rparr>))"
  unfolding middleware_accepts [OF assms(12)] using client_passes [OF assms(1-11)] by blast

definition demo_env :: "bytes server_env" where
  "demo_env = \<lparr>header_to_str = \<lambda>b. Some (string_of_bytes b),
     parse_uuid = \<lambda>s. if s = ''acc'' then Some 7 else None,
     get_account_by_id = \<lambda>u. Inr (if u = 7 then Some (hex_encode demo_prims (replicate 32 1)) else None),
     body_to_bytes = \<lambda>b n. if length b \<le> n then Some b else None,
     body_from = \<lambda>b. b,
     verify_signature = \<lambda>pk m s. if verify_detached demo_prims s m pk then Inr () else Inl ''bad''\<rparr>"

definition demo_ident :: IdentityKeyPair where
  "demo_ident = \<lparr>ik_public_key = replicate 32 1, ik_secret_key = replicate 64 1\<rparr>"

definition demo_request :: "bytes request" where
  "demo_request = (let h = sign_request demo_prims (Some 1700000000) demo_ident ''acc'' ''GET'' ''/api/v1/messages/inbox'' [] in
     \<lparr>rq_method = ''get'', rq_path = ''/api/v1/messages/inbox'',
      rq_headers = [''X-Account-Id'' \<mapsto> as_bytes (ah_account_id h),
        ''X-Timestamp'' \<mapsto> as_bytes (show_nat (unat (ah_timestamp h))),
        ''X-Signature'' \<mapsto> as_bytes (ah_signature_hex h)],
      rq_body = [], rq_user = None\<rparr>)"

lemma demo_upper: "to_uppercase ''get'' = ''GET''"
  by (simp add: to_uppercase_def ascii_upper_def of_char_def char_of_def bit_0)

lemma demo_protected: "\<not> is_unauthenticated_route ''GET'' ''/api/v1/messages/inbox''"
  by (simp add: is_unauthenticated_route_def starts_with_def)

lemma demo_facts:
  "identity_ok demo_prims demo_ident" "rq_method demo_request = ''get''" "rq_body demo_request = []"
  "rq_path demo_request = ''/api/v1/messages/inbox''"
  "carries demo_env demo_request (sign_request demo_prims (Some 1700000000) demo_ident ''acc''
      ''GET'' ''/api/v1/messages/inbox'' [])"
  "trim (hex_encode demo_prims (replicate 32 1)) = hex_encode demo_prims (ik_public_key demo_ident)"
  "get_account_by_id demo_env 7 = Inr (Some (hex_encode demo_prims (replicate 32 1)))"
  "parse_uuid demo_env ''acc'' = Some 7" "body_to_bytes demo_env [] n = Some []"
  "verify_detached demo_prims sig m pk \<Longrightarrow> verify_signature demo_env pk m sig = Inr ()"
  by (simp add: identity_ok_def demo_ident_def demo_prims_def)
    (simp_all add: carries_def get_header_def demo_env_def demo_request_def Let_def demo_ident_def
      trim_hex hex_laws(3) [OF demo_laws(12)])

theorem client_request_accepted_witness:
  "\<exists>r. auth_middleware demo_prims demo_env (Some 1700000250) (\<lambda>r. r) demo_request = Ok r \<and>
     rq_user r = Some \<lparr>au_account_id = 7, au_identity_key_hex = hex_encode demo_prims (replicate 32 1)\<rparr>"
proof -
  have "auth_middleware demo_prims demo_env (Some 1700000250) (\<lambda>r. r) demo_request =
    Ok (demo_request\<lparr>rq_body := body_from demo_env [], rq_user := Some \<lparr>au_account_id = 7,
      au_identity_key_hex = trim (hex_encode demo_prims (replicate 32 1))\<rparr>\<rparr>)"
    by (rule client_request_accepted [where t = 1700000000, OF demo_laws(12,3) demo_facts(1) _
          demo_facts(8,7,6) _ demo_facts(10)])
      (simp_all add: demo_facts demo_upper demo_protected)
  then show ?thesis
    by (simp add: trim_hex hex_laws(3) [OF demo_laws(12)])
qed

lemma demo_guarded:
  "\<not> is_unauthenticated_route (to_uppercase (rq_method demo_request)) (rq_path demo_request)"
  by (simp add: demo_facts demo_upper demo_protected)

lemma demo_request_passes:
  assumes "unat now \<le> 1700000300" "1699999700 \<le> unat now"
  shows "passes demo_prims demo_env now demo_request 7 (hex_encode demo_prims (replicate 32 1)) 1700000000 []"
  by (rule client_passes [OF demo_laws(12,3) demo_facts(1) _ demo_facts(8,7,6) _ demo_facts(10)])
    (use assms in \<open>simp_all add: demo_facts demo_upper\<close>)

lemma demo_accepted:
  obtains r where "auth_middleware demo_prims demo_env (Some 1700000000) (\<lambda>r. r) demo_request = Ok r"
proof -
  have "passes demo_prims demo_env 1700000000 demo_request 7 (hex_encode demo_prims (replicate 32 1)) 1700000000 []"
    by (rule demo_request_passes) simp_all
  then show ?thesis
    using that middleware_accepts [OF demo_guarded, of demo_prims demo_env 1700000000 "\<lambda>r. r"] by metis
qed

text \<open>
  C12: soundness of authentication.  A request to a protected route reaches the next handler only
  if its three headers can be read as an account id, a time and a signature, the account is
  stored, the time is within 300 seconds of the server's clock, and the signature verifies under
  the account's key over the request's own verb, path, that time and the hash of its own body;
  the handler then gets the account that the header names and that body, within the size limit.
\<close>

theorem middleware_sound:
  assumes "\<not> is_unauthenticated_route (to_uppercase (rq_method rq)) (rq_path rq)"
    and "auth_middleware P E (Some now) next_run rq = Ok r"
  shows "\<exists>account_str account ts_str ts sig_str sig key pk body.
    get_header E rq ''X-Account-Id'' = Ok account_str \<and> parse_uuid E account_str = Some account \<and>
    get_header E rq ''X-Timestamp'' = Ok ts_str \<and> parse_u64 ts_str = Some ts \<and>
    get_header E rq ''X-Signature'' = Ok sig_str \<and> hex_decode P sig_str = Some sig \<and>
    unat now \<le> unat ts + 300 \<and> unat ts \<le> unat now + 300 \<and>
    get_account_by_id E account = Inr (Some key) \<and> hex_decode P (trim key) = Some pk \<and>
    body_to_bytes E (rq_body rq) (if starts_with (rq_path rq) ''/api/v1/media/''
      then 100 * 1024 * 1024 else 1024 * 1024) = Some body \<and>
    verify_signature E pk (build_signed_message P (to_uppercase (rq_method rq)) (rq_path rq) ts body) sig = Inr () \<and>
    r = next_run (rq\<lparr>rq_body := body_from E body,
      rq_user := Some \<lparr>au_account_id = account, au_identity_key_hex = trim key\<rparr>\<rparr>)"
proof -
  obtain account key ts body where "passes P E now rq account key ts body"
    "r = next_run (rq\<lparr>rq_body := body_from E body,
      rq_user := Some \<lparr>au_account_id = account, au_identity_key_hex = trim key\<rparr>\<rparr>)"
    using assms(2) unfolding middleware_accepts [OF assms(1)] by blast
  then show ?thesis
    unfolding passes_def drift_within body_limit_def by blast
qed

theorem middleware_sound_witness:
  "\<exists>ts sig_str sig. get_header demo_env demo_request ''X-Account-Id'' = Ok ''acc'' \<and>
     get_header demo_env demo_request ''X-Timestamp'' = Ok (show_nat 1700000000) \<and>
     parse_u64 (show_nat 1700000000) = Some ts \<and> 1700000000 \<le> unat ts + 300 \<and>
     get_header demo_env demo_request ''X-Signature'' = Ok sig_str \<and> hex_decode demo_prims sig_str = Some sig \<and>
     verify_signature demo_env (replicate 32 1)
       (build_signed_message demo_prims ''GET'' ''/api/v1/messages/inbox'' ts []) sig = Inr ()"
proof -
  obtain r where "auth_middleware demo_prims demo_env (Some 1700000000) (\<lambda>r. r) demo_request = Ok r"
    by (rule demo_accepted)
  from middleware_sound [OF demo_guarded this] demo_facts(5) show ?thesis
    by (auto simp: carries_def sign_request_def sign_request_with_timestamp_def Let_def demo_facts demo_upper
        demo_ident_def hex_laws(1) [OF demo_laws(12)])
qed

text \<open>
  C33: the check keeps no memory.  A request that passes at one time passes again, with the same
  effect, at every time within 300 seconds of its timestamp: a captured request can be replayed
  for as long.
\<close>

theorem replay_within_window:
  assumes "\<not> is_unauthenticated_route (to_uppercase (rq_method rq)) (rq_path rq)"
    and "auth_middleware P E (Some now) next_run rq = Ok r"
    and "get_header E rq ''X-Timestamp'' = Ok s" "parse_u64 s = Some ts"
    and "unat now' \<le> unat ts + 300" "unat ts \<le> unat now' + 300"
  shows "auth_middleware P E (Some now') next_run rq = Ok r"
proof -
  obtain account key ts' body where p: "passes P E now rq account key ts' body"
    and r: "r = next_run (rq\<lparr>rq_body := body_from E body,
      rq_user := Some \<lparr>au_account_id = account, au_identity_key_hex = trim key\<rparr>\<rparr>)"
    using assms(2) unfolding middleware_accepts [OF assms(1)] by blast
  have "ts' = ts"
    using p assms(3,4) by (auto simp: passes_def)
  with p assms(5,6) have "passes P E now' rq account key ts' body"
    unfolding passes_def drift_within by blast
  with r show ?thesis
    unfolding middleware_accepts [OF assms(1)] by blast
qed

theorem replay_within_window_witness:
  "\<exists>r. auth_middleware demo_prims demo_env (Some 1700000000) (\<lambda>r. r) demo_request = Ok r \<and>
     auth_middleware demo_prims demo_env (Some 1700000299) (\<lambda>r. r) demo_request = Ok r"
proof -
  note p = demo_guarded
  obtain r where r: "auth_middleware demo_prims demo_env (Some 1700000000) (\<lambda>r. r) demo_request = Ok r"
    by (rule demo_accepted)
  have h: "get_header demo_env demo_request ''X-Timestamp'' = Ok (show_nat (unat (1700000000 :: u64)))"
    using demo_facts(5) by (simp add: carries_def sign_request_def sign_request_with_timestamp_def Let_def)
  have "auth_middleware demo_prims demo_env (Some 1700000299) (\<lambda>r. r) demo_request = Ok r"
    by (rule replay_within_window [OF p r h parse_show_u64]) simp_all
  with r show ?thesis by blast
qed

text \<open>The list of public routes, with the two patterns as prefix and substring.\<close>

lemma public_route_iff:
  "is_unauthenticated_route m p \<longleftrightarrow>
     m = ''POST'' \<and> p \<in> {''/api/v1/accounts/register'', ''/api/v1/messages/send'', ''/api/v1/messages/sealed''} \<or>
     m = ''GET'' \<and> p \<in> {''/api/v1/health'', ''/api/v1/ping''} \<or> p = ''/ws'' \<or>
     m = ''GET'' \<and> (\<exists>a. p = ''/api/v1/accounts/by-key/'' @ a) \<or>
     m = ''GET'' \<and> (\<exists>a b. p = a @ ''/prekey_bundle'' @ b) \<or>
     m \<in> {''GET'', ''POST''} \<and> p = ''/api/v1/stats/visits''"
proof -
  have prefix_eq: "starts_with s q \<longleftrightarrow> (\<exists>a. s = q @ a)" for s q :: string
    unfolding starts_with_def by (metis append_eq_conv_conj append_take_drop_id)
  show ?thesis
    unfolding is_unauthenticated_route_def contains_str_iff prefix_eq by auto
qed

text \<open>
  C34: the public routes.  On the nine listed routes the middleware hands the request on as it is,
  unchecked and with no user attached, whatever headers it has.  On every other route a request
  that lacks one of the three headers is refused, as unauthorized when it lacks the account.  The
  rule for prekey bundles looks for a substring, so it covers every GET path that contains it
  anywhere.
\<close>

theorem public_routes:
  "let m = to_uppercase (rq_method rq); p = rq_path rq in
   if m = ''POST'' \<and> p \<in> {''/api/v1/accounts/register'', ''/api/v1/messages/send'', ''/api/v1/messages/sealed''} \<or>
      m = ''GET'' \<and> p \<in> {''/api/v1/health'', ''/api/v1/ping''} \<or> p = ''/ws'' \<or>
      m = ''GET'' \<and> (\<exists>a. p = ''/api/v1/accounts/by-key/'' @ a) \<or>
      m = ''GET'' \<and> (\<exists>a b. p = a @ ''/prekey_bundle'' @ b) \<or>
      m \<in> {''GET'', ''POST''} \<and> p = ''/api/v1/stats/visits''
   then auth_middleware P E clock next_run rq = Ok (next_run rq)
   else auth_middleware P E clock next_run (rq\<lparr>rq_headers := (rq_headers rq)(''X-Account-Id'' := None)\<rparr>) = Err UNAUTHORIZED \<and>
     (\<forall>h \<in> {''X-Account-Id'', ''X-Timestamp'', ''X-Signature''}.
        \<exists>e. auth_middleware P E clock next_run (rq\<lparr>rq_headers := (rq_headers rq)(h := None)\<rparr>) = Err e)"
proof (cases "is_unauthenticated_route (to_uppercase (rq_method rq)) (rq_path rq)")
  case True
  then have "auth_middleware P E clock next_run rq = Ok (next_run rq)"
    by (simp add: auth_middleware_def Let_def)
  with True show ?thesis
    unfolding Let_def public_route_iff [symmetric] by (simp only: if_True)
next
  case False
  then have "auth_middleware P E clock next_run (rq\<lparr>rq_headers := (rq_headers rq)(''X-Account-Id'' := None)\<rparr>) = Err UNAUTHORIZED"
    by (simp add: auth_middleware_def Let_def get_header_def)
  moreover have "\<exists>e. auth_middleware P E clock next_run (rq\<lparr>rq_headers := (rq_headers rq)(h := None)\<rparr>) = Err e"
    if "h \<in> {''X-Account-Id'', ''X-Timestamp'', ''X-Signature''}" for h
    by (rule refused_without_header [of _ h]) (use False that in simp_all)
  ultimately show ?thesis
    using False unfolding Let_def public_route_iff [symmetric] by (simp only: if_False) blast
qed

theorem public_routes_witness:
  "auth_middleware demo_prims demo_env None (\<lambda>r. r) (demo_request\<lparr>rq_headers := (rq_headers demo_request)(''X-Account-Id'' := None)\<rparr>) =
     Err UNAUTHORIZED \<and>
   (\<exists>e. auth_middleware demo_prims demo_env None (\<lambda>r. r) (demo_request\<lparr>rq_headers := (rq_headers demo_request)(''X-Signature'' := None)\<rparr>) =
     Err e)"
  using public_routes [of demo_request demo_prims demo_env None "\<lambda>r. r"] demo_guarded
  unfolding Let_def public_route_iff [symmetric] by simp

end
