(* ===== verification/Ratchet_Loop.thy ===== *)
theory Ratchet_Loop
  imports Ratchet_Chain
begin

section \<open>The loops over skipped messages, round by round\<close>

text \<open>
  \<open>skip_message_keys\<close> and \<open>skip_message_keys_for_current_chain\<close> run \<open>for n in recv..until\<close> behind a
  guard.  Here a round of the loop is a step from counter, chain key and cache to the next, so
  that the number of rounds of a call can be stated.  The theorem ties both calls to it: which
  calls run no round at all, and after exactly how many rounds the others stop and with what.
\<close>

inductive loop_round :: "prims \<Rightarrow> bytes \<Rightarrow> u32 \<Rightarrow> u32 \<times> bytes \<times> skip_map \<Rightarrow> u32 \<times> bytes \<times> skip_map \<Rightarrow> bool"
  for P remote_pk until where
  "n < until \<Longrightarrow> kdf_ck P current_ck = Ok (new_ck, mk) \<Longrightarrow>
   loop_round P remote_pk until (n, current_ck, m) (n + 1, new_ck, m((remote_pk, n) \<mapsto> mk))"

inductive_simps loop_round_simps [simp]: "loop_round P remote_pk until (n, ck, m) t"

lemma loop_rounds_end: "(\<exists>t. loop_round P pk until (n, ck, m) t) \<Longrightarrow> n < until"
  by auto

text \<open>No chain of rounds is infinite: the counter grows below \<open>until\<close>.\<close>

lemma loop_rounds_finite: "wfp (\<lambda>t s. loop_round P pk until s t)"
proof (rule wfp_if_convertible_to_nat [where f = "\<lambda>(n, _). unat until - unat n"])
  fix t s
  assume "loop_round P pk until s t"
  then show "(case t of (n, _) \<Rightarrow> unat until - unat n) < (case s of (n, _) \<Rightarrow> unat until - unat n)"
    by cases (auto simp: unat_succ_below word_less_nat_alt dest: unat_succ_below [folded word_less_nat_alt])
qed

text \<open>The rounds from \<open>a\<close> up to \<open>b\<close> and what they leave.\<close>

lemma loop_rounds:
  assumes K: "kdf_ok P" and le: "a \<le> b"
  shows "(loop_round P pk b ^^ (unat b - unat a)) (a, ck, m)
    (b, chain_key_at P ck (unat b - unat a), skip_store P pk ck a b m)"
  using le
proof (induction "unat b - unat a" arbitrary: a ck m)
  case 0
  then have "a = b"
    by (simp add: word_le_nat_alt word_unat_eq_iff)
  moreover have "skip_store P pk ck b b m = m"
    by (auto simp: skip_store_def fun_eq_iff)
  ultimately show ?case
    by simp
next
  case (Suc d)
  then have less: "a < b"
    by (simp add: word_less_nat_alt)
  have suc: "unat (a + 1) = Suc (unat a)"
    by (rule unat_succ_below [OF less])
  have d: "d = unat b - unat (a + 1)" "a + 1 \<le> b" "unat b - unat a = Suc (unat b - unat (a + 1))"
    using Suc.hyps(2) less by (simp_all add: suc word_le_nat_alt word_less_nat_alt)
  have store: "skip_store P pk (chain_next P ck) (a + 1) b (m((pk, a) \<mapsto> chain_msg_key P ck)) = skip_store P pk ck a b m"
    using less by (auto simp: skip_store_def fun_eq_iff msg_key_at_0 suc word_le_nat_alt word_less_nat_alt word_unat_eq_iff Suc_diff_Suc
        simp flip: Suc_le_eq)
  have "loop_round P pk b (a, ck, m) (a + 1, chain_next P ck, m((pk, a) \<mapsto> chain_msg_key P ck))"
    using less by (simp add: kdf_ck_eq(1) [OF K])
  moreover have "(loop_round P pk b ^^ (unat b - unat (a + 1))) (a + 1, chain_next P ck, m((pk, a) \<mapsto> chain_msg_key P ck))
      (b, chain_key_at P ck (unat b - unat a), skip_store P pk ck a b m)"
    using Suc.hyps(1) [OF d(1,2), of "chain_next P ck" "m((pk, a) \<mapsto> chain_msg_key P ck)"] unfolding store d(3) by simp
  ultimately show ?case
    unfolding d(3) by (rule relpowp_Suc_I2)
qed

text \<open>
  C9: the work of a call.  Rounds of the loop always come to an end.  A call that finds its
  message consumed, or more than 1000 messages missing, runs none and leaves the state; every
  other call stops after exactly the missing number of rounds, at most 1000, at the counter
  \<open>until\<close>, where no further round is possible, and stores what the rounds have computed.
\<close>

theorem skip_loops_terminate:
  assumes "kdf_ok P" "remote_ratchet_key st = Some pk" "receiving_chain_key st = Some ck"
  shows "wfp (\<lambda>t s. loop_round P pk until s t) \<and>
    (let missing = unat until - unat (recv_message_number st) in
     if until < recv_message_number st
     then skip_message_keys P until st = (st, Err (RatchetError ''message number already consumed'')) \<and>
       skip_message_keys_for_current_chain P until st = (st, Ok ())
     else if 1000 < missing
     then skip_message_keys P until st = (st, Err (RatchetError ''too many skipped messages'')) \<and>
       skip_message_keys_for_current_chain P until st = (st, Err (RatchetError ''too many skipped messages''))
     else \<exists>ck' m'. (loop_round P pk until ^^ missing) (recv_message_number st, ck, skipped_keys st) (until, ck', m') \<and>
       (\<nexists>t. loop_round P pk until (until, ck', m') t) \<and>
       skip_message_keys P until st = (st\<lparr>skipped_keys := m', receiving_chain_key := Some ck'\<rparr>, Ok ()) \<and>
       skip_message_keys_for_current_chain P until st =
         (st\<lparr>skipped_keys := m', receiving_chain_key := Some ck', recv_message_number := until\<rparr>, Ok ()))"
proof -
  let ?r = "recv_message_number st"
  have guard: "MAX_SKIP < until - ?r \<longleftrightarrow> 1000 < unat until - unat ?r" if "\<not> until < ?r"
    using that by (simp add: MAX_SKIP_def word_less_nat_alt unat_sub word_le_nat_alt not_less)
  note eqs = skip_message_keys_eq [OF assms] skip_for_current_chain_eq [OF assms]
  show ?thesis
  proof (cases "until < ?r")
    case True
    then show ?thesis
      by (simp add: loop_rounds_finite eqs Let_def)
  next
    case False
    then have "(loop_round P pk until ^^ (unat until - unat ?r)) (?r, ck, skipped_keys st)
      (until, chain_key_at P ck (unat until - unat ?r), skip_store P pk ck ?r until (skipped_keys st))"
      by (intro loop_rounds [OF assms(1)]) simp
    moreover have "\<nexists>t. loop_round P pk until (until, ck', m') t" for ck' m'
      using loop_rounds_end by blast
    ultimately show ?thesis
      using False by (auto simp: loop_rounds_finite eqs guard Let_def)
  qed
qed

theorem skip_loops_terminate_witness:
  "\<exists>ck' m'. (loop_round demo_prims (replicate 32 4) 2 ^^ 2) (0, replicate 32 6, Map.empty) (2, ck', m') \<and>
     skip_message_keys demo_prims 2 demo_chain_state =
       (demo_chain_state\<lparr>skipped_keys := m', receiving_chain_key := Some ck'\<rparr>, Ok ())"
  using skip_loops_terminate [of demo_prims demo_chain_state "replicate 32 4" "replicate 32 6" 2]
  by (auto simp: demo_laws demo_chain_state_def Let_def)

end
