(* ===== verification/Ratchet_Agreement.thy ===== *)
theory Ratchet_Agreement
  imports Ratchet_Mailbox
begin

section \<open>What two parties agree on\<close>

text \<open>
  The invariant of \<open>Ratchet_Session\<close> names the chains by a map that only the proofs have.  Here
  it is stated on the two states alone: which keys are ahead of which, and by how much.
\<close>

text \<open>
  \<open>L\<close> leads \<open>F\<close>: it knows \<open>F\<close>'s ratchet key, and \<open>F\<close> has not seen \<open>L\<close>'s.  Its root key is
  \<open>F\<close>'s after the exchange that \<open>F\<close> will make, and its sending chain starts from the same
  exchange.  On the chain from \<open>F\<close> to \<open>L\<close>, the receiving key is the sending key as many steps
  back as there are numbers between the counters.
\<close>

definition leads :: "prims \<Rightarrow> RatchetState \<Rightarrow> RatchetState \<Rightarrow> bool" where
  "leads P L F \<longleftrightarrow> (case (sending_keypair L, sending_keypair F) of
     (Some (pl, sl), Some (pf, sf)) \<Rightarrow>
       remote_ratchet_key L = Some pf \<and> remote_ratchet_key F \<noteq> Some pl \<and>
       (case dh_exchange P sf pl of
          Inl e \<Rightarrow> False
        | Inr x \<Rightarrow> root_key L = root_next P (root_key F) x \<and>
            sending_chain_key L = Some (chain_key_at P (root_chain P (root_key F) x) (unat (send_message_number L)))) \<and>
       (case receiving_chain_key L of
          None \<Rightarrow> sending_chain_key F = None
        | Some rk \<Rightarrow> recv_message_number L \<le> send_message_number F \<and>
            sending_chain_key F = Some (chain_key_at P rk (unat (send_message_number F - recv_message_number L))))
   | _ \<Rightarrow> False)"

lemma in_sync_leads:
  assumes "in_sync P used C kl kf L F to_L to_F"
  shows "leads P L F"
proof -
  obtain pl sl pf sf where k: "kl = (pl, sl)" "kf = (pf, sf)"
    by (cases kl; cases kf)
  from assms have l: "linked P used C kl kf L F" and ok: "party_ok P used C L"
    by (simp_all add: in_sync_def)
  obtain x where x: "dh_exchange P sf pl = Ok x" "root_key L = root_next P (root_key F) x"
    "C pl = root_chain P (root_key F) x"
    using l by (auto simp: linked_def k)
  have "case receiving_chain_key L of
          None \<Rightarrow> sending_chain_key F = None
        | Some rk \<Rightarrow> recv_message_number L \<le> send_message_number F \<and>
            sending_chain_key F = Some (chain_key_at P rk (unat (send_message_number F - recv_message_number L)))"
  proof (cases "receiving_chain_key L")
    case None
    then show ?thesis
      using l by (auto simp: linked_def split: if_splits)
  next
    case (Some rk)
    with ok l have "rk = chain_key_at P (C pf) (unat (recv_message_number L))"
      by (auto simp: party_ok_def linked_def k)
    with Some l show ?thesis
      by (auto simp: linked_def k chain_key_at_add unat_sub word_le_nat_alt split: if_splits)
  qed
  with l x show ?thesis
    by (simp add: leads_def linked_def k)
qed

text \<open>
  C7: the two states stay in step.  In every reachable session state one party leads the other:
  their root keys differ by exactly the exchange that the follower has still to make, and the
  follower's sending chain is the leader's receiving chain, ahead by the messages in between.
\<close>

theorem session_in_step:
  assumes "ratchet_prims_ok P" "session_start P ss ka kb s0" "session_reachable P s0 s"
  shows "\<exists>X. leads P (ends s X) (ends s (peer X))"
  using session_reachable_inv [OF assms] unfolding session_inv_def by (blast intro: in_sync_leads)

theorem session_in_step_witness:
  "\<exists>(s :: session) p X. p \<in> net s Bob \<and> p_plain p = [1, 2, 3] \<and> leads demo_prims (ends s X) (ends s (peer X))"
proof -
  obtain s0 s p where s: "session_start demo_prims (replicate 32 7) (demo_pair 1) (demo_pair 2) s0"
    "session_reachable demo_prims s0 s" "p \<in> net s Bob" "p_plain p = [1, 2, 3]"
    "drawn_keys s = {replicate 32 1, replicate 32 2}" "gap_ok (ends s Bob) (p_header p)"
    by (rule demo_session)
  obtain X where "leads demo_prims (ends s X) (ends s (peer X))"
    using session_in_step [OF demo_ratchet_prims s(1,2)] ..
  then show ?thesis
    by (intro exI conjI) (rule s(3,4))+
qed

end
