(* ===== verification/Ratchet_Outage.thy ===== *)
theory Ratchet_Outage
  imports Ratchet_Refinement Ratchet_Mailbox
begin

section \<open>A direction that is cut off\<close>

text \<open>
  What the skipping limit means for the rest of a session.  Once a sender is more than 1000
  messages ahead of its peer on the open chain, or has closed the chain at such a length, and
  nothing that the peer could still open is in flight, the peer refuses all that follows: the
  ratchet step that would start a new chain first has to account for the closed one.
\<close>

definition out_of_reach :: "RatchetState \<Rightarrow> RatchetState \<Rightarrow> bool" where
  "out_of_reach st other \<longleftrightarrow> receiving_chain_key st \<noteq> None \<and> (case sending_keypair other of
     None \<Rightarrow> False
   | Some (k, _) \<Rightarrow>
       unat (recv_message_number st) + 1000 <
         unat (if remote_ratchet_key st = Some k then send_message_number other else previous_chain_length other))"

definition cut_off :: "session \<Rightarrow> party \<Rightarrow> bool" where
  "cut_off s X \<longleftrightarrow> out_of_reach (ends s X) (ends s (peer X)) \<and> (\<forall>p \<in> net s X. \<not> gap_ok (ends s X) (p_header p))"

subsection \<open>Refusals\<close>

lemma decrypt_beyond:
  assumes "slices_ok P" "kdf_ok P" "receiving_chain_key st = Some ck" "remote_ratchet_key st = Some k"
    and "length (h_ratchet_public_key h) = 32" "skipped_keys st (h_ratchet_public_key h, h_message_number h) = None"
    and "unat (recv_message_number st) + 1000 <
      unat (if k = h_ratchet_public_key h then h_message_number h else h_previous_chain_length h)"
  shows "decrypt P drawn h c ad st = (st, Err (RatchetError ''too many skipped messages''))"
proof (cases "k = h_ratchet_public_key h")
  case True
  with assms have "\<not> h_message_number h < recv_message_number st" "MAX_SKIP < h_message_number h - recv_message_number st"
    by (simp_all add: MAX_SKIP_def word_less_nat_alt unat_sub word_le_nat_alt)
  with True assms show ?thesis
    by (simp add: decrypt_current receive_at_eq)
next
  case False
  with assms have "\<not> h_previous_chain_length h < recv_message_number st"
    "MAX_SKIP < h_previous_chain_length h - recv_message_number st"
    by (simp_all add: MAX_SKIP_def word_less_nat_alt unat_sub word_le_nat_alt)
  with False assms show ?thesis
    by (simp add: decrypt_new_key skip_for_current_chain_eq)
qed

lemma readable_beyond:
  assumes "readable P used C sent st p" "\<not> gap_ok st (p_header p)"
  shows "remote_ratchet_key st = Some (p_key p)" "skipped_keys st (p_id p) = None" "length (p_key p) = 32"
    "unat (recv_message_number st) + 1000 < unat (p_num p)"
  using assms by (auto simp: readable_def gap_ok_def split: if_splits)

lemma refused_when_cut_off:
  assumes P: "ratchet_prims_ok P" and inv: "session_inv P s" and cut: "cut_off s X" and p: "p \<in> net s X"
  shows "decrypt P drawn (p_header p) (p_body p) (p_ad p) (ends s X) =
    (ends s X, Err (RatchetError ''too many skipped messages''))"
proof -
  note prims = ratchet_prims [OF P]
  obtain Y C kl kf where i: "in_sync P (drawn_keys s) C kl kf (ends s Y) (ends s (peer Y)) (net s Y) (net s (peer Y))"
    using inv by (auto simp: session_inv_def)
  have gap: "\<not> gap_ok (ends s X) (p_header p)" and out: "out_of_reach (ends s X) (ends s (peer X))"
    using cut p by (simp_all add: cut_off_def)
  then obtain ck where ck: "receiving_chain_key (ends s X) = Some ck"
    by (auto simp: out_of_reach_def)
  moreover have "party_ok P (drawn_keys s) C (ends s X)"
    using i by (cases "X = Y") (auto simp: in_sync_def)
  ultimately obtain k where k: "remote_ratchet_key (ends s X) = Some k"
    by (auto simp: party_ok_def)
  note refuse = decrypt_beyond [OF prims(1,3) ck k]
  show ?thesis
  proof (cases "\<exists>sent. readable P (drawn_keys s) C sent (ends s X) p")
    case True
    then show ?thesis
      using readable_beyond [OF _ gap] k by (auto intro!: refuse)
  next
    case False
    have X: "X = peer Y"
    proof (cases "X = Y")
      case True
      with i p have "readable P (drawn_keys s) C (send_message_number (ends s (peer Y))) (ends s X) p"
        by (simp add: in_sync_def)
      with False show ?thesis
        by blast
    qed simp
    then have a: "announced P C (fst kl) (ends s Y) p"
      using False i p by (auto simp: in_sync_def)
    have lk: "linked P (drawn_keys s) C kl kf (ends s Y) (ends s X)"
      using i X by (simp add: in_sync_def)
    then have "length (fst kl) = 32"
      using keypair_lengths(1) [OF prims(2)] by (auto simp: linked_def)
    then show ?thesis
      using lk a out k X
      by (intro refuse) (auto simp: linked_def announced_def out_of_reach_def split: prod.splits)
  qed
qed

subsection \<open>No step leaves it\<close>

lemma encrypt_shape:
  assumes "ratchet_prims_ok P" "session_inv P s" "encrypt P nonce p ad (ends s X) = (st', Ok (h, c))"
  obtains ck pk sk where "sending_keypair (ends s X) = Some (pk, sk)"
    "st' = ends s X\<lparr>sending_chain_key := Some ck, send_message_number := send_message_number (ends s X) + 1\<rparr>"
    "h = \<lparr>h_ratchet_public_key = pk, h_previous_chain_length = previous_chain_length (ends s X),
      h_message_number = send_message_number (ends s X)\<rparr>"
proof -
  obtain pk sk where k: "sending_keypair (ends s X) = Some (pk, sk)"
    using session_keypair [OF assms(2)] by fastforce
  moreover obtain ck where "sending_chain_key (ends s X) = Some ck"
    using assms(3) by (cases "sending_chain_key (ends s X)") (auto simp: encrypt_def)
  ultimately show ?thesis
    using assms(3) encrypt_eq [OF assms(1), of "ends s X"] by (intro that) auto
qed

text \<open>What the two states have in common, for either party in either place.\<close>

lemma session_keys:
  assumes "session_inv P s" "sending_keypair (ends s (peer X)) = Some (k, sk)"
  shows "k \<in> drawn_keys s" "remote_ratchet_key (ends s X) = Some r \<Longrightarrow> r \<in> drawn_keys s"
    "skipped_keys (ends s X) (k, n) = Some mk \<Longrightarrow> remote_ratchet_key (ends s X) = Some k \<and> n < recv_message_number (ends s X)"
proof -
  obtain Y C kl kf where i: "in_sync P (drawn_keys s) C kl kf (ends s Y) (ends s (peer Y)) (net s Y) (net s (peer Y))"
    using assms(1) by (auto simp: session_inv_def)
  have X: "X = Y \<or> X = peer Y"
    by (cases "X = Y") simp_all
  show "k \<in> drawn_keys s" "remote_ratchet_key (ends s X) = Some r \<Longrightarrow> r \<in> drawn_keys s"
    "skipped_keys (ends s X) (k, n) = Some mk \<Longrightarrow> remote_ratchet_key (ends s X) = Some k \<and> n < recv_message_number (ends s X)"
    using X i assms(2) by (auto simp: in_sync_def linked_def party_ok_def)
qed

lemma cut_off_send:
  assumes P: "ratchet_prims_ok P" and inv: "session_inv P s" and cut: "cut_off s X"
    and room: "send_message_number (ends s (peer X)) \<noteq> -1"
    and enc: "encrypt P nonce p ad (ends s (peer X)) = (st', Ok (h, c))"
  shows "out_of_reach (ends s X) st'" "\<not> gap_ok (ends s X) h"
proof -
  obtain ck pk sk where e: "sending_keypair (ends s (peer X)) = Some (pk, sk)"
    "st' = ends s (peer X)\<lparr>sending_chain_key := Some ck, send_message_number := send_message_number (ends s (peer X)) + 1\<rparr>"
    "h = \<lparr>h_ratchet_public_key = pk, h_previous_chain_length = previous_chain_length (ends s (peer X)),
      h_message_number = send_message_number (ends s (peer X))\<rparr>"
    by (rule encrypt_shape [OF P inv enc])
  have out: "out_of_reach (ends s X) (ends s (peer X))"
    using cut by (simp add: cut_off_def)
  moreover have "unat (send_message_number st') = Suc (unat (send_message_number (ends s (peer X))))"
    using succ_not_max [OF room] by (simp add: e(2))
  ultimately show "out_of_reach (ends s X) st'"
    by (simp add: out_of_reach_def e(1,2) split: if_splits)
  have "skipped_keys (ends s X) (pk, send_message_number (ends s (peer X))) = None"
  proof (cases "skipped_keys (ends s X) (pk, send_message_number (ends s (peer X)))")
    case (Some mk)
    with session_keys(3) [OF inv e(1) Some] out show ?thesis
      by (simp add: out_of_reach_def e(1) word_less_nat_alt)
  qed
  with out show "\<not> gap_ok (ends s X) h"
    by (simp add: gap_ok_def out_of_reach_def e(1,3) split: if_splits)
qed

text \<open>A leader opens messages without a ratchet step.\<close>

lemma leader_keeps_sending:
  assumes P: "ratchet_prims_ok P" and i: "in_sync P used C kl kf L F to_L to_F" and p: "p \<in> to_L"
    and d: "decrypt P drawn (p_header p) (p_body p) (p_ad p) L = (L', r)"
  shows "sending_side L' = sending_side L"
proof -
  from i p have ok: "party_ok P used C L" and rd: "readable P used C (send_message_number F) L p"
    and le: "receiving_chain_key L \<noteq> None \<Longrightarrow> recv_message_number L \<le> send_message_number F"
    by (auto simp: in_sync_def linked_def)
  obtain L'' where "decrypt P drawn (p_header p) (p_body p) (p_ad p) L = (L'', receipt L p)" "same_ends L L''"
    by (rule receive_readable [OF P ok rd le, where drawn = drawn], assumption, rule that, assumption+)
  with d show ?thesis
    by (simp add: sending_side_def same_ends_def)
qed

lemma cut_off_peer_receives:
  assumes P: "ratchet_prims_ok P" and inv: "session_inv P s" and cut: "cut_off s X" and p: "p \<in> net s (peer X)"
    and fresh: "box_keypair P pk sk" "pk \<notin> drawn_keys s"
    and d: "decrypt P (pk, sk) (p_header p) (p_body p) (p_ad p) (ends s (peer X)) = (st', r)"
  shows "out_of_reach (ends s X) st'"
proof -
  let ?Y = "peer X"
  have out: "out_of_reach (ends s X) (ends s ?Y)"
    using cut by (simp add: cut_off_def)
  then obtain k ks where k: "sending_keypair (ends s ?Y) = Some (k, ks)"
    by (auto simp: out_of_reach_def split: option.splits)
  obtain st'' where "decrypt P (pk, sk) (p_header p) (p_body p) (p_ad p) (ends s ?Y) = (st'', receipt (ends s ?Y) p)"
    by (rule deliver_outcome [OF P inv p fresh])
  with d have r: "r \<in> {Ok (p_plain p), Err (RatchetError ''too many skipped messages'')}"
    by (auto simp: receipt_def split: if_splits)
  consider "sending_side st' = sending_side (ends s ?Y)"
    | "previous_chain_length st' = send_message_number (ends s ?Y)" "sending_keypair st' = Some (pk, sk)"
      "sending_side st' \<noteq> sending_side (ends s ?Y)"
    using decrypt_side [OF P in_flight(1) [OF P inv p] d, of "p_plain p"] r by blast
  then show ?thesis
  proof cases
    case 1
    with out k show ?thesis
      by (simp add: out_of_reach_def sending_side_def split: if_splits)
  next
    case 2
    obtain Z C kl kf where i: "in_sync P (drawn_keys s) C kl kf (ends s Z) (ends s (peer Z)) (net s Z) (net s (peer Z))"
      using inv by (auto simp: session_inv_def)
    have "Z = X"
    proof (cases "Z = X")
      case False
      then have Z: "Z = ?Y" "peer Z = X"
        by simp_all
      with leader_keeps_sending [OF P i, of p "(pk, sk)" st' r] p d 2(3) show ?thesis
        by simp
    qed
    then have "remote_ratchet_key (ends s X) = Some k"
      using i k by (auto simp: in_sync_def linked_def)
    moreover have "remote_ratchet_key (ends s X) \<noteq> Some pk"
      using session_keys(2) [OF inv k] fresh(2) by blast
    ultimately show ?thesis
      using out 2(1,2) k by (simp add: out_of_reach_def)
  qed
qed

lemma cut_off_event:
  assumes P: "ratchet_prims_ok P" and inv: "session_inv P s" and cut: "cut_off s X" and step: "session_event P s e s'"
  shows "cut_off s' X \<and> accepted X [e] = []"
  using step
proof cases
  case (send nonce Y p ad st' h c)
  show ?thesis
  proof (cases "Y = X")
    case True
    have "encrypt P nonce p ad (ends s X) = (st', Ok (h, c))"
      using send(5) True by simp
    then obtain ck where "st' = ends s X\<lparr>sending_chain_key := Some ck, send_message_number := send_message_number (ends s X) + 1\<rparr>"
      by (rule encrypt_shape [OF P inv])
    then have "gap_ok st' = gap_ok (ends s X)" "out_of_reach st' other = out_of_reach (ends s X) other" for other
      by (auto simp: fun_eq_iff gap_ok_def out_of_reach_def split: option.splits)
    with cut send(1,2) True show ?thesis
      by (simp add: cut_off_def)
  next
    case False
    then have Y: "Y = peer X" "peer Y = X"
      by simp_all
    then have "out_of_reach (ends s X) st'" "\<not> gap_ok (ends s X) h"
      using cut_off_send [OF P inv cut] send(4,5) by simp_all
    with cut send(1,2) Y show ?thesis
      by (auto simp: cut_off_def)
  qed
next
  case (send_refused nonce p ad Y st' err)
  then have "st' = ends s Y"
    using refused_send(1) [OF P session_keypair [OF inv]] by simp
  with send_refused(1,2) cut show ?thesis
    by simp
next
  case (deliver pkt Y pk sk st' r)
  show ?thesis
  proof (cases "Y = X")
    case True
    then have "st' = ends s X" "r = Err (RatchetError ''too many skipped messages'')"
      using refused_when_cut_off [OF P inv cut, of pkt "(pk, sk)"] deliver(3,6) by simp_all
    with cut deliver(1,2) True show ?thesis
      by (simp add: cut_off_def)
  next
    case False
    then have Y: "Y = peer X" "peer Y = X"
      by simp_all
    then have "out_of_reach (ends s X) st'"
      using cut_off_peer_receives [OF P inv cut] deliver(3-6) by simp
    with cut deliver(1,2) Y show ?thesis
      by (cases r) (simp_all add: cut_off_def)
  qed
next
  case (lose Y pkt)
  with cut show ?thesis
    by (auto simp: cut_off_def)
qed

subsection \<open>Properties\<close>

text \<open>
  C18: an outage is final.  If a party of a reachable session is cut off, then, whatever both do
  and the network does from there, it accepts no message any more: every delivery to it is
  refused, its receiving side stays as it was, and it remains cut off.
\<close>

theorem outage_is_final:
  assumes "ratchet_prims_ok P" "session_start P ss ka kb s0" "session_reachable P s0 s"
    and "cut_off s X" "run (session_event P) s es s'"
  shows "accepted X es = [] \<and> cut_off s' X"
proof -
  have "session_inv P s"
    by (rule session_reachable_inv [OF assms(1-3)])
  with assms(5,4) show ?thesis
  proof (induction rule: run.induct)
    case (go s e t es u)
    with cut_off_event [OF assms(1) go.prems(2,1) go.hyps(1)] session_event_inv [OF assms(1) go.hyps(1)] go.prems
    show ?case
      unfolding one_event(2) [of X e es] by simp
  qed simp
qed

subsection \<open>Losses lead to it\<close>

lemma reachable_run: "session_reachable P s0 s \<Longrightarrow> run (session_event P) s es t \<Longrightarrow> session_reachable P s0 t"
  by (rotate_tac, induction rule: run.induct) (auto intro: session_reachable.step)


text \<open>One message sent.\<close>

lemma send_one:
  assumes P: "ratchet_prims_ok P" and inv: "session_inv P s" and nonce: "length (nonce :: bytes) = 24"
    and Y: "sending_chain_key (ends s Y) \<noteq> None" "send_message_number (ends s Y) \<noteq> -1"
  obtains s' h c where "session_event P s (Sent Y p) s'" "ends s' (peer Y) = ends s (peer Y)"
    "sending_keypair (ends s' Y) = sending_keypair (ends s Y)" "sending_chain_key (ends s' Y) \<noteq> None"
    "unat (send_message_number (ends s' Y)) = Suc (unat (send_message_number (ends s Y)))"
    "net s' = (net s)(peer Y := insert \<lparr>p_header = h, p_body = c, p_ad = ad, p_plain = p\<rparr> (net s (peer Y)))"
    "\<lparr>p_header = h, p_body = c, p_ad = ad, p_plain = p\<rparr> \<notin> net s (peer Y)" "drawn_keys s' = drawn_keys s"
    "h_message_number h = send_message_number (ends s Y)"
    "h_previous_chain_length h = previous_chain_length (ends s Y)"
    "map_option fst (sending_keypair (ends s Y)) = Some (h_ratchet_public_key h)"
proof -
  obtain ck pk sk where k: "sending_chain_key (ends s Y) = Some ck" "sending_keypair (ends s Y) = Some (pk, sk)"
    using Y(1) session_keypair [OF inv, of Y] by auto
  let ?h = "\<lparr>h_ratchet_public_key = pk, h_previous_chain_length = previous_chain_length (ends s Y),
      h_message_number = send_message_number (ends s Y)\<rparr>" and ?c = "nonce @ aead_seal P p (Some ad) nonce (chain_msg_key P ck)"
  note e = encrypt_eq [OF P k, of nonce p ad]
  show ?thesis
    by (rule that [where h = ?h and c = ?c, OF session_event.send [OF nonce Y(2) e]])
      (simp_all add: k succ_not_max [OF Y(2)] send_inv(2) [OF P inv nonce Y(2) e])
qed

text \<open>Any number of messages, each of them lost.\<close>

fun losses :: "nat \<Rightarrow> party \<Rightarrow> bytes \<Rightarrow> event list" where
  "losses 0 Y p = []"
| "losses (Suc n) Y p = Sent Y p # Lost (peer Y) # losses n Y p"

lemma send_and_lose:
  assumes P: "ratchet_prims_ok P"
  shows "session_inv P s \<Longrightarrow> sending_chain_key (ends s Y) \<noteq> None \<Longrightarrow>
    unat (send_message_number (ends s Y)) + n < 2 ^ 32 - 1 \<Longrightarrow>
    \<exists>s'. run (session_event P) s (losses n Y p) s' \<and> ends s' (peer Y) = ends s (peer Y) \<and> net s' = net s \<and>
      drawn_keys s' = drawn_keys s \<and> sending_keypair (ends s' Y) = sending_keypair (ends s Y) \<and>
      sending_chain_key (ends s' Y) \<noteq> None \<and>
      unat (send_message_number (ends s' Y)) = unat (send_message_number (ends s Y)) + n"
proof (induction n arbitrary: s)
  case 0
  then show ?case
    by (intro exI [of _ s]) simp
next
  case (Suc n)
  have top: "send_message_number (ends s Y) \<noteq> -1"
    using Suc.prems(3) by (auto simp: unsigned_minus_1_eq_mask mask_eq_exp_minus_1)
  have nonce: "length (replicate 24 0 :: bytes) = 24"
    by simp
  obtain t h c where t: "session_event P s (Sent Y p) t" "ends t (peer Y) = ends s (peer Y)"
    "sending_keypair (ends t Y) = sending_keypair (ends s Y)" "sending_chain_key (ends t Y) \<noteq> None"
    "unat (send_message_number (ends t Y)) = Suc (unat (send_message_number (ends s Y)))"
    "net t = (net s)(peer Y := insert \<lparr>p_header = h, p_body = c, p_ad = [], p_plain = p\<rparr> (net s (peer Y)))"
    "\<lparr>p_header = h, p_body = c, p_ad = [], p_plain = p\<rparr> \<notin> net s (peer Y)" "drawn_keys t = drawn_keys s"
    by (rule send_one [OF P Suc.prems(1) nonce Suc.prems(2) top, of p "[]"])
  let ?p = "\<lparr>p_header = h, p_body = c, p_ad = [], p_plain = p\<rparr>"
  let ?u = "t\<lparr>net := (net t)(peer Y := net t (peer Y) - {?p})\<rparr>"
  have lost: "session_event P t (Lost (peer Y)) ?u"
    by (rule session_event.lose)
  have net: "net ?u = net s"
    using t(6,7) by (auto simp: fun_eq_iff)
  have "session_inv P ?u"
    by (rule session_event_inv [OF P lost session_event_inv [OF P t(1) Suc.prems(1)]])
  then obtain u where "run (session_event P) ?u (losses n Y p) u" "ends u (peer Y) = ends s (peer Y)" "net u = net s"
    "drawn_keys u = drawn_keys s" "sending_keypair (ends u Y) = sending_keypair (ends s Y)" "sending_chain_key (ends u Y) \<noteq> None"
    "unat (send_message_number (ends u Y)) = unat (send_message_number (ends s Y)) + Suc n"
    using Suc.IH [of ?u] Suc.prems(3) t(2-5,8) net by auto
  with t(1) lost show ?case
    by auto
qed

text \<open>
  A receiver with an open chain and nothing in flight is cut off by the loss of 1001 messages
  more than it has passed.
\<close>

lemma losses_cut_off:
  assumes P: "ratchet_prims_ok P" and inv: "session_inv P s" and Y: "sending_chain_key (ends s Y) \<noteq> None"
    and X: "receiving_chain_key (ends s (peer Y)) \<noteq> None" "net s (peer Y) = {}"
      "remote_ratchet_key (ends s (peer Y)) = map_option fst (sending_keypair (ends s Y))"
    and n: "unat (recv_message_number (ends s (peer Y))) + 1000 < unat (send_message_number (ends s Y)) + n"
      "unat (send_message_number (ends s Y)) + n < 2 ^ 32 - 1"
  obtains s' where "run (session_event P) s (losses n Y p) s'" "cut_off s' (peer Y)" "drawn_keys s' = drawn_keys s"
    "sending_chain_key (ends s' Y) \<noteq> None" "unat (send_message_number (ends s' Y)) = unat (send_message_number (ends s Y)) + n"
proof -
  obtain s' where s': "run (session_event P) s (losses n Y p) s'" "ends s' (peer Y) = ends s (peer Y)" "net s' = net s"
      "drawn_keys s' = drawn_keys s" "sending_keypair (ends s' Y) = sending_keypair (ends s Y)" "sending_chain_key (ends s' Y) \<noteq> None"
      "unat (send_message_number (ends s' Y)) = unat (send_message_number (ends s Y)) + n"
    using send_and_lose [OF P inv Y n(2), of p] by blast
  obtain k sk where "sending_keypair (ends s Y) = Some (k, sk)"
    using session_keypair [OF inv, of Y] by fastforce
  then have "cut_off s' (peer Y)"
    using X n(1) s' by (simp add: cut_off_def out_of_reach_def)
  with s' show ?thesis
    by (intro that)
qed

subsection \<open>An outage\<close>

text \<open>What Bob's first delivery opens.\<close>

lemma first_delivery:
  assumes P: "ratchet_prims_ok P" and kp: "box_keypair P pb sb" "box_keypair P pd sd" "box_keypair P pa sa"
    and h: "h_ratchet_public_key h = pa" "h_message_number h = 0"
    and d: "decrypt P (pd, sd) h c ad (init_receiver ss (pb, sb)) = (st', r)"
  shows "receiving_chain_key st' \<noteq> None" "remote_ratchet_key st' = Some pa" "recv_message_number st' = 1"
proof -
  note prims = ratchet_prims [OF P]
  obtain x where x: "dh_exchange P sb pa = Ok x"
    by (rule dh_exchange_agree [OF prims(1,2) kp(1,3)])
  obtain y where y: "dh_exchange P sd pa = Ok y"
    by (rule dh_exchange_agree [OF prims(1,2) kp(2,3)])
  let ?F = "init_receiver ss (pb, sb)"
  obtain st where st: "dh_ratchet_step P (pd, sd) pa ?F = (st, Ok ())" "remote_ratchet_key st = Some pa"
    "receiving_chain_key st = Some (root_chain P ss x)" "recv_message_number st = 0"
    using dh_ratchet_step_eq [OF prims(3) _ x y, of ?F pb pd] by (auto simp: init_receiver_def)
  have "length pa = 32"
    by (rule keypair_lengths [OF prims(2) kp(3)])
  then have "decrypt P (pd, sd) h c ad ?F = receive_at P 0 c ad st"
    using decrypt_new_key [OF prims(1), of ?F h "(pd, sd)" c ad] st(1) h
    by (simp add: init_receiver_def skip_message_keys_for_current_chain_def)
  with d receive_at_eq [OF prims(3) st(2,3), of 0 c ad] st
  show "receiving_chain_key st' \<noteq> None" "remote_ratchet_key st' = Some pa" "recv_message_number st' = 1"
    by auto
qed

text \<open>A session in which Alice's first message has arrived.\<close>

lemma demo_keypair: "box_keypair demo_prims (replicate 32 b) (replicate 32 b)"
  using demo_pair_ok [of b] by (simp add: demo_pair_def)

lemma demo_opened:
  obtains s0 s where "session_start demo_prims (replicate 32 7) (demo_pair 1) (demo_pair 2) s0"
    "session_reachable demo_prims s0 s" "sending_chain_key (ends s Alice) \<noteq> None"
    "receiving_chain_key (ends s Bob) \<noteq> None" "net s Bob = {}"
    "remote_ratchet_key (ends s Bob) = map_option fst (sending_keypair (ends s Alice))"
    "unat (recv_message_number (ends s Bob)) = 1" "unat (send_message_number (ends s Alice)) = 1"
    "drawn_keys s = {replicate 32 3, replicate 32 1, replicate 32 2}"
proof -
  let ?P = demo_prims
  note P = demo_ratchet_prims
  obtain s0 where s0: "session_start ?P (replicate 32 7) (demo_pair 1) (demo_pair 2) s0"
    by (rule demo_first_message)
  have inv0: "session_inv ?P s0"
    by (rule session_start_inv [OF P s0])
  obtain x where "dh_exchange ?P (replicate 32 1) (replicate 32 2) = Ok x"
    by (rule dh_exchange_agree [OF ratchet_prims(1,2) [OF P] demo_keypair demo_keypair])
  note a = init_sender_eq [OF ratchet_prims(5,3) [OF P] this, of "replicate 32 1" "replicate 32 7"]
  have "init_sender ?P (replicate 32 1, replicate 32 1) (replicate 32 7) (replicate 32 2) = Ok (ends s0 Alice)"
    using s0 by (simp add: session_start_def demo_pair_def)
  note start = sum.inject(2) [THEN iffD1, OF a [unfolded this]]
  have alice: "sending_chain_key (ends s0 Alice) \<noteq> None" "send_message_number (ends s0 Alice) = 0"
    "sending_keypair (ends s0 Alice) = Some (demo_pair 1)" "ends s0 Bob = init_receiver (replicate 32 7) (demo_pair 2)"
    "net s0 = (\<lambda>_. {})" "drawn_keys s0 = {replicate 32 1, replicate 32 2}"
    unfolding start using s0 by (simp_all add: session_start_def demo_pair_def)
  then have top: "send_message_number (ends s0 Alice) \<noteq> -1" and nonce: "length (replicate 24 0 :: bytes) = 24"
    by simp_all
  obtain s1 h c where s1: "session_event ?P s0 (Sent Alice [1]) s1" "ends s1 (peer Alice) = ends s0 (peer Alice)"
    "sending_keypair (ends s1 Alice) = sending_keypair (ends s0 Alice)" "sending_chain_key (ends s1 Alice) \<noteq> None"
    "unat (send_message_number (ends s1 Alice)) = Suc (unat (send_message_number (ends s0 Alice)))"
    "net s1 = (net s0)(peer Alice := insert \<lparr>p_header = h, p_body = c, p_ad = [], p_plain = [1]\<rparr> (net s0 (peer Alice)))"
    "drawn_keys s1 = drawn_keys s0" "h_message_number h = send_message_number (ends s0 Alice)"
    "map_option fst (sending_keypair (ends s0 Alice)) = Some (h_ratchet_public_key h)"
    by (rule send_one [OF P inv0 nonce alice(1) top, of "[1]" "[]"])
  let ?p = "\<lparr>p_header = h, p_body = c, p_ad = [], p_plain = [1]\<rparr>"
  have inv1: "session_inv ?P s1"
    by (rule session_event_inv [OF P s1(1) inv0])
  have p: "?p \<in> net s1 Bob" "replicate 32 3 \<notin> drawn_keys s1"
    using s1(6,7) alice(6) by simp_all
  obtain b where d: "decrypt ?P (replicate 32 3, replicate 32 3) (p_header ?p) (p_body ?p) (p_ad ?p) (ends s1 Bob) = (b, receipt (ends s1 Bob) ?p)"
    by (rule deliver_outcome [OF P inv1 p(1) demo_keypair p(2)])
  have h: "h_ratchet_public_key h = replicate 32 1" "h_message_number h = 0"
    using s1(8,9) alice(2,3) by (simp_all add: demo_pair_def)
  have bob: "receiving_chain_key b \<noteq> None" "remote_ratchet_key b = Some (replicate 32 1)" "recv_message_number b = 1"
    using first_delivery [OF P demo_keypair [of 2] demo_keypair [of 3] demo_keypair [of 1] h, of c "[]" "replicate 32 7" b]
      d s1(2) alice(4) by (simp_all add: demo_pair_def)
  show ?thesis
    by (rule that [OF s0 session_reachable.step [OF session_reachable.step [OF session_reachable.start s1(1)]
          session_event.deliver [OF p(1) demo_keypair p(2) d]]])
      (use bob s1(3-7) alice(2,3,5,6) in \<open>simp_all add: demo_pair_def\<close>)
qed

text \<open>Her next 1001 messages are lost; the one after them is refused, and with it all that follow.\<close>

lemma demo_outage:
  obtains s0 s t where "session_start demo_prims (replicate 32 7) (demo_pair 1) (demo_pair 2) s0"
    "session_reachable demo_prims s0 s" "cut_off s Bob" "run (session_event demo_prims) s [Sent Alice [4],
       Received Bob (Err (RatchetError ''too many skipped messages''))] t"
proof -
  let ?P = demo_prims
  note P = demo_ratchet_prims
  obtain s0 s2 where s0: "session_start ?P (replicate 32 7) (demo_pair 1) (demo_pair 2) s0"
    and s2: "session_reachable ?P s0 s2" "sending_chain_key (ends s2 Alice) \<noteq> None"
      "receiving_chain_key (ends s2 Bob) \<noteq> None" "net s2 Bob = {}"
      "remote_ratchet_key (ends s2 Bob) = map_option fst (sending_keypair (ends s2 Alice))"
      "unat (recv_message_number (ends s2 Bob)) = 1" "unat (send_message_number (ends s2 Alice)) = 1"
      "drawn_keys s2 = {replicate 32 3, replicate 32 1, replicate 32 2}"
    by (rule demo_opened)
  have far: "unat (recv_message_number (ends s2 Bob)) + 1000 < unat (send_message_number (ends s2 Alice)) + 1001"
    "unat (send_message_number (ends s2 Alice)) + 1001 < 2 ^ 32 - 1"
    using s2(6,7) by simp_all
  obtain s where s: "run (session_event ?P) s2 (losses 1001 Alice [2]) s" "cut_off s (peer Alice)" "drawn_keys s = drawn_keys s2"
    "sending_chain_key (ends s Alice) \<noteq> None" "unat (send_message_number (ends s Alice)) = unat (send_message_number (ends s2 Alice)) + 1001"
    by (rule losses_cut_off [OF P session_reachable_inv [OF P s0 s2(1)] s2(2), of 1001 "[2]"]) (use s2(3-5) far in simp_all)
  have reach: "session_reachable ?P s0 s"
    by (rule reachable_run [OF s2(1) s(1)])
  have inv: "session_inv ?P s"
    by (rule session_reachable_inv [OF P s0 reach])
  have top: "send_message_number (ends s Alice) \<noteq> -1" and nonce: "length (replicate 24 0 :: bytes) = 24"
    using s(5) s2(7) by (auto simp: unsigned_minus_1_eq_mask mask_eq_exp_minus_1)
  obtain u h c where u: "session_event ?P s (Sent Alice [4]) u"
    "net u = (net s)(peer Alice := insert \<lparr>p_header = h, p_body = c, p_ad = [], p_plain = [4]\<rparr> (net s (peer Alice)))"
    "drawn_keys u = drawn_keys s"
    by (rule send_one [OF P inv nonce s(4) top, of "[4]" "[]"])
  let ?q = "\<lparr>p_header = h, p_body = c, p_ad = [], p_plain = [4]\<rparr>"
  have cut: "cut_off u Bob"
    using cut_off_event [OF P inv _ u(1), of Bob] s(2) by simp
  have q: "?q \<in> net u Bob" "replicate 32 5 \<notin> drawn_keys u"
    using u(2,3) s(3) s2(8) by simp_all
  note refused = refused_when_cut_off [OF P session_event_inv [OF P u(1) inv] cut q(1)]
  have "run (session_event ?P) s [Sent Alice [4], Received Bob (Err (RatchetError ''too many skipped messages''))]
    (u\<lparr>ends := (ends u)(Bob := ends u Bob), net := (net u)(Bob := net u Bob - {?q}),
       drawn_keys := insert (replicate 32 5) (drawn_keys u)\<rparr>)"
    using u(1) session_event.deliver [OF q(1) demo_keypair q(2) refused] by auto
  with s(2) show ?thesis
    by (intro that [OF s0 reach]) simp_all
qed

theorem outage_is_final_witness:
  "\<exists>s t. run (session_event demo_prims) s [Sent Alice [4], Received Bob (Err (RatchetError ''too many skipped messages''))] t \<and>
     cut_off s Bob \<and> cut_off t Bob"
proof -
  obtain s0 s t where s: "session_start demo_prims (replicate 32 7) (demo_pair 1) (demo_pair 2) s0"
    "session_reachable demo_prims s0 s" "cut_off s Bob" "run (session_event demo_prims) s [Sent Alice [4],
       Received Bob (Err (RatchetError ''too many skipped messages''))] t"
    by (rule demo_outage)
  from outage_is_final [OF demo_ratchet_prims s] s(3,4) show ?thesis
    by blast
qed

end
