(* ===== verification/Ratchet_Wrap.thy ===== *)
theory Ratchet_Wrap
  imports Ratchet_Chain
begin

section \<open>The message counters at the top of u32\<close>

text \<open>
  \<open>Ratchet_Session\<close> lets a party send only while it has a free message number.  The code has no
  such check: \<open>send_message_number += 1\<close> and \<open>header.message_number + 1\<close> wrap in a release build.
  Here is what the wrap does to the two ends of one chain.
\<close>

abbreviation wrap_header :: "bytes \<Rightarrow> u32 \<Rightarrow> u32 \<Rightarrow> MessageHeader" where
  "wrap_header pk pn n \<equiv> \<lparr>h_ratchet_public_key = pk, h_previous_chain_length = pn, h_message_number = n\<rparr>"

lemma send_at_top:
  assumes P: "ratchet_prims_ok P" and a: "sending_chain_key a = Some ck" "sending_keypair a = Some (pk, sk)"
    "send_message_number a = -1"
  shows "\<exists>a'. encrypt P nonce p ad a = (a', Ok (wrap_header pk (previous_chain_length a) (-1),
      nonce @ aead_seal P p (Some ad) nonce (msg_key_at P ck 0))) \<and> sending_chain_key a' = Some (chain_next P ck) \<and>
    sending_keypair a' = Some (pk, sk) \<and> send_message_number a' = 0 \<and> previous_chain_length a' = previous_chain_length a"
  using encrypt_eq [OF P a(1,2), of nonce p ad] a by (simp add: msg_key_at_0)

text \<open>A receiver in the chain with key \<open>pk\<close>, about to expect the number \<open>n\<close> with the chain key \<open>ck\<close>.\<close>

definition expects :: "bytes \<Rightarrow> bytes \<Rightarrow> u32 \<Rightarrow> RatchetState \<Rightarrow> bool" where
  "expects pk ck n st \<longleftrightarrow> remote_ratchet_key st = Some pk \<and> length pk = 32 \<and> receiving_chain_key st = Some ck \<and>
     recv_message_number st = n"

text \<open>Receiving one that is not cached, up to the limit ahead.\<close>

lemma receive_ahead:
  assumes P: "ratchet_prims_ok P" and st: "expects pk ck r st" "skipped_keys st (pk, n) = None"
    and n: "r \<le> n" "unat n - unat r \<le> 1000"
  obtains st' where "decrypt P drawn (wrap_header pk pn n) c ad st =
      (st', decrypt_with_key P (msg_key_at P ck (unat n - unat r)) c ad)"
    "expects pk (chain_key_at P ck (Suc (unat n - unat r))) (n + 1) st'"
    "\<And>k m. k \<noteq> pk \<or> m < r \<or> n \<le> m \<Longrightarrow> skipped_keys st' (k, m) = skipped_keys st (k, m)"
proof -
  have st': "remote_ratchet_key st = Some pk" "receiving_chain_key st = Some ck" "length pk = 32" "recv_message_number st = r"
    using st(1) by (simp_all add: expects_def)
  have le: "\<not> n < r" "\<not> MAX_SKIP < n - r"
    using n by (simp_all add: MAX_SKIP_def word_less_nat_alt word_le_nat_alt unat_sub)
  show ?thesis
    by (rule that [where st' = "st\<lparr>skipped_keys := skip_store P pk ck r n (skipped_keys st),
        receiving_chain_key := Some (chain_key_at P ck (Suc (unat n - unat r))), recv_message_number := n + 1\<rparr>"])
      (use st' st(2) le decrypt_current [OF ratchet_prims(1) [OF P], of st "wrap_header pk pn n" drawn c ad]
        receive_at_eq [OF ratchet_prims(3) [OF P] st'(1,2), of n c ad] in \<open>auto simp: expects_def skip_store_def\<close>)
qed

text \<open>
  C19: the counters wrap.  A sender at the largest number sends it and then number 0 of the same
  chain.  A receiver that expects the largest number opens both in this order.  In the other
  order, number 0 is refused as consumed.  After the wrap, a number of the chain that was consumed
  before it and is at most 1000 is not refused as consumed any more: its body is opened with the
  key of a later position, and the receiver moves past it.
\<close>

theorem counters_wrap:
  assumes P: "ratchet_prims_ok P"
    and a: "sending_chain_key a = Some ck" "sending_keypair a = Some (pk, sk)" "send_message_number a = -1"
    and b: "expects pk ck (-1) b" "\<forall>m. skipped_keys b (pk, m) = None" and nonces: "length nonce = 24" "length nonce' = 24"
  shows "\<exists>a1 h0 c0 a2 h1 c1 b1. encrypt P nonce p ad a = (a1, Ok (h0, c0)) \<and> encrypt P nonce' p' ad' a1 = (a2, Ok (h1, c1)) \<and>
    h_message_number h0 = -1 \<and> h_message_number h1 = 0 \<and>
    decrypt P drawn h0 c0 ad b = (b1, Ok p) \<and> snd (decrypt P drawn' h1 c1 ad' b1) = Ok p' \<and>
    decrypt P drawn h1 c1 ad' b = (b, Err (RatchetError ''message number already consumed'')) \<and>
    (\<forall>n pn c d. unat n \<le> 1000 \<longrightarrow> (\<exists>b2. decrypt P drawn' (wrap_header pk pn n) c d b1 =
       (b2, decrypt_with_key P (msg_key_at P ck (Suc (unat n))) c d) \<and> recv_message_number b2 = n + 1))"
proof -
  note prims = ratchet_prims [OF P]
  let ?pn = "previous_chain_length a"
  let ?c0 = "nonce @ aead_seal P p (Some ad) nonce (msg_key_at P ck 0)"
    and ?c1 = "nonce' @ aead_seal P p' (Some ad') nonce' (msg_key_at P ck 1)"
  obtain a1 where a1: "encrypt P nonce p ad a = (a1, Ok (wrap_header pk ?pn (-1), ?c0))" "sending_chain_key a1 = Some (chain_next P ck)"
    "sending_keypair a1 = Some (pk, sk)" "send_message_number a1 = 0" "previous_chain_length a1 = ?pn"
    using send_at_top [OF P a] by blast
  obtain a2 where a2: "encrypt P nonce' p' ad' a1 = (a2, Ok (wrap_header pk ?pn 0, ?c1))"
    using encrypt_eq [OF P a1(2,3), of nonce' p' ad'] a1(4,5) by (simp add: msg_key_at_def chain_key_at_def)
  have opens: "decrypt_with_key P (msg_key_at P ck k) (m @ aead_seal P q (Some d) m (msg_key_at P ck k)) d = Ok q"
    if "length m = 24" for m q d k
    using decrypt_with_key_sealed [OF prims(1) _ length_msg_key_at that] prims by blast
  have at_top: "skipped_keys b (pk, -1) = None"
    using b(2) by blast
  obtain b1 where "decrypt P drawn (wrap_header pk ?pn (-1)) ?c0 ad b =
      (b1, decrypt_with_key P (msg_key_at P ck (unat (-1 :: u32) - unat (-1 :: u32))) ?c0 ad)"
    "expects pk (chain_key_at P ck (Suc (unat (-1 :: u32) - unat (-1 :: u32)))) (-1 + 1) b1"
    "\<And>k m. k \<noteq> pk \<or> m < -1 \<or> -1 \<le> m \<Longrightarrow> skipped_keys b1 (k, m) = skipped_keys b (k, m)"
    by (rule receive_ahead [OF P b(1) at_top, of drawn ?pn ?c0 ad]) auto
  then have b1: "decrypt P drawn (wrap_header pk ?pn (-1)) ?c0 ad b = (b1, Ok p)" "expects pk (chain_key_at P ck 1) 0 b1"
    and none: "skipped_keys b1 (pk, m) = None" for m
    using opens [OF nonces(1)] b(2) by (auto simp: word_order.not_eq_extremum [symmetric])
  have later: "\<exists>b2. decrypt P drawn' (wrap_header pk pn n) c d b1 =
       (b2, decrypt_with_key P (msg_key_at P ck (Suc (unat n))) c d) \<and> recv_message_number b2 = n + 1"
    if small: "unat n \<le> 1000" for n pn c d
  proof -
    obtain b2 where "decrypt P drawn' (wrap_header pk pn n) c d b1 =
        (b2, decrypt_with_key P (msg_key_at P (chain_key_at P ck 1) (unat n - unat (0 :: u32))) c d)"
      "expects pk (chain_key_at P (chain_key_at P ck 1) (Suc (unat n - unat (0 :: u32)))) (n + 1) b2"
      by (rule receive_ahead [OF P b1(2) none, of n drawn' pn c d]) (use small in auto)
    then show ?thesis
      by (auto simp: expects_def msg_key_at_add)
  qed
  have "unat (0 :: u32) \<le> 1000"
    by simp
  from later [OF this, of ?pn ?c1 ad'] have "snd (decrypt P drawn' (wrap_header pk ?pn 0) ?c1 ad' b1) = Ok p'"
    using opens [OF nonces(2), of 1] by auto
  moreover have below: "(0 :: u32) < -1"
    by (simp add: word_less_nat_alt unsigned_minus_1_eq_mask mask_eq_exp_minus_1)
  moreover have "decrypt P drawn (wrap_header pk ?pn 0) ?c1 ad' b = (b, Err (RatchetError ''message number already consumed''))"
    using b decrypt_current [OF prims(1), of b "wrap_header pk ?pn 0" drawn ?c1 ad']
      receive_at_eq [OF prims(3), of b pk ck 0 ?c1 ad'] by (simp add: expects_def below)
  ultimately show ?thesis
    using a1(1) a2 b1(1) later
    by (intro exI [of _ a1] exI [of _ "wrap_header pk ?pn (-1)"] exI [of _ ?c0] exI [of _ a2]
        exI [of _ "wrap_header pk ?pn 0"] exI [of _ ?c1] exI [of _ b1]) simp
qed

text \<open>Two states at the top of a chain.\<close>

definition demo_end :: "u32 \<Rightarrow> u32 \<Rightarrow> RatchetState" where
  "demo_end sent received = \<lparr>root_key = replicate 32 7, sending_chain_key = Some (replicate 32 6),
     receiving_chain_key = Some (replicate 32 6), sending_keypair = Some (replicate 32 1, replicate 32 1),
     remote_ratchet_key = Some (replicate 32 1), send_message_number = sent, recv_message_number = received,
     previous_chain_length = 0, skipped_keys = Map.empty\<rparr>"

theorem counters_wrap_witness:
  "\<exists>a1 h0 c0 a2 h1 c1. encrypt demo_prims (replicate 24 0) [1] [] (demo_end (-1) 0) = (a1, Ok (h0, c0)) \<and>
     encrypt demo_prims (replicate 24 0) [2] [] a1 = (a2, Ok (h1, c1)) \<and>
     decrypt demo_prims (replicate 32 3, replicate 32 3) h1 c1 [] (demo_end 0 (-1)) =
       (demo_end 0 (-1), Err (RatchetError ''message number already consumed''))"
proof -
  have "expects (replicate 32 1) (replicate 32 6) (-1) (demo_end 0 (-1))"
    by (simp add: expects_def demo_end_def)
  note w = counters_wrap [OF demo_ratchet_prims _ _ _ this, of "demo_end (-1) 0" "replicate 32 1" "replicate 24 0" "replicate 24 0"
      "[1]" "[]" "[2]" "[]" "(replicate 32 3, replicate 32 3)" "(replicate 32 3, replicate 32 3)"]
  show ?thesis
    using w by (simp add: demo_end_def) blast
qed

end
