(* ===== verification/Sealed_Delivery.thy ===== *)
theory Sealed_Delivery
  imports Sealed_Sender Ratchet_Mailbox
begin

inductive_cases sent_eventE: "session_event P s (Sent X p) s'"

section \<open>Ratchet messages in sealed envelopes\<close>

text \<open>
  How the client puts the two layers together, as \<open>tests/e2e_message_flow.rs\<close> of the crate does:
  the header and the body of a ratchet message are serialized as one value, and the envelope
  carries them with the sender's identity.  \<open>serde_json\<close> on the pair is \<open>ser_msg\<close>, \<open>de_msg\<close>.  The
  test unwraps every result, so any error ends it; the two operations hand the first error on
  instead, one of \<open>serde_json\<close> as \<open>SerializationError\<close>.
\<close>

type_synonym wire_message = "MessageHeader \<times> bytes"

definition seal_message :: "prims \<Rightarrow> (wire_message \<Rightarrow> string + bytes) \<Rightarrow> (SealedSenderEnvelope \<Rightarrow> string + bytes) \<Rightarrow>
    bytes \<Rightarrow> bytes \<times> bytes \<Rightarrow> string \<Rightarrow> bytes \<Rightarrow> bytes \<Rightarrow> bytes \<Rightarrow> RatchetState \<Rightarrow> RatchetState \<times> bytes result" where
  "seal_message P ser_msg ser_env nonce rnd alice_identity_hex bob_ss_pk plaintext ad st =
     and_then_st (encrypt P nonce plaintext ad st) (\<lambda>st message.
     and_then_st (st, map_err SerializationError (ser_msg message)) (\<lambda>st payload.
     (st, seal_envelope P ser_env rnd alice_identity_hex payload bob_ss_pk)))"

definition unseal_message :: "prims \<Rightarrow> (bytes \<Rightarrow> string + wire_message) \<Rightarrow> (bytes \<Rightarrow> string + SealedSenderEnvelope) \<Rightarrow>
    bytes \<times> bytes \<Rightarrow> bytes \<Rightarrow> bytes \<Rightarrow> bytes \<Rightarrow> bytes \<Rightarrow> RatchetState \<Rightarrow> RatchetState \<times> (string \<times> bytes) result" where
  "unseal_message P de_msg de_env drawn bob_ss_pk bob_ss_sk ad envelope_bytes st =
     and_then_st (st, unseal_envelope P de_env envelope_bytes bob_ss_pk bob_ss_sk) (\<lambda>st (recovered_sender_hex, recovered_payload).
     and_then_st (st, map_err SerializationError (de_msg recovered_payload)) (\<lambda>st (recovered_header, recovered_ct).
     and_then_st (decrypt P drawn recovered_header recovered_ct ad st) (\<lambda>st plaintext.
     (st, Ok (recovered_sender_hex, plaintext)))))"

lemma seal_message_opens:
  assumes "sealedbox_ok P" "sodium_init P" "box_keypair P rpk rsk" "utf8_valid (as_bytes sender)"
    and env: "\<forall>x. \<exists>b. ser_env x = Inr b \<and> de_env b = Inr x" and msg: "\<forall>x. \<exists>b. ser_msg x = Inr b \<and> de_msg b = Inr x"
    and enc: "encrypt P nonce p ad st = (st', Ok (h, c))"
  shows "\<exists>b. seal_message P ser_msg ser_env nonce rnd sender rpk p ad st = (st', Ok b) \<and>
    (\<forall>drawn ad' t. unseal_message P de_msg de_env drawn rpk rsk ad' b t =
       and_then_st (decrypt P drawn h c ad' t) (\<lambda>t q. (t, Ok (sender, q))))"
proof -
  obtain m where m: "ser_msg (h, c) = Inr m" "de_msg m = Inr (h, c)"
    using msg by blast
  obtain b where "seal_envelope P ser_env rnd sender m rpk = Ok b" "unseal_envelope P de_env b rpk rsk = Ok (sender, m)"
    by (rule envelope_delivers [OF assms(1-4), of ser_env de_env rnd m]) (use env in blast)+
  with m enc show ?thesis
    by (intro exI [of _ b]) (simp_all add: seal_message_def unseal_message_def)
qed

text \<open>
  C8: sealed delivery.  In every reachable session state, a party that has a sending chain and a
  free message number can seal a message, which is one step of the session; in every state
  reachable from there in which the message is still in flight and within the skipping limit,
  opening the envelope gives the sender's identity and the plaintext.
\<close>

theorem sealed_delivery:
  assumes P: "ratchet_prims_ok P" and box: "sealedbox_ok P" "box_keypair P rpk rsk" "utf8_valid (as_bytes sender)"
    and serde: "\<forall>x. \<exists>b. ser_env x = Inr b \<and> de_env b = Inr x" "\<forall>x. \<exists>b. ser_msg x = Inr b \<and> de_msg b = Inr x"
    and start: "session_start P ss ka kb s0" "session_reachable P s0 s"
    and chain: "sending_chain_key (ends s X) \<noteq> None" "send_message_number (ends s X) \<noteq> -1" "length nonce = 24"
  shows "\<exists>st' h c b s'. encrypt P nonce p ad (ends s X) = (st', Ok (h, c)) \<and>
    seal_message P ser_msg ser_env nonce rnd sender rpk p ad (ends s X) = (st', Ok b) \<and>
    session_event P s (Sent X p) s' \<and> ends s' X = st' \<and>
    net s' (peer X) = insert \<lparr>p_header = h, p_body = c, p_ad = ad, p_plain = p\<rparr> (net s (peer X)) \<and>
    (\<forall>t pk sk. session_reachable P s' t \<and> \<lparr>p_header = h, p_body = c, p_ad = ad, p_plain = p\<rparr> \<in> net t (peer X) \<and>
       box_keypair P pk sk \<and> pk \<notin> drawn_keys t \<and> gap_ok (ends t (peer X)) h \<longrightarrow>
       snd (unseal_message P de_msg de_env (pk, sk) rpk rsk ad b (ends t (peer X))) = Ok (sender, p))"
proof -
  have inv: "session_inv P s"
    by (rule session_reachable_inv [OF P start])
  obtain ck k sk where "sending_chain_key (ends s X) = Some ck" "sending_keypair (ends s X) = Some (k, sk)"
    using chain(1) session_keypair [OF inv, of X] by auto
  from encrypt_eq [OF P this, of nonce p ad] obtain st' h c where e: "encrypt P nonce p ad (ends s X) = (st', Ok (h, c))"
    by blast
  let ?pkt = "\<lparr>p_header = h, p_body = c, p_ad = ad, p_plain = p\<rparr>"
  let ?s' = "s\<lparr>ends := (ends s)(X := st'), net := (net s)(peer X := insert ?pkt (net s (peer X)))\<rparr>"
  obtain b where b: "seal_message P ser_msg ser_env nonce rnd sender rpk p ad (ends s X) = (st', Ok b)"
    "\<And>drawn ad' t. unseal_message P de_msg de_env drawn rpk rsk ad' b t =
       and_then_st (decrypt P drawn h c ad' t) (\<lambda>t q. (t, Ok (sender, q)))"
    using seal_message_opens [OF box(1) ratchet_prims(5) [OF P] box(2,3) serde e, of rnd] by blast
  have sent: "session_event P s (Sent X p) ?s'"
    by (rule session_event.send [OF chain(3,2) e])
  have "snd (unseal_message P de_msg de_env (pk, sk) rpk rsk ad b (ends t (peer X))) = Ok (sender, p)"
    if t: "session_reachable P ?s' t" "?pkt \<in> net t (peer X)" "box_keypair P pk sk" "pk \<notin> drawn_keys t"
      "gap_ok (ends t (peer X)) h" for t pk sk
  proof -
    have "session_inv P t"
      using t(1) by induction (use session_event_inv [OF P sent inv] session_event_inv [OF P] in blast)+
    then obtain u where "decrypt P (pk, sk) h c ad (ends t (peer X)) = (u, receipt (ends t (peer X)) ?pkt)"
      using deliver_outcome [OF P _ t(2-4)] by (metis packet.select_convs(1-3))
    with t(5) show ?thesis
      by (simp add: b(2) receipt_def)
  qed
  with e b(1) sent show ?thesis
    by (intro exI [of _ st'] exI [of _ h] exI [of _ c] exI [of _ b] exI [of _ ?s']) simp
qed

text \<open>A serialization of the pair for the witness: the key behind its length in unary, two words, the body.\<close>

definition demo_ser_msg :: "wire_message \<Rightarrow> string + bytes" where
  "demo_ser_msg m = (case m of (h, c) \<Rightarrow> let k = h_ratchet_public_key h in
     Inr (replicate (length k) 1 @ 0 # k @ to_le_bytes (h_previous_chain_length h) @ to_le_bytes (h_message_number h) @ c))"

definition demo_de_msg :: "bytes \<Rightarrow> string + wire_message" where
  "demo_de_msg b = (let n = length (takeWhile ((=) 1) b); r = drop (n + 1) b; w = drop n r in
     Inr (\<lparr>h_ratchet_public_key = take n r, h_previous_chain_length = from_le_bytes (w ! 0) (w ! 1) (w ! 2) (w ! 3),
           h_message_number = from_le_bytes (w ! 4) (w ! 5) (w ! 6) (w ! 7)\<rparr>, drop 8 w))"

lemma demo_serde_msg: "\<exists>b. demo_ser_msg x = Inr b \<and> demo_de_msg b = Inr x"
proof -
  have "takeWhile ((=) (1 :: u8)) (replicate n 1 @ 0 # r) = replicate n 1" for n r
    by (induction n) auto
  then show ?thesis
    using from_to_le_bytes
    by (cases x) (simp add: demo_ser_msg_def demo_de_msg_def Let_def nth_append to_le_bytes_def del: drop_drop)
qed

theorem sealed_delivery_witness:
  "\<exists>s0 st' b (s' :: session). session_start demo_prims (replicate 32 7) (demo_pair 1) (demo_pair 2) s0 \<and>
     seal_message demo_prims demo_ser_msg demo_ser_env (replicate 24 0) ([1], [2]) ''ab12'' (replicate 32 3) [1, 2, 3] [9]
       (ends s0 Alice) = (st', Ok b) \<and> ends s' Bob = ends s0 Bob \<and>
     snd (unseal_message demo_prims demo_de_msg demo_de_env (demo_pair 5) (replicate 32 3) (replicate 32 3) [9] b
       (ends s' Bob)) = Ok (''ab12'', [1, 2, 3])"
proof -
  let ?P = demo_prims and ?k = "replicate 32 3 :: bytes"
  note P = ratchet_prims [OF demo_ratchet_prims]
  obtain s0 s p where s: "session_start ?P (replicate 32 7) (demo_pair 1) (demo_pair 2) s0"
    "session_event ?P s0 (Sent Alice [1, 2, 3]) s"
    by (rule demo_first_message)
  obtain x where x: "dh_exchange ?P (replicate 32 1) (replicate 32 2) = Ok x"
    using dh_exchange_agree [OF P(1,2) demo_pair_ok [of 1] demo_pair_ok [of 2]] by (auto simp: demo_pair_def)
  have i: "init_sender ?P (replicate 32 1, replicate 32 1) (replicate 32 7) (replicate 32 2) = Ok (ends s0 Alice)"
    and bob: "ends s0 Bob = init_receiver (replicate 32 7) (demo_pair 2)"
    and drawn: "drawn_keys s0 = {replicate 32 1, replicate 32 2}"
    using s(1) by (auto simp: session_start_def demo_pair_def)
  note alice = Inr_inject [OF i [unfolded init_sender_eq [OF P(5,3) x]], symmetric]
  have a: "sending_chain_key (ends s0 Alice) \<noteq> None" "send_message_number (ends s0 Alice) = 0"
    by (simp_all add: alice)
  have serde: "\<forall>x. \<exists>b. demo_ser_env x = Inr b \<and> demo_de_env b = Inr x" "\<forall>x. \<exists>b. demo_ser_msg x = Inr b \<and> demo_de_msg b = Inr x"
    using demo_serde_env demo_serde_msg by (metis demo_ser_env_def, blast)
  have side: "box_keypair ?P ?k ?k" "utf8_valid (as_bytes ''ab12'')" "send_message_number (ends s0 Alice) \<noteq> -1"
    "length (replicate 24 0 :: bytes) = 24"
    using a(2) by (simp_all add: demo_prims_def) code_simp
  obtain st' h c b s' where r: "encrypt ?P (replicate 24 0) [1, 2, 3] [9] (ends s0 Alice) = (st', Ok (h, c))"
    "seal_message ?P demo_ser_msg demo_ser_env (replicate 24 0) ([1], [2]) ''ab12'' ?k [1, 2, 3] [9] (ends s0 Alice) = (st', Ok b)"
    "session_event ?P s0 (Sent Alice [1, 2, 3]) s'"
    "net s' Bob = insert \<lparr>p_header = h, p_body = c, p_ad = [9], p_plain = [1, 2, 3]\<rparr> (net s0 Bob)"
    and opens: "\<forall>t pk sk. session_reachable ?P s' t \<and> \<lparr>p_header = h, p_body = c, p_ad = [9], p_plain = [1, 2, 3]\<rparr> \<in> net t Bob \<and>
       box_keypair ?P pk sk \<and> pk \<notin> drawn_keys t \<and> gap_ok (ends t Bob) h \<longrightarrow>
       snd (unseal_message ?P demo_de_msg demo_de_env (pk, sk) ?k ?k [9] b (ends t Bob)) = Ok (''ab12'', [1, 2, 3])"
    using sealed_delivery [OF demo_ratchet_prims demo_laws(11) side(1,2) serde s(1) session_reachable.start a(1) side(3,4)]
    by (metis peer.simps(1))
  have same: "ends s' Bob = ends s0 Bob" "drawn_keys s' = drawn_keys s0"
    using r(3) by (auto elim!: sent_eventE)
  obtain ck kp where "sending_chain_key (ends s0 Alice) = Some ck" "sending_keypair (ends s0 Alice) = Some kp"
    using a(1) s(1) session_keypair [OF session_start_inv [OF demo_ratchet_prims s(1)], of Alice] by auto
  then have "h_message_number h = 0"
    using r(1) encrypt_eq [OF demo_ratchet_prims, of "ends s0 Alice" ck "fst kp" "snd kp"] a(2) by auto
  then have "gap_ok (ends s' Bob) h"
    by (simp add: gap_ok_def same bob init_receiver_def)
  moreover have "replicate 32 5 \<notin> drawn_keys s'"
    by (simp add: same drawn)
  ultimately have "snd (unseal_message ?P demo_de_msg demo_de_env (demo_pair 5) ?k ?k [9] b (ends s' Bob)) = Ok (''ab12'', [1, 2, 3])"
    using opens r(4) demo_pair_ok [of 5] session_reachable.start [of ?P s'] by (simp add: demo_pair_def)
  with s(1) r(2) same(1) show ?thesis
    by blast
qed

end
