(* ===== verification/Test_Support.thy ===== *)
theory Test_Support
  imports Primitives
begin

section \<open>Unit tests as statements\<close>

text \<open>
  The \<open>#[test]\<close> functions of the crate are translated as propositions: a test that panics,
  by a failed assertion or an \<open>unwrap\<close> of an error, is False.  What a test draws at random is an
  argument, so that the theorems say that the test passes for every draw and not for one.
\<close>

definition unwrap_then :: "'e + 'a \<Rightarrow> ('a \<Rightarrow> bool) \<Rightarrow> bool" where
  "unwrap_then r k = (case r of Inl e \<Rightarrow> False | Inr a \<Rightarrow> k a)"

definition unwrap_some :: "'a option \<Rightarrow> ('a \<Rightarrow> bool) \<Rightarrow> bool" where
  "unwrap_some x k = (case x of None \<Rightarrow> False | Some a \<Rightarrow> k a)"

definition is_err :: "'e + 'a \<Rightarrow> bool" where
  "is_err r = (case r of Inl e \<Rightarrow> True | Inr a \<Rightarrow> False)"

definition is_ok :: "'e + 'a \<Rightarrow> bool" where
  "is_ok r = (case r of Inl e \<Rightarrow> False | Inr a \<Rightarrow> True)"

text \<open>A method of \<open>&mut self\<close>: its result is unwrapped, and the test goes on in the state it leaves.\<close>

definition unwrap_st :: "'s \<times> ('e + 'a) \<Rightarrow> ('s \<Rightarrow> 'a \<Rightarrow> bool) \<Rightarrow> bool" where
  "unwrap_st m k = (case m of (s, r) \<Rightarrow> unwrap_then r (k s))"

lemma test_simps [simp]:
  "unwrap_then (Inr a) k = k a" "\<not> unwrap_then (Inl e) k"
  "unwrap_some (Some b) k' = k' b" "\<not> unwrap_some None k'"
  "is_err (Inl e)" "\<not> is_err (Inr a)" "is_ok (Inr a)" "\<not> is_ok (Inl e)"
  "unwrap_st (s, Inr a) g = g s a" "\<not> unwrap_st (s, Inl e) g"
  by (simp_all add: unwrap_then_def unwrap_some_def is_err_def is_ok_def unwrap_st_def)

lemma unwrap_iff:
  "unwrap_then r k \<longleftrightarrow> (\<exists>a. r = Inr a \<and> k a)" "is_err r \<longleftrightarrow> (\<exists>e. r = Inl e)" "is_ok r \<longleftrightarrow> (\<exists>a. r = Inr a)"
  by (cases r; simp)+

text \<open>
  \<open>hex::decode\<close> also refuses: what it accepts has two hexadecimal digits for each byte.
\<close>

definition hex_strict :: "prims \<Rightarrow> bool" where
  "hex_strict P \<longleftrightarrow> (\<forall>s b. hex_decode P s = Some b \<longrightarrow>
     length s = 2 * length b \<and> list_all is_ascii_hexdigit s)"

lemma hex_strict_length: "hex_strict P \<Longrightarrow> hex_decode P s = Some b \<Longrightarrow> length s = 2 * length b"
  by (simp add: hex_strict_def)

text \<open>\<open>str::repeat\<close>.\<close>

definition repeat_str :: "string \<Rightarrow> nat \<Rightarrow> string" where
  "repeat_str s n = concat (replicate n s)"

lemma length_repeat_str: "length (repeat_str s n) = n * length s"
  by (induction n) (simp_all add: repeat_str_def)

lemma set_repeat_str: "set (repeat_str s n) = (if n = 0 then {} else set s)"
  by (induction n) (auto simp: repeat_str_def)

text \<open>\<open>str::split\<close> on a pattern that is not empty.\<close>

function split_from :: "string \<Rightarrow> string \<Rightarrow> string \<Rightarrow> string list" where
  "split_from sep part [] = [part]"
| "split_from sep part (c # s) =
     (if starts_with (c # s) sep then part # split_from sep [] (drop (length sep - 1) s)
      else split_from sep (part @ [c]) s)"
  by pat_completeness auto
termination
  by (relation "measure (\<lambda>(_, _, s). length s)") auto

definition split_str :: "string \<Rightarrow> string \<Rightarrow> string list" where
  "split_str sep s = split_from sep [] s"

lemma split_from_part:
  "c \<notin> set g \<Longrightarrow> split_from (c # cs) part (g @ s) = split_from (c # cs) (part @ g) s"
  by (induction g arbitrary: part) (auto simp: starts_with_def)

lemma split_join:
  "sep = c # cs \<Longrightarrow> gs \<noteq> [] \<Longrightarrow> \<forall>g \<in> set gs. c \<notin> set g \<Longrightarrow> split_str sep (join sep gs) = gs"
proof (induction sep gs rule: join.induct)
  case (3 sep g h gs)
  then have "split_from (c # cs) [] (join (c # cs) (h # gs)) = h # gs" "c \<notin> set g" "sep = c # cs"
    by (simp_all add: split_str_def)
  then show ?case
    using split_from_part [of c g cs "[]"] by (simp add: split_str_def starts_with_def)
next
  case (2 sep g)
  then show ?case
    using split_from_part [of c g cs "[]" "[]"] by (simp add: split_str_def)
qed simp

end
