(* ===== verification/Tests_Padding.thy ===== *)
theory Tests_Padding
  imports Padding Test_Support
begin

section \<open>The unit tests of padding\<close>

text \<open>
  The test module of \<open>crates/vaultex-crypto/src/padding.rs\<close>; every test passes whatever
  bytes are drawn.  In a loop each round draws anew: the draws are indexed by the message length.
\<close>

definition test_pad_unpad_roundtrip :: "prims \<Rightarrow> random \<Rightarrow> bool" where
  "test_pad_unpad_roundtrip P rnd = (sodium_init P \<and>
     (let original = as_bytes ''hello, vaultex!'' in
      unwrap_then (pad_message rnd original) (\<lambda>padded.
      unwrap_then (unpad_message padded) (\<lambda>recovered. recovered = original))))"

definition test_empty_message_pads_to_minimum :: "prims \<Rightarrow> random \<Rightarrow> bool" where
  "test_empty_message_pads_to_minimum P rnd = (sodium_init P \<and>
     unwrap_then (pad_message rnd []) (\<lambda>padded. length padded = MIN_BUCKET \<and>
     unwrap_then (unpad_message padded) (\<lambda>recovered. recovered = [])))"

definition test_all_bucket_sizes :: "prims \<Rightarrow> (nat \<Rightarrow> random) \<Rightarrow> bool" where
  "test_all_bucket_sizes P rnd = (sodium_init P \<and>
     list_all (\<lambda>(msg_len, expected_bucket).
         let msg = replicate msg_len 0x41 in
         unwrap_then (pad_message (rnd msg_len) msg) (\<lambda>padded. length padded = expected_bucket))
       [(1, 256), (100, 256), (252, 256), (253, 512), (256, 512), (300, 512),
        (508, 512), (509, 1024), (512, 1024), (1000, 1024), (1020, 1024), (1021, 2048),
        (1024, 2048), (2044, 2048), (2045, 4096), (2048, 4096), (4092, 4096), (4093, 8192),
        (4096, 8192), (8188, 8192), (8189, 16384), (8192, 16384), (16380, 16384), (16381, 32768),
        (16384, 32768), (32764, 32768), (32765, 65536), (32768, 65536), (65532, 65536)])"

definition test_large_message_pads_to_multiple_of_max :: "prims \<Rightarrow> random \<Rightarrow> bool" where
  "test_large_message_pads_to_multiple_of_max P rnd = (sodium_init P \<and>
     (let msg = replicate 65536 0x42 in
      unwrap_then (pad_message rnd msg) (\<lambda>padded. length padded = 2 * MAX_BUCKET \<and>
      unwrap_then (unpad_message padded) (\<lambda>recovered. recovered = msg))))"

definition test_same_bucket_same_padded_length :: "prims \<Rightarrow> random \<Rightarrow> random \<Rightarrow> bool" where
  "test_same_bucket_same_padded_length P rnd rnd' = (sodium_init P \<and>
     (let msg1 = replicate 10 0x41; msg2 = replicate 200 0x42 in
      unwrap_then (pad_message rnd msg1) (\<lambda>padded1.
      unwrap_then (pad_message rnd' msg2) (\<lambda>padded2.
        length padded1 = length padded2 \<and> length padded1 = 256))))"

definition test_corrupted_padding_detected :: "prims \<Rightarrow> random \<Rightarrow> bool" where
  "test_corrupted_padding_detected P rnd = (sodium_init P \<and>
     unwrap_then (pad_message rnd (as_bytes ''test data'')) (\<lambda>padded.
       let len = length padded;
           bad_len = word_of_nat (len + 1) :: u32;
           bad_bytes = to_le_bytes bad_len;
           padded = padded[len - 4 := bad_bytes ! 0, len - 3 := bad_bytes ! 1,
                           len - 2 := bad_bytes ! 2, len - 1 := bad_bytes ! 3] in
       is_err (unpad_message padded)))"

definition test_unpad_empty_fails :: "bool" where
  "test_unpad_empty_fails = is_err (unpad_message [])"

definition test_unpad_too_short_fails :: "bool" where
  "test_unpad_too_short_fails = (is_err (unpad_message [0x01]) \<and> is_err (unpad_message [0x01, 0x02]) \<and>
     is_err (unpad_message [0x01, 0x02, 0x03]))"

definition test_unpad_zero_padding_length_fails :: "bool" where
  "test_unpad_zero_padding_length_fails = is_err (unpad_message [0x41, 0x00, 0x00, 0x00, 0x00])"

definition test_unpad_small_padding_length_fails :: "bool" where
  "test_unpad_small_padding_length_fails = (is_err (unpad_message [0x41, 0x01, 0x00, 0x00, 0x00]) \<and>
     is_err (unpad_message [0x41, 0x02, 0x00, 0x00, 0x00]) \<and>
     is_err (unpad_message [0x41, 0x03, 0x00, 0x00, 0x00]))"

definition test_padding_length_encoded_correctly :: "prims \<Rightarrow> random \<Rightarrow> bool" where
  "test_padding_length_encoded_correctly P rnd = (sodium_init P \<and>
     (let msg = replicate 100 0x41 in
      unwrap_then (pad_message rnd msg) (\<lambda>padded. length padded = 256 \<and>
        (let pad_len = from_le_bytes (padded ! 252) (padded ! 253) (padded ! 254) (padded ! 255) in
         pad_len = 156))))"

definition test_max_size_boundary :: "prims \<Rightarrow> random \<Rightarrow> bool" where
  "test_max_size_boundary P rnd = (sodium_init P \<and>
     (let msg = replicate 252 0x41 in
      unwrap_then (pad_message rnd msg) (\<lambda>padded. length padded = 256 \<and>
        (let pad_len = from_le_bytes (padded ! 252) (padded ! 253) (padded ! 254) (padded ! 255) in
         pad_len = 4) \<and>
        unwrap_then (unpad_message padded) (\<lambda>recovered. recovered = msg))))"

definition test_dummy_message_generation :: "prims \<Rightarrow> random \<Rightarrow> bool" where
  "test_dummy_message_generation P rnd = (sodium_init P \<and>
     (let dummy = generate_dummy_message rnd 512 in length dummy = 512 \<and> is_dummy_message dummy))"

definition test_dummy_message_min_size :: "prims \<Rightarrow> random \<Rightarrow> bool" where
  "test_dummy_message_min_size P rnd = (sodium_init P \<and>
     (let dummy = generate_dummy_message rnd 10 in length dummy = MIN_BUCKET))"

definition test_real_message_not_dummy :: "prims \<Rightarrow> random \<Rightarrow> bool" where
  "test_real_message_not_dummy P rnd = (sodium_init P \<and>
     unwrap_then (pad_message rnd (as_bytes ''real message'')) (\<lambda>padded. \<not> is_dummy_message padded))"

definition test_pad_unpad_various_sizes :: "prims \<Rightarrow> (nat \<Rightarrow> random) \<Rightarrow> bool" where
  "test_pad_unpad_various_sizes P rnd = (sodium_init P \<and>
     list_all (\<lambda>sz.
         let msg = replicate sz 0x61 in
         unwrap_then (pad_message (rnd sz) msg) (\<lambda>padded.
         unwrap_then (unpad_message padded) (\<lambda>recovered. recovered = msg)))
       [0, 1, 10, 127, 128, 251, 252, 253, 256, 500, 1020, 1021, 1024, 4000, 8188, 8189, 8192,
        16383, 32767, 65532, 65535])"

definition test_different_messages_same_bucket_same_length :: "prims \<Rightarrow> random \<Rightarrow> random \<Rightarrow> bool" where
  "test_different_messages_same_bucket_same_length P rnd rnd' = (sodium_init P \<and>
     unwrap_then (pad_message rnd (as_bytes ''short'')) (\<lambda>padded_a.
     unwrap_then (pad_message rnd' (as_bytes ''a slightly longer message here'')) (\<lambda>padded_b.
       length padded_a = length padded_b)))"

subsection \<open>They pass\<close>

lemma pad_in_test [simp]: "unwrap_then (pad_message rnd p) k = k (p @ padding_of rnd (length p))"
  by (simp add: pad_message_eq)

lemma padded_in_test [simp]:
  "unpad_message (p @ padding_of rnd (length p)) = Ok p"
  "length p + length (padding_of rnd (length p)) = bucket_size (length p)"
  using unpad_pad_message [OF pad_message_eq] length_pad_message [OF pad_message_eq [of rnd p]] by simp_all

lemma bucket_power:
  assumes "8 < k" "k \<le> 16" "2 ^ (k - 1) < len + 4" "len + 4 \<le> 2 ^ k"
  shows "bucket_size len = 2 ^ k"
proof -
  have "(2::nat) ^ 8 \<le> 2 ^ (k - 1)" "(2::nat) ^ k \<le> 2 ^ 16"
    using assms(1,2) by (intro power_increasing; simp)+
  then have "256 < len + 4" "len + 4 \<le> 65536"
    using assms(3,4) by simp_all
  then obtain j where j: "bucket_size len = 2 ^ j" "8 < j" "j \<le> 16" "2 ^ (j - 1) < len + 4" "len + 4 \<le> 2 ^ j"
    by (rule bucket_medium)
  have "(2::nat) ^ (k - 1) < 2 ^ j" "(2::nat) ^ (j - 1) < 2 ^ k"
    using assms(3,4) j(4,5) by linarith+
  then have "k - 1 < j" "j - 1 < k"
    by simp_all
  with assms(1) j(1,2) show ?thesis
    by (metis Suc_diff_1 less_antisym not_less_eq zero_less_Suc gr_zeroI less_nat_zero_code)
qed

lemmas bucket_powers = bucket_power [of 9, simplified] bucket_power [of 10, simplified]
  bucket_power [of 11, simplified] bucket_power [of 12, simplified] bucket_power [of 13, simplified]
  bucket_power [of 14, simplified] bucket_power [of 15, simplified] bucket_power [of 16, simplified]

lemma length_field_256:
  assumes "bucket_size (length p) = 256"
  shows "from_le_bytes ((p @ padding_of rnd (length p)) ! 252) ((p @ padding_of rnd (length p)) ! 253)
    ((p @ padding_of rnd (length p)) ! 254) ((p @ padding_of rnd (length p)) ! 255) = word_of_nat (256 - length p)"
proof -
  let ?b = "p @ random_bytes rnd (256 - length p - 4) @ to_le_bytes (word_of_nat (256 - length p))"
  have "length p + 4 \<le> 256"
    using bucket_size_ge [of "length p"] assms by (simp add: PAD_LEN_BYTES_def)
  then have "length ?b - PAD_LEN_BYTES = 252"
    by (simp add: PAD_LEN_BYTES_def)
  with le_suffix [of p "random_bytes rnd (256 - length p - 4)" "word_of_nat (256 - length p)"] show ?thesis
    unfolding padding_of_def assms by simp
qed

lemma small_bucket [simp]: "len \<le> 252 \<Longrightarrow> bucket_size len = 256"
  by (simp add: bucket_small)

text \<open>Corrupting the last four bytes replaces the length field.\<close>

lemma overwrite_suffix:
  assumes "length b = n + 4"
  shows "b[n := x ! 0, n + 1 := x ! 1, n + 2 := x ! 2, n + 3 := x ! 3] = take n b @ [x ! 0, x ! 1, x ! 2, x ! 3]"
  using assms by (intro nth_equalityI) (auto simp: nth_append nth_list_update less_Suc_eq numeral_eq_Suc)

lemma unpad_bad_length:
  "length p + 4 < unat w \<or> unat w < 4 \<Longrightarrow> is_err (unpad_message (p @ to_le_bytes w))"
  using le_suffix [of p "[]" w] by (auto simp: unpad_message_def Let_def PAD_LEN_BYTES_def)

lemma bad_length_fields:
  "is_err (unpad_message [a, 0, 0, 0, 0])" "is_err (unpad_message [a, 1, 0, 0, 0])"
  "is_err (unpad_message [a, 2, 0, 0, 0])" "is_err (unpad_message [a, 3, 0, 0, 0])"
  by (simp_all add: unpad_message_def PAD_LEN_BYTES_def from_le_bytes_def)

theorem padding_tests_pass:
  assumes "sodium_init P"
  shows "test_pad_unpad_roundtrip P rnd \<and> test_empty_message_pads_to_minimum P rnd \<and>
    test_all_bucket_sizes P rnds \<and> test_large_message_pads_to_multiple_of_max P rnd \<and>
    test_same_bucket_same_padded_length P rnd rnd' \<and> test_corrupted_padding_detected P rnd \<and>
    test_unpad_empty_fails \<and> test_unpad_too_short_fails \<and> test_unpad_zero_padding_length_fails \<and>
    test_unpad_small_padding_length_fails \<and> test_padding_length_encoded_correctly P rnd \<and>
    test_max_size_boundary P rnd \<and> test_dummy_message_generation P rnd \<and> test_dummy_message_min_size P rnd \<and>
    test_real_message_not_dummy P rnd \<and> test_pad_unpad_various_sizes P rnds \<and>
    test_different_messages_same_bucket_same_length P rnd rnd'"
proof (intro conjI)
  have l: "length (replicate 100 (0x41 :: u8)) = 100" "length (replicate 252 (0x41 :: u8)) = 252"
    "length (replicate 65536 (0x42 :: u8)) = 65536" "length (replicate 10 (0x41 :: u8)) = 10"
    "length (replicate 200 (0x42 :: u8)) = 200"
    by (simp_all only: length_replicate)
  have large: "bucket_size 65536 = 131072"
    by (simp add: bucket_size_def padding_consts div_ceil_def)
  show "test_pad_unpad_roundtrip P rnd"
    by (simp only: test_pad_unpad_roundtrip_def assms Let_def pad_in_test padded_in_test test_simps simp_thms)
  show "test_empty_message_pads_to_minimum P rnd"
    using padded_in_test [of "[]" rnd]
    by (simp add: test_empty_message_pads_to_minimum_def assms MIN_BUCKET_def)
  show "test_all_bucket_sizes P rnds"
    by (simp only: test_all_bucket_sizes_def assms Let_def pad_in_test length_append length_replicate
        padded_in_test(2) [of "replicate n x" for n x, unfolded length_replicate] list.pred_inject prod.case)
      (simp add: bucket_powers)
  show "test_large_message_pads_to_multiple_of_max P rnd"
    by (simp only: test_large_message_pads_to_multiple_of_max_def assms Let_def pad_in_test length_append
        padded_in_test l large MAX_BUCKET_def test_simps simp_thms)
  show "test_same_bucket_same_padded_length P rnd rnd'"
    by (simp only: test_same_bucket_same_padded_length_def assms Let_def pad_in_test length_append
        padded_in_test l) simp
  show "test_unpad_empty_fails" "test_unpad_too_short_fails"
    by (simp_all add: test_unpad_empty_fails_def test_unpad_too_short_fails_def unpad_message_def PAD_LEN_BYTES_def)
  show "test_unpad_zero_padding_length_fails" "test_unpad_small_padding_length_fails"
    by (simp_all add: test_unpad_zero_padding_length_fails_def test_unpad_small_padding_length_fails_def
        bad_length_fields)
  show "test_padding_length_encoded_correctly P rnd"
    using length_field_256 [of "replicate 100 0x41" rnd]
    by (simp only: test_padding_length_encoded_correctly_def assms Let_def pad_in_test length_append
        padded_in_test l) simp
  show "test_max_size_boundary P rnd"
    using length_field_256 [of "replicate 252 0x41" rnd]
    by (simp only: test_max_size_boundary_def assms Let_def pad_in_test length_append
        padded_in_test l test_simps) simp
  show "test_dummy_message_generation P rnd" "test_dummy_message_min_size P rnd"
    using dummy_suffix [of rnd 512] dummy_suffix(1) [of rnd 10]
    by (simp_all add: test_dummy_message_generation_def test_dummy_message_min_size_def assms
        is_dummy_message_def Let_def padding_consts)
  show "test_real_message_not_dummy P rnd"
    by (simp only: test_real_message_not_dummy_def assms pad_in_test padded_not_dummy simp_thms)
  show "test_pad_unpad_various_sizes P rnds"
    by (simp only: test_pad_unpad_various_sizes_def assms Let_def pad_in_test padded_in_test
        test_simps list.pred_inject simp_thms)
  show "test_different_messages_same_bucket_same_length P rnd rnd'"
    by (simp only: test_different_messages_same_bucket_same_length_def assms pad_in_test length_append
        padded_in_test) (simp add: length_as_bytes)
  show "test_corrupted_padding_detected P rnd"
  proof -
    let ?p = "as_bytes ''test data''"
    let ?b = "?p @ padding_of rnd (length ?p)" and ?w = "word_of_nat 257 :: u32"
    have len: "length ?b = 252 + 4"
      by (simp only: length_append padded_in_test) (simp add: length_as_bytes)
    have "is_err (unpad_message (take 252 ?b @ to_le_bytes ?w))"
      by (rule unpad_bad_length) (simp add: len)
    moreover have "to_le_bytes ?w = [to_le_bytes ?w ! 0, to_le_bytes ?w ! 1, to_le_bytes ?w ! 2, to_le_bytes ?w ! 3]"
      by (simp add: to_le_bytes_def)
    ultimately have "is_err (unpad_message (?b[252 := to_le_bytes ?w ! 0, 252 + 1 := to_le_bytes ?w ! 1,
        252 + 2 := to_le_bytes ?w ! 2, 252 + 3 := to_le_bytes ?w ! 3]))"
      by (simp only: overwrite_suffix [OF len])
    then show ?thesis
      unfolding test_corrupted_padding_detected_def pad_in_test Let_def len by (simp add: assms)
  qed
qed

end
