(* ===== verification/Tests_Ciphers.thy ===== *)
theory Tests_Ciphers
  imports Security_Utils Media Aes_Gcm Sealed_Sender Test_Support
begin

section \<open>Unit tests of errors, utilities, ciphers and envelopes\<close>

text \<open>
  The test modules of \<open>errors.rs\<close>, \<open>security.rs\<close>, \<open>aes_gcm.rs\<close>, \<open>media.rs\<close> and
  \<open>sealed_sender.rs\<close> under \<open>crates/vaultex-crypto/src\<close>, for every key, nonce and
  seal drawn.  The tests that a wrong key, a tampered ciphertext or a forged sender is refused
  and that two draws differ hold with overwhelming probability only, which the functional laws of
  the packages do not express; \<open>Tests_Rejections\<close> says what they come down to.  Left out is
  \<open>test_wipe_memory_empty_slice\<close>, which asserts nothing.
\<close>

subsection \<open>Errors\<close>

definition test_error_display :: "bool" where
  "test_error_display =
     (let err = InvalidKeyLength 32 16 in
      error_to_string err = ''invalid key length: expected 32, got 16'')"

definition test_missing_prekey_error :: "bool" where
  "test_missing_prekey_error =
     (let err = MissingOneTimePreKey 42 in
      error_to_string err = ''missing one-time prekey with id 42'')"

subsection \<open>Security utilities\<close>

definition test_constant_time_eq_equal_slices :: "prims \<Rightarrow> bool" where
  "test_constant_time_eq_equal_slices P =
     (let a = as_bytes ''hello vaultex''; b = as_bytes ''hello vaultex'' in constant_time_eq P a b)"

definition test_constant_time_eq_different_slices :: "prims \<Rightarrow> bool" where
  "test_constant_time_eq_different_slices P =
     (let a = as_bytes ''hello vaultex''; b = as_bytes ''hello VAULTEX'' in \<not> constant_time_eq P a b)"

definition test_constant_time_eq_different_lengths :: "prims \<Rightarrow> bool" where
  "test_constant_time_eq_different_lengths P =
     (let a = as_bytes ''short''; b = as_bytes ''longer string'' in \<not> constant_time_eq P a b)"

definition test_constant_time_eq_empty_slices :: "prims \<Rightarrow> bool" where
  "test_constant_time_eq_empty_slices P = constant_time_eq P [] []"

definition test_constant_time_eq_single_bit_difference :: "prims \<Rightarrow> bool" where
  "test_constant_time_eq_single_bit_difference P =
     (let a = replicate 32 0x00; b = (replicate 32 0x00)[31 := 0x01] in \<not> constant_time_eq P a b)"

definition test_secure_random_bytes_correct_length :: "prims \<Rightarrow> random \<Rightarrow> bool" where
  "test_secure_random_bytes_correct_length P rnd =
     (sodium_init P \<and> (let bs = secure_random_bytes rnd 32 in length bs = 32))"

definition test_secure_random_bytes_empty :: "prims \<Rightarrow> random \<Rightarrow> bool" where
  "test_secure_random_bytes_empty P rnd =
     (sodium_init P \<and> (let bs = secure_random_bytes rnd 0 in bs = []))"

definition test_wipe_memory_zeroes_data :: "bool" where
  "test_wipe_memory_zeroes_data =
     (let d = wipe_memory (replicate 64 0xFF) in list_all (\<lambda>b. b = 0) d)"

definition test_wipe_memory_single_byte :: "bool" where
  "test_wipe_memory_single_byte = (let d = wipe_memory (replicate 1 0xAB) in d ! 0 = 0)"

definition test_wipe_memory_vec :: "bool" where
  "test_wipe_memory_vec = (let d = wipe_memory (replicate 256 0xCD) in list_all (\<lambda>b. b = 0) d)"

subsection \<open>Authenticated encryption\<close>

definition test_encrypt_decrypt_roundtrip :: "prims \<Rightarrow> bytes \<Rightarrow> bool" where
  "test_encrypt_decrypt_roundtrip P nonce =
     (let key = replicate 32 0x42; plaintext = as_bytes ''secret message for vaultex'';
          ad = as_bytes ''associated data'' in
      unwrap_then (aes_encrypt P nonce key plaintext (Some ad)) (\<lambda>(nonce, ciphertext).
      unwrap_then (aes_decrypt P key nonce ciphertext (Some ad)) (\<lambda>decrypted. decrypted = plaintext)))"

definition test_encryption_key_wrapper :: "prims \<Rightarrow> bytes \<Rightarrow> bool" where
  "test_encryption_key_wrapper P nonce =
     (let ek = ek_new (replicate 32 0x55); plaintext = as_bytes ''wrapped encryption'' in
      unwrap_then (ek_encrypt P nonce ek plaintext None) (\<lambda>(nonce, ct).
      unwrap_then (ek_decrypt P ek nonce ct None) (\<lambda>pt. pt = plaintext)))"

definition test_empty_plaintext :: "prims \<Rightarrow> bytes \<Rightarrow> bool" where
  "test_empty_plaintext P nonce =
     (let key = replicate 32 0x42 in
      unwrap_then (aes_encrypt P nonce key [] None) (\<lambda>(nonce, ciphertext).
      unwrap_then (aes_decrypt P key nonce ciphertext None) (\<lambda>decrypted. decrypted = [])))"

subsection \<open>Media files\<close>

definition test_media_roundtrip :: "prims \<Rightarrow> bytes \<Rightarrow> bytes \<Rightarrow> bool" where
  "test_media_roundtrip P drawn_key nonce =
     (let plaintext = as_bytes ''hello, this is a test file for VAULTEX media support'' in
      unwrap_then (encrypt_file P drawn_key nonce plaintext) (\<lambda>(ciphertext, key).
      unwrap_then (decrypt_file P ciphertext key) (\<lambda>decrypted. decrypted = plaintext)))"

definition test_empty_file :: "prims \<Rightarrow> bytes \<Rightarrow> bytes \<Rightarrow> bool" where
  "test_empty_file P drawn_key nonce =
     (let plaintext = [] in
      unwrap_then (encrypt_file P drawn_key nonce plaintext) (\<lambda>(ciphertext, key).
      unwrap_then (decrypt_file P ciphertext key) (\<lambda>decrypted. decrypted = [])))"

definition test_large_file :: "prims \<Rightarrow> bytes \<Rightarrow> bytes \<Rightarrow> bool" where
  "test_large_file P drawn_key nonce =
     (let plaintext = replicate (1024 * 1024) 0xAB in
      unwrap_then (encrypt_file P drawn_key nonce plaintext) (\<lambda>(ciphertext, key).
      unwrap_then (decrypt_file P ciphertext key) (\<lambda>decrypted. decrypted = plaintext)))"

definition test_ciphertext_has_nonce_prepended :: "prims \<Rightarrow> bytes \<Rightarrow> bytes \<Rightarrow> bool" where
  "test_ciphertext_has_nonce_prepended P drawn_key nonce =
     (let plaintext = as_bytes ''test'' in
      unwrap_then (encrypt_file P drawn_key nonce plaintext) (\<lambda>(ciphertext, _).
        length ciphertext = SECRETBOX_NONCEBYTES + length plaintext + SECRETBOX_MACBYTES))"

definition test_truncated_ciphertext_fails :: "prims \<Rightarrow> bool" where
  "test_truncated_ciphertext_fails P = is_err (decrypt_file P (replicate 10 0) (replicate 32 0))"

definition test_file_metadata_serialization :: "(FileMetadata \<Rightarrow> string + bytes) \<Rightarrow> (bytes \<Rightarrow> string + FileMetadata) \<Rightarrow> bool" where
  "test_file_metadata_serialization ser de =
     (let meta = \<lparr>fm_filename = ''photo.jpg'', fm_mime_type = ''image/jpeg'', fm_size = 102400,
                  fm_thumbnail = Some ''base64encodeddata''\<rparr> in
      unwrap_then (ser meta) (\<lambda>json.
      unwrap_then (de json) (\<lambda>restored.
        fm_filename restored = ''photo.jpg'' \<and> fm_size restored = 102400 \<and> fm_thumbnail restored \<noteq> None)))"

definition test_file_encryption_key_zeroize :: "bool" where
  "test_file_encryption_key_zeroize =
     (let key_bytes = replicate 32 0x42; fek = fek_new key_bytes in fek_as_bytes fek = key_bytes)"

subsection \<open>Sealed sender\<close>

definition test_encrypt_decrypt_to_identity_roundtrip :: "prims \<Rightarrow> bytes \<times> bytes \<Rightarrow> bytes \<times> bytes \<Rightarrow> bytes \<Rightarrow> bool" where
  "test_encrypt_decrypt_to_identity_roundtrip P sender_pair recipient_pair nonce =
     (sodium_init P &
      unwrap_then (ik_generate P sender_pair) (\<lambda>sender.
      unwrap_then (ik_generate P recipient_pair) (\<lambda>recipient.
      let crlf = [CHR 0x0D, CHR 0x0A];
          plaintext = as_bytes (''v=0'' @ crlf @ ''m=audio 9 UDP/TLS/RTP/SAVPF 111'' @ crlf) in
      unwrap_then (encrypt_to_identity P nonce sender (ik_public_key recipient) plaintext) (\<lambda>sealed.
        sealed \<noteq> plaintext &
        unwrap_then (decrypt_from_identity P recipient (ik_public_key sender) sealed) (\<lambda>opened.
          opened = plaintext)))))"

definition test_seal_unseal_roundtrip :: "prims \<Rightarrow> (SealedSenderEnvelope \<Rightarrow> string + bytes) \<Rightarrow>
    (bytes \<Rightarrow> string + SealedSenderEnvelope) \<Rightarrow> bytes \<times> bytes \<Rightarrow> bytes \<times> bytes \<Rightarrow> bool" where
  "test_seal_unseal_roundtrip P ser de drawn rnd =
     (sodium_init P &
      (case drawn of (pk, sk) \<Rightarrow>
       let sender_hex = ''abcdef1234567890abcdef1234567890abcdef1234567890abcdef1234567890'';
           message = as_bytes ''hello sealed sender'' in
       unwrap_then (seal_envelope P ser rnd sender_hex message pk) (\<lambda>envelope.
       unwrap_then (unseal_envelope P de envelope pk sk) (\<lambda>(recovered_sender, recovered_msg).
         recovered_sender = sender_hex \<and> recovered_msg = message))))"

subsection \<open>They pass\<close>

theorem error_tests_pass: "test_error_display \<and> test_missing_prekey_error"
  unfolding test_error_display_def test_missing_prekey_error_def Let_def error_to_string.simps by code_simp

theorem security_tests_pass:
  assumes "memcmp_ok P" "sodium_init P"
  shows "test_constant_time_eq_equal_slices P \<and> test_constant_time_eq_different_slices P \<and>
    test_constant_time_eq_different_lengths P \<and> test_constant_time_eq_empty_slices P \<and>
    test_constant_time_eq_single_bit_difference P \<and> test_secure_random_bytes_correct_length P rnd \<and>
    test_secure_random_bytes_empty P rnd \<and> test_wipe_memory_zeroes_data \<and>
    test_wipe_memory_single_byte \<and> test_wipe_memory_vec"
proof -
  note eq = constant_time_eq_correct [OF assms(1)]
  have ne: "replicate 32 (0x00 :: u8) \<noteq> (replicate 32 0x00)[31 := 0x01]"
  proof
    assume eq: "replicate 32 (0x00 :: u8) = (replicate 32 0x00)[31 := 0x01]"
    have "replicate 32 (0x00 :: u8) ! 31 = 0" "(replicate 32 (0x00 :: u8))[31 := 0x01] ! 31 = 1"
      by (simp_all only: nth_replicate nth_list_update_eq length_replicate)
    then show False
      using eq by simp
  qed
  have "test_constant_time_eq_equal_slices P" "test_constant_time_eq_different_slices P"
    "test_constant_time_eq_different_lengths P" "test_constant_time_eq_empty_slices P"
    by (simp_all add: test_constant_time_eq_equal_slices_def test_constant_time_eq_different_slices_def
        test_constant_time_eq_different_lengths_def test_constant_time_eq_empty_slices_def eq as_bytes_inject)
  moreover have "test_constant_time_eq_single_bit_difference P"
    unfolding test_constant_time_eq_single_bit_difference_def Let_def eq by (rule ne)
  moreover have "test_secure_random_bytes_correct_length P rnd" "test_secure_random_bytes_empty P rnd"
    by (simp_all add: test_secure_random_bytes_correct_length_def test_secure_random_bytes_empty_def
        secure_random_bytes_def random_bytes_def assms(2))
  moreover have "list_all (\<lambda>b. b = 0) (wipe_memory d)" for d
    by (simp add: wipe_memory_def zeroed_def list_all_iff)
  then have "test_wipe_memory_zeroes_data" "test_wipe_memory_vec"
    unfolding test_wipe_memory_zeroes_data_def test_wipe_memory_vec_def Let_def by blast+
  moreover have "test_wipe_memory_single_byte"
    by (simp add: test_wipe_memory_single_byte_def wipe_memory_def zeroed_def)
  ultimately show ?thesis
    by blast
qed

theorem aead_tests_pass:
  assumes "slices_ok P" "aead_ok P" "sodium_init P" "length nonce = 24"
  shows "test_encrypt_decrypt_roundtrip P nonce \<and> test_encryption_key_wrapper P nonce \<and> test_empty_plaintext P nonce"
proof -
  have "unwrap_then (aes_encrypt P nonce key p ad) (\<lambda>(n, c). unwrap_then (aes_decrypt P key n c ad) k) \<longleftrightarrow> k p"
    if "length key = 32" for key p ad k
    by (simp add: aes_encrypt_eq [OF assms(1,3) that] aes_decrypt_eq [OF assms(1) that assms(4)] aead_laws [OF assms(2)])
  note pass = this [OF length_replicate]
  show ?thesis
    by (simp only: test_encrypt_decrypt_roundtrip_def test_encryption_key_wrapper_def test_empty_plaintext_def Let_def
        ek_new_def ek_encrypt_def ek_decrypt_def EncryptionKey.select_convs pass simp_thms)
qed

theorem media_tests_pass:
  assumes "slices_ok P" "secretbox_ok P" "sodium_init P" "length key = 32" "length nonce = 24"
    and "\<forall>x. \<exists>b. ser x = Inr b \<and> de b = Inr x"
  shows "test_media_roundtrip P key nonce \<and> test_empty_file P key nonce \<and> test_large_file P key nonce \<and>
    test_ciphertext_has_nonce_prepended P key nonce \<and> test_truncated_ciphertext_fails P \<and>
    test_file_metadata_serialization ser de \<and> test_file_encryption_key_zeroize"
proof -
  have enc: "encrypt_file P key nonce p = Ok (nonce @ secretbox_seal P p nonce key, key)"
    if "length p \<le> MAX_FILE_SIZE" for p
    using that assms(3) by (simp add: encrypt_file_def)
  have pass: "unwrap_then (encrypt_file P key nonce p) (\<lambda>(c, k). unwrap_then (decrypt_file P c k) t) \<longleftrightarrow> t p"
    if "length p \<le> MAX_FILE_SIZE" for p t
    using enc [OF that] decrypt_sealed_file [OF assms(1,2,4,5)] by simp
  have small: "length (as_bytes s) \<le> MAX_FILE_SIZE" if "length s \<le> 100" for s
    using that by (simp add: length_as_bytes MAX_FILE_SIZE_def)
  have large: "length (replicate (1024 * 1024) (0xAB :: u8)) \<le> MAX_FILE_SIZE"
    unfolding length_replicate MAX_FILE_SIZE_def by simp
  have "test_media_roundtrip P key nonce" "test_empty_file P key nonce"
    by (simp_all only: test_media_roundtrip_def test_empty_file_def Let_def pass [OF small [of "''hello, this is a test file for VAULTEX media support''"]]
        pass [of "[]"] list.size MAX_FILE_SIZE_def)
  moreover have "test_large_file P key nonce"
    by (simp only: test_large_file_def Let_def pass [OF large])
  moreover have "test_ciphertext_has_nonce_prepended P key nonce"
    using enc [OF small [of "''test''"]]
    by (simp add: test_ciphertext_has_nonce_prepended_def secretbox_laws [OF assms(2)] assms(5) secretbox_consts length_as_bytes)
  moreover have "test_truncated_ciphertext_fails P"
    by (simp add: test_truncated_ciphertext_fails_def decrypt_file_def secretbox_consts)
  moreover have "test_file_metadata_serialization ser de"
  proof -
    let ?meta = "\<lparr>fm_filename = ''photo.jpg'', fm_mime_type = ''image/jpeg'', fm_size = 102400,
      fm_thumbnail = Some ''base64encodeddata''\<rparr>"
    obtain b where "ser ?meta = Inr b" "de b = Inr ?meta"
      using assms(6) by blast
    then show ?thesis
      by (simp add: test_file_metadata_serialization_def Let_def)
  qed
  moreover have "test_file_encryption_key_zeroize"
    by (simp add: test_file_encryption_key_zeroize_def fek_new_def fek_as_bytes_def)
  ultimately show ?thesis
    by blast
qed

theorem sealed_sender_tests_pass:
  assumes "slices_ok P" "dh_ok P" "convert_ok P" "box_ok P" "sealedbox_ok P" "sodium_init P"
    and "sign_keypair P (fst sender) (snd sender)" "sign_keypair P (fst recipient) (snd recipient)" "length nonce = 24"
    and "\<And>m n pk sk. length (box_seal P m n pk sk) = length m + 16"
    and "box_keypair P (fst drawn) (snd drawn)" "\<forall>x. \<exists>b. ser x = Inr b \<and> de b = Inr x"
  shows "test_encrypt_decrypt_to_identity_roundtrip P sender recipient nonce \<and>
    test_seal_unseal_roundtrip P ser de drawn rnd"
proof -
  let ?s = "\<lparr>ik_public_key = fst sender, ik_secret_key = snd sender\<rparr>"
  let ?r = "\<lparr>ik_public_key = fst recipient, ik_secret_key = snd recipient\<rparr>"
  have ids: "identity_ok P ?s" "identity_ok P ?r"
    using assms(7,8) by (simp_all add: identity_ok_def)
  let ?crlf = "[CHR 0x0D, CHR 0x0A]"
  let ?p = "as_bytes (''v=0'' @ ?crlf @ ''m=audio 9 UDP/TLS/RTP/SAVPF 111'' @ ?crlf)"
  have "box_context_ok (P, ?s, ?r)"
    using assms ids by simp
  then obtain c where "box_enc (P, ?s, ?r) nonce ?p = Ok c" "box_dec (P, ?s, ?r) c = Ok ?p"
    by (rule identity_box.delivers [OF _ TrueI assms(9)])
  then have c: "encrypt_to_identity P nonce ?s (fst recipient) ?p = Ok c"
    "decrypt_from_identity P ?r (fst sender) c = Ok ?p"
    by (simp_all add: assms(9))
  then have "length c = length ?p + 40"
    using assms(9,10) by (auto simp: encrypt_to_identity_def and_then_eq_Inr split: if_splits)
  then have "c \<noteq> ?p"
    by (metis add_eq_self_zero zero_neq_numeral)
  with c have "test_encrypt_decrypt_to_identity_roundtrip P sender recipient nonce"
    by (simp only: test_encrypt_decrypt_to_identity_roundtrip_def ik_generate_def split_beta assms(6) Let_def
        IdentityKeyPair.select_convs test_simps simp_thms if_False)
  moreover have "test_seal_unseal_roundtrip P ser de drawn rnd"
  proof -
    have "utf8_valid (as_bytes ''abcdef1234567890abcdef1234567890abcdef1234567890abcdef1234567890'')"
      by code_simp
    then obtain b where
      "seal_envelope P ser rnd ''abcdef1234567890abcdef1234567890abcdef1234567890abcdef1234567890''
         (as_bytes ''hello sealed sender'') (fst drawn) = Ok b"
      "unseal_envelope P de b (fst drawn) (snd drawn) =
         Ok (''abcdef1234567890abcdef1234567890abcdef1234567890abcdef1234567890'', as_bytes ''hello sealed sender'')"
      using envelope_delivers [OF assms(5,6,11)] assms(12) by metis
    then show ?thesis
      by (simp only: test_seal_unseal_roundtrip_def split_beta assms(6) Let_def test_simps fst_conv snd_conv simp_thms)
  qed
  ultimately show ?thesis ..
qed

end
