(* ===== verification/Tests_Keys.thy ===== *)
theory Tests_Keys
  imports X3dh Safety_Number Test_Support
begin

section \<open>Unit tests of keys, key agreement and safety numbers\<close>

text \<open>
  The test modules of \<open>identity.rs\<close>, \<open>prekeys.rs\<close>, \<open>x3dh.rs\<close> and
  \<open>safety_number.rs\<close> under \<open>crates/vaultex-crypto/src\<close>, for every key pair drawn.
  The tests that a signature does not verify under another key or message and that different keys
  have different safety numbers are in \<open>Tests_Rejections\<close>.
\<close>

subsection \<open>Identity keys\<close>

definition test_generate_and_sign_verify :: "prims \<Rightarrow> bytes \<times> bytes \<Rightarrow> bool" where
  "test_generate_and_sign_verify P drawn =
     unwrap_then (ik_generate P drawn) (\<lambda>ident.
       let message = as_bytes ''hello, vaultex!'';
           signature = ik_sign P ident message in
       ik_verify P (ik_public_key ident) message signature)"

definition test_fingerprint_format :: "prims \<Rightarrow> bytes \<times> bytes \<Rightarrow> bool" where
  "test_fingerprint_format P drawn =
     unwrap_then (ik_generate P drawn) (\<lambda>ident.
       let fp = public_key_fingerprint ident;
           parts = split_str middle_dot fp in
       length parts = 4 \<and> list_all (\<lambda>part. length part = 4 \<and> list_all is_ascii_hexdigit part) parts)"

definition test_from_bytes_roundtrip :: "prims \<Rightarrow> bytes \<times> bytes \<Rightarrow> bool" where
  "test_from_bytes_roundtrip P drawn =
     unwrap_then (ik_generate P drawn) (\<lambda>original.
       let pk_bytes = ik_public_key original; sk_bytes = ik_secret_key original in
       unwrap_then (ik_from_bytes P pk_bytes sk_bytes) (\<lambda>restored.
         ik_public_key original = ik_public_key restored &
         (let msg = as_bytes ''roundtrip test''; sig = ik_sign P restored msg in
          ik_verify P (ik_public_key restored) msg sig)))"

definition test_from_bytes_invalid_length :: "prims \<Rightarrow> bool" where
  "test_from_bytes_invalid_length P = is_err (ik_from_bytes P (replicate 16 0) (replicate 64 0))"

subsection \<open>Prekeys\<close>

definition test_signed_prekey_generation_and_verify :: "prims \<Rightarrow> bytes \<times> bytes \<Rightarrow> bytes \<times> bytes \<Rightarrow> bool" where
  "test_signed_prekey_generation_and_verify P drawn_id drawn =
     unwrap_then (ik_generate P drawn_id) (\<lambda>ident.
     unwrap_then (spk_generate P drawn ident 1) (\<lambda>spk.
       spk_verify P spk (ik_public_key ident) \<and> spk_prekey_id spk = 1))"

definition test_one_time_prekey_generation :: "prims \<Rightarrow> bytes \<times> bytes \<Rightarrow> bool" where
  "test_one_time_prekey_generation P drawn =
     unwrap_then (otpk_generate P drawn 42) (\<lambda>otpk.
       otpk_prekey_id otpk = 42 \<and> length (otpk_public_key_hex P otpk) = 64)"

definition test_batch_generation :: "prims \<Rightarrow> (nat \<Rightarrow> bytes \<times> bytes) \<Rightarrow> bool" where
  "test_batch_generation P drawn =
     unwrap_then (generate_one_time_prekeys P drawn 10 100) (\<lambda>prekeys.
       length prekeys = 10 &
       list_all (\<lambda>(i, pk). otpk_prekey_id pk = 100 + word_of_nat i) (enumerate 0 prekeys))"

subsection \<open>Rotation, with the two readings of the clock\<close>

definition test_needs_rotation_fresh_key :: "u64 option \<Rightarrow> u64 option \<Rightarrow> bool" where
  "test_needs_rotation_fresh_key clock clock' =
     unwrap_some (current_timestamp clock) (\<lambda>now.
     unwrap_some (needs_rotation clock' now SIGNED_PREKEY_ROTATION_INTERVAL) (\<lambda>b. \<not> b))"

definition test_needs_rotation_expired_key :: "u64 option \<Rightarrow> u64 option \<Rightarrow> bool" where
  "test_needs_rotation_expired_key clock clock' =
     unwrap_some (current_timestamp clock) (\<lambda>now.
       let eight_days_ago = now - (8 * 24 * 60 * 60) in
       unwrap_some (needs_rotation clock' eight_days_ago SIGNED_PREKEY_ROTATION_INTERVAL) (\<lambda>b. b))"

definition test_needs_rotation_exactly_at_boundary :: "u64 option \<Rightarrow> u64 option \<Rightarrow> bool" where
  "test_needs_rotation_exactly_at_boundary clock clock' =
     unwrap_some (current_timestamp clock) (\<lambda>now.
       let at_boundary = now - SIGNED_PREKEY_ROTATION_INTERVAL in
       unwrap_some (needs_rotation clock' at_boundary SIGNED_PREKEY_ROTATION_INTERVAL) (\<lambda>b. b))"

subsection \<open>More prekeys\<close>

definition test_replenishment_batch_size :: "prims \<Rightarrow> (nat \<Rightarrow> bytes \<times> bytes) \<Rightarrow> bool" where
  "test_replenishment_batch_size P drawn =
     unwrap_then (generate_one_time_prekeys P drawn ONE_TIME_PREKEY_BATCH_SIZE 200) (\<lambda>prekeys.
       length prekeys = unat ONE_TIME_PREKEY_BATCH_SIZE)"

definition test_constants_are_sensible :: "bool" where
  "test_constants_are_sensible =
     (SIGNED_PREKEY_ROTATION_INTERVAL = 604800 \<and> SIGNED_PREKEY_GRACE_PERIOD = 86400 &
      MIN_ONE_TIME_PREKEYS < ONE_TIME_PREKEY_BATCH_SIZE)"

subsection \<open>X3DH\<close>

definition test_x3dh_without_one_time_prekey :: "prims \<Rightarrow> bytes \<times> bytes \<Rightarrow> bytes \<times> bytes \<Rightarrow> bytes \<times> bytes \<Rightarrow> bytes \<times> bytes \<Rightarrow> bool" where
  "test_x3dh_without_one_time_prekey P drawn_a drawn_b spk_pair ephemeral =
     unwrap_then (ik_generate P drawn_a) (\<lambda>alice.
     unwrap_then (ik_generate P drawn_b) (\<lambda>bob.
       (case spk_pair of (spk_pk, spk_sk) \<Rightarrow>
        let spk_sig = ik_sign P bob spk_pk;
            bundle = \<lparr>rb_identity_key = ik_public_key bob, rb_signed_prekey = spk_pk,
                      rb_signed_prekey_signature = spk_sig, rb_one_time_prekey = None\<rparr> in
        unwrap_then (initiate_x3dh P ephemeral alice bundle) (\<lambda>init_result.
        unwrap_then (accept_x3dh P bob spk_sk None (ik_public_key alice) (xr_ephemeral_public_key init_result))
          (\<lambda>accept_result.
          xr_shared_secret init_result = accept_result \<and> xr_used_one_time_prekey_id init_result = None)))))"

definition test_x3dh_with_one_time_prekey :: "prims \<Rightarrow> bytes \<times> bytes \<Rightarrow> bytes \<times> bytes \<Rightarrow> bytes \<times> bytes \<Rightarrow> bytes \<times> bytes \<Rightarrow> bytes \<times> bytes \<Rightarrow> bool" where
  "test_x3dh_with_one_time_prekey P drawn_a drawn_b spk_pair otpk_pair ephemeral =
     unwrap_then (ik_generate P drawn_a) (\<lambda>alice.
     unwrap_then (ik_generate P drawn_b) (\<lambda>bob.
       (case (spk_pair, otpk_pair) of ((spk_pk, spk_sk), (otpk_pk, otpk_sk)) \<Rightarrow>
        let spk_sig = ik_sign P bob spk_pk;
            bundle = \<lparr>rb_identity_key = ik_public_key bob, rb_signed_prekey = spk_pk,
                      rb_signed_prekey_signature = spk_sig, rb_one_time_prekey = Some (42, otpk_pk)\<rparr> in
        unwrap_then (initiate_x3dh P ephemeral alice bundle) (\<lambda>init_result.
        unwrap_then (accept_x3dh P bob spk_sk (Some otpk_sk) (ik_public_key alice) (xr_ephemeral_public_key init_result))
          (\<lambda>accept_result.
          xr_shared_secret init_result = accept_result \<and> xr_used_one_time_prekey_id init_result = Some 42)))))"

subsection \<open>Safety numbers\<close>

definition test_safety_number_deterministic :: "prims \<Rightarrow> bytes \<times> bytes \<Rightarrow> bytes \<times> bytes \<Rightarrow> bool" where
  "test_safety_number_deterministic P drawn_a drawn_b =
     unwrap_then (ik_generate P drawn_a) (\<lambda>alice.
     unwrap_then (ik_generate P drawn_b) (\<lambda>bob.
       let sn1 = generate_safety_number P (ik_public_key alice) (ik_public_key bob);
           sn2 = generate_safety_number P (ik_public_key alice) (ik_public_key bob) in
       sn1 = sn2))"

definition test_safety_number_symmetric :: "prims \<Rightarrow> bytes \<times> bytes \<Rightarrow> bytes \<times> bytes \<Rightarrow> bool" where
  "test_safety_number_symmetric P drawn_a drawn_b =
     unwrap_then (ik_generate P drawn_a) (\<lambda>alice.
     unwrap_then (ik_generate P drawn_b) (\<lambda>bob.
       let from_alice = generate_safety_number P (ik_public_key alice) (ik_public_key bob);
           from_bob = generate_safety_number P (ik_public_key bob) (ik_public_key alice) in
       from_alice = from_bob))"

definition test_safety_number_format :: "prims \<Rightarrow> bytes \<times> bytes \<Rightarrow> bytes \<times> bytes \<Rightarrow> bool" where
  "test_safety_number_format P drawn_a drawn_b =
     unwrap_then (ik_generate P drawn_a) (\<lambda>alice.
     unwrap_then (ik_generate P drawn_b) (\<lambda>bob.
       let sn = generate_safety_number P (ik_public_key alice) (ik_public_key bob);
           groups = split_str '' '' sn in
       length groups = 12 \<and> list_all (\<lambda>group. length group = 5 \<and> list_all is_digit group) groups))"

definition test_safety_number_from_hex :: "prims \<Rightarrow> bytes \<times> bytes \<Rightarrow> bytes \<times> bytes \<Rightarrow> bool" where
  "test_safety_number_from_hex P drawn_a drawn_b =
     unwrap_then (ik_generate P drawn_a) (\<lambda>alice.
     unwrap_then (ik_generate P drawn_b) (\<lambda>bob.
       let alice_hex = hex_encode P (ik_public_key alice); bob_hex = hex_encode P (ik_public_key bob);
           from_raw = generate_safety_number P (ik_public_key alice) (ik_public_key bob) in
       unwrap_then (generate_safety_number_from_hex P alice_hex bob_hex) (\<lambda>from_hex.
         from_raw = from_hex)))"

definition test_safety_number_from_hex_invalid :: "prims \<Rightarrow> bool" where
  "test_safety_number_from_hex_invalid P =
     is_err (generate_safety_number_from_hex P ''not-valid-hex'' ''also-not-valid'')"

definition test_safety_number_from_hex_wrong_length :: "prims \<Rightarrow> bool" where
  "test_safety_number_from_hex_wrong_length P =
     is_err (generate_safety_number_from_hex P ''aabbccdd'' ''11223344'')"

definition test_safety_number_known_vector :: "prims \<Rightarrow> bool" where
  "test_safety_number_known_vector P =
     (let key_a = replicate 32 0x00; key_b = replicate 32 0xFF;
          sn = generate_safety_number P key_a key_b;
          groups = split_str '' '' sn in
      length groups = 12 &
      (let sn2 = generate_safety_number P key_a key_b in sn = sn2))"

subsection \<open>They pass\<close>

lemma generated: "sodium_init P \<Longrightarrow> unwrap_then (ik_generate P drawn) k \<longleftrightarrow>
    k \<lparr>ik_public_key = fst drawn, ik_secret_key = snd drawn\<rparr>"
  by (simp add: ik_generate_def split_beta)

theorem identity_tests_pass:
  assumes "slices_ok P" "sign_ok P" "sodium_init P" "sign_keypair P (fst drawn) (snd drawn)"
  shows "test_generate_and_sign_verify P drawn \<and> test_fingerprint_format P drawn &
    test_from_bytes_roundtrip P drawn \<and> test_from_bytes_invalid_length P"
proof -
  let ?i = "\<lparr>ik_public_key = fst drawn, ik_secret_key = snd drawn\<rparr>"
  have len: "length (fst drawn) = 32" "length (snd drawn) = 64"
    using sign_keypair_lengths [OF assms(2,4)] by simp_all
  have id: "identity_ok P ?i"
    using assms(4) by (simp add: identity_ok_def)
  note gen = generated [OF assms(3)]
  have verify: "ik_verify P (fst drawn) m (ik_sign P ?i m)" for m
    using ik_sign_verify [OF assms(2) id, of m] by simp
  have "8 \<le> length (fst drawn)"
    by (simp add: len)
  then obtain a b c d e f g h where k: "take 8 (fst drawn) = [a, b, c, d, e, f, g, h]"
    by (rule eight_bytes)
  have hexdigit: "is_ascii_hexdigit (hex_upper n) \<and> char_of (0xC2 :: nat) \<noteq> hex_upper n" if "n < 16" for n
    using that by (auto simp: hex_upper_def is_ascii_hexdigit_def of_char_of Let_def)
  have below: "unat x div 16 < 16" for x :: u8
    using unsigned_less [of x, where 'a = nat] by simp
  have digits: "list_all is_ascii_hexdigit (show_byte_02X x)" "char_of (0xC2 :: nat) \<notin> set (show_byte_02X x)" for x
    using hexdigit [OF below [of x]] hexdigit [of "unat x mod 16"] by (auto simp: show_byte_02X_def)
  have dot: "middle_dot = char_of (0xC2 :: nat) # [char_of (0xB7 :: nat)]"
    by (simp add: middle_dot_def)
  let ?gs = "fingerprint_groups [a, b, c, d, e, f, g, h]"
  have "split_str middle_dot (public_key_fingerprint ?i) = ?gs"
    unfolding public_key_fingerprint_def IdentityKeyPair.select_convs k
    by (rule split_join [OF dot]) (use digits(2) in auto)
  then have "test_fingerprint_format P drawn"
    by (simp add: test_fingerprint_format_def gen digits(1))
  moreover have "test_generate_and_sign_verify P drawn" "test_from_bytes_roundtrip P drawn"
    by (simp_all add: test_generate_and_sign_verify_def test_from_bytes_roundtrip_def gen verify ik_from_bytes_def
        from_slice_eq [OF assms(1)] len SIGN_PUBLICKEYBYTES_def SIGN_SECRETKEYBYTES_def)
  moreover have "test_from_bytes_invalid_length P"
    by (simp add: test_from_bytes_invalid_length_def ik_from_bytes_def from_slice_eq [OF assms(1)] SIGN_PUBLICKEYBYTES_def)
  ultimately show ?thesis
    by blast
qed

theorem prekey_tests_pass:
  assumes "slices_ok P" "sign_ok P" "dh_ok P" "hex_ok P" "sodium_init P"
    and "sign_keypair P (fst drawn_id) (snd drawn_id)" "box_keypair P (fst drawn) (snd drawn)"
  shows "test_signed_prekey_generation_and_verify P drawn_id drawn \<and> test_one_time_prekey_generation P drawn &
    test_batch_generation P drawns \<and> test_replenishment_batch_size P drawns \<and> test_constants_are_sensible"
proof -
  have id: "identity_ok P \<lparr>ik_public_key = fst drawn_id, ik_secret_key = snd drawn_id\<rparr>"
    using assms(6) by (simp add: identity_ok_def)
  have "test_signed_prekey_generation_and_verify P drawn_id drawn"
    using ik_sign_verify [OF assms(2) id, of "fst drawn"]
    by (simp add: test_signed_prekey_generation_and_verify_def generated [OF assms(5)] spk_generate_def split_beta
        assms(5) spk_verify_def ik_verify_def)
  moreover have "test_one_time_prekey_generation P drawn"
    using keypair_lengths(1) [OF assms(3,7)]
    by (simp add: test_one_time_prekey_generation_def otpk_generate_def split_beta assms(5) otpk_public_key_hex_def
        hex_laws(2) [OF assms(4)])
  moreover have "test_batch_generation P drawns" "test_replenishment_batch_size P drawns"
    by (auto simp: test_batch_generation_def test_replenishment_batch_size_def generate_one_time_prekeys_def
        otpk_loop_ok [OF assms(5)] ONE_TIME_PREKEY_BATCH_SIZE_def list_all_iff in_set_enumerate_eq range_u32_def)
  moreover have "test_constants_are_sensible"
    by (simp add: test_constants_are_sensible_def SIGNED_PREKEY_ROTATION_INTERVAL_def SIGNED_PREKEY_GRACE_PERIOD_def
        MIN_ONE_TIME_PREKEYS_def ONE_TIME_PREKEY_BATCH_SIZE_def)
  ultimately show ?thesis
    by blast
qed

text \<open>
  The rotation tests read the clock twice.  They pass when the clock does not go back and, for the
  fresh key, moves by less than a week; the others need a clock past the eighth day of 1970.
\<close>

theorem rotation_tests_pass:
  assumes "unat now \<le> unat now'" "8 * 24 * 60 * 60 \<le> unat now"
  shows "(unat now' < unat now + 604800 \<longrightarrow> test_needs_rotation_fresh_key (Some now) (Some now')) &
    test_needs_rotation_expired_key (Some now) (Some now') \<and> test_needs_rotation_exactly_at_boundary (Some now) (Some now')"
proof -
  have sub: "unat (now - 691200) = unat now - 691200" "unat (now - 604800) = unat now - 604800"
    using assms(2) by (simp_all add: unat_sub word_le_nat_alt)
  have rot: "needs_rotation (Some n) c 604800 = Some (unat c + 604800 \<le> unat n)" for n c
    by (auto simp: needs_rotation_def word_le_nat_alt unat_saturating_sub)
  show ?thesis
    using assms sub
    by (simp add: test_needs_rotation_fresh_key_def test_needs_rotation_expired_key_def current_timestamp_def
        test_needs_rotation_exactly_at_boundary_def rot SIGNED_PREKEY_ROTATION_INTERVAL_def)
qed

theorem x3dh_tests_pass:
  assumes P: "x3dh_prims_ok P" and "sign_keypair P (fst a) (snd a)" "sign_keypair P (fst b) (snd b)"
    and "box_keypair P (fst spk) (snd spk)" "box_keypair P (fst otpk) (snd otpk)" "box_keypair P (fst eph) (snd eph)"
  shows "test_x3dh_without_one_time_prekey P a b spk eph \<and> test_x3dh_with_one_time_prekey P a b spk otpk eph"
proof -
  let ?a = "\<lparr>ik_public_key = fst a, ik_secret_key = snd a\<rparr>"
  let ?b = "\<lparr>ik_public_key = fst b, ik_secret_key = snd b\<rparr>"
  let ?spk = "\<lparr>spk_prekey_id = 0, spk_public_key = fst spk, spk_secret_key = snd spk, spk_signature = ik_sign P ?b (fst spk)\<rparr>"
  let ?otpk = "\<lparr>otpk_prekey_id = 42, otpk_public_key = fst otpk, otpk_secret_key = snd otpk\<rparr>"
  have S: "sign_ok P" and I: "sodium_init P"
    using P by (simp_all add: x3dh_prims_ok_def)
  have ids: "identity_ok P ?a" "identity_ok P ?b"
    using assms(2,3) by (simp_all add: identity_ok_def)
  have spk: "spk_ok P (ik_public_key ?b) ?spk"
    using assms(4) ik_sign_verify [OF S ids(2), of "fst spk"] by (simp add: spk_ok_def spk_verify_def ik_verify_def)
  have none: "\<forall>k \<in> set_option None. otpk_ok P k" and some: "\<forall>k \<in> set_option (Some ?otpk). otpk_ok P k"
    using assms(5) by (simp_all add: otpk_ok_def)
  note gen = generated [OF I]
  obtain r where "initiate_x3dh P (fst eph, snd eph) ?a (bundle_of (ik_public_key ?b) ?spk None) = Ok r"
    "accept_x3dh P ?b (spk_secret_key ?spk) (map_option otpk_secret_key (None :: OneTimePreKey option)) (ik_public_key ?a)
       (xr_ephemeral_public_key r) = Ok (xr_shared_secret r)"
    "xr_ephemeral_public_key r = fst eph" "xr_used_one_time_prekey_id r = map_option otpk_prekey_id (None :: OneTimePreKey option)"
    "length (xr_shared_secret r) = 32"
    by (rule x3dh_agree [OF P ids spk none assms(6)])
  then have "test_x3dh_without_one_time_prekey P a b spk eph"
    by (simp add: test_x3dh_without_one_time_prekey_def gen split_beta bundle_of_def)
  moreover obtain q where "initiate_x3dh P (fst eph, snd eph) ?a (bundle_of (ik_public_key ?b) ?spk (Some ?otpk)) = Ok q"
    "accept_x3dh P ?b (spk_secret_key ?spk) (map_option otpk_secret_key (Some ?otpk)) (ik_public_key ?a)
       (xr_ephemeral_public_key q) = Ok (xr_shared_secret q)"
    "xr_ephemeral_public_key q = fst eph" "xr_used_one_time_prekey_id q = map_option otpk_prekey_id (Some ?otpk)"
    "length (xr_shared_secret q) = 32"
    by (rule x3dh_agree [OF P ids spk some assms(6)])
  then have "test_x3dh_with_one_time_prekey P a b spk otpk eph"
    by (simp add: test_x3dh_with_one_time_prekey_def gen split_beta bundle_of_def)
  ultimately show ?thesis ..
qed

theorem safety_number_tests_pass:
  assumes "sign_ok P" "hex_ok P" "hex_strict P" "sodium_init P"
    and "sign_keypair P (fst a) (snd a)" "sign_keypair P (fst b) (snd b)"
  shows "test_safety_number_deterministic P a b \<and> test_safety_number_symmetric P a b &
    test_safety_number_format P a b \<and> test_safety_number_from_hex P a b \<and> test_safety_number_from_hex_invalid P &
    test_safety_number_from_hex_wrong_length P \<and> test_safety_number_known_vector P"
proof -
  note gen = generated [OF assms(4)]
  have comm: "generate_safety_number P k k' = generate_safety_number P k' k" for k k'
    by (simp add: safety_number_eq sorted_keys_commute)
  have space: "CHR '' '' \<notin> set (digit_group p)" for p
    using digit_group_props(2) [of p] by (auto simp: list_all_iff is_digit_def)
  have split: "split_str '' '' (generate_safety_number P k k') = map digit_group (hash_pairs (sha256 P (sorted_keys k k')))"
    for k k'
    unfolding safety_number_eq by (rule split_join [OF refl]) (use space in \<open>auto simp: hash_pairs_def\<close>)
  have twelve: "length (hash_pairs h) = 12" for h
    by (simp add: hash_pairs_def)
  have groups: "list_all (\<lambda>group. length group = 5 \<and> list_all is_digit group) (map digit_group ps)" for ps
    by (induction ps) (simp_all add: digit_group_props)
  have "test_safety_number_deterministic P a b" "test_safety_number_symmetric P a b"
    by (simp_all add: test_safety_number_deterministic_def test_safety_number_symmetric_def gen comm)
  moreover have "test_safety_number_format P a b" "test_safety_number_known_vector P"
    by (simp_all add: test_safety_number_format_def test_safety_number_known_vector_def gen split twelve groups
        Let_def del: list.pred_map)
  moreover have "test_safety_number_from_hex P a b"
    using sign_keypair_lengths(1) [OF assms(1,5)] sign_keypair_lengths(1) [OF assms(1,6)]
    by (simp add: test_safety_number_from_hex_def gen generate_safety_number_from_hex_def hex_laws(1) [OF assms(2)])
  moreover have "hex_decode P ''not-valid-hex'' = None"
  proof (cases "hex_decode P ''not-valid-hex''")
    case (Some b)
    then have "length ''not-valid-hex'' = 2 * length b"
      by (rule hex_strict_length [OF assms(3)])
    then have "13 = 2 * length b"
      by simp
    then have False
      by presburger
    then show ?thesis ..
  qed
  then have "test_safety_number_from_hex_invalid P"
    by (simp add: test_safety_number_from_hex_invalid_def generate_safety_number_from_hex_def)
  moreover have "length c = 4" if "hex_decode P ''aabbccdd'' = Some c" for c
  proof -
    have "length ''aabbccdd'' = 2 * length c"
      by (rule hex_strict_length [OF assms(3) that])
    then show ?thesis
      by simp
  qed
  then have "test_safety_number_from_hex_wrong_length P"
    by (cases "hex_decode P ''aabbccdd''"; cases "hex_decode P ''11223344''")
      (auto simp: test_safety_number_from_hex_wrong_length_def generate_safety_number_from_hex_def)
  ultimately show ?thesis
    by blast
qed

end
