(* ===== verification/Tests_App.thy ===== *)
theory Tests_App
  imports Group Message_Payload Server_Auth Test_Support
begin

section \<open>Unit tests of groups, payloads and authentication\<close>

text \<open>
  The test modules of \<open>group.rs\<close>, \<open>message_payload.rs\<close> and \<open>auth.rs\<close> under
  \<open>crates/vaultex-crypto/src\<close> and of \<open>extracted/server-middleware/auth.rs\<close>.  The
  tests of the JSON text are in \<open>Tests_Json\<close>, those that two draws or signatures differ in
  \<open>Tests_Rejections\<close>, and the ones that run a payload through a ratchet session in
  \<open>Tests_Ratchet\<close>.
\<close>

subsection \<open>Groups\<close>

definition test_group_id_hex_roundtrip :: "prims \<Rightarrow> random \<Rightarrow> bool" where
  "test_group_id_hex_roundtrip P rnd =
     (sodium_init P &
      unwrap_then (gid_generate P rnd) (\<lambda>i.
      let hex = gid_to_hex P i in
      length hex = 64 &
      unwrap_then (gid_from_hex P hex) (\<lambda>restored. gid_bytes i = gid_bytes restored)))"

definition test_group_id_from_hex_invalid_length :: "prims \<Rightarrow> bool" where
  "test_group_id_from_hex_invalid_length P = is_err (gid_from_hex P ''abcd'')"

definition test_group_id_from_hex_invalid_hex :: "prims \<Rightarrow> bool" where
  "test_group_id_from_hex_invalid_hex P = is_err (gid_from_hex P ''zzzz'')"

definition test_group_info_new_includes_creator :: "prims \<Rightarrow> random \<Rightarrow> u64 option \<Rightarrow> bool" where
  "test_group_info_new_includes_creator P rnd clock =
     (sodium_init P &
      (let creator = repeat_str ''aa'' 32; member = repeat_str ''bb'' 32 in
       unwrap_then (gi_new P rnd clock ''Test Group'' creator [member]) (\<lambda>group.
         gi_name group = ''Test Group'' \<and> creator \<in> set (gi_members group) \<and> member \<in> set (gi_members group) &
         gi_created_by group = creator \<and> 0 < gi_created_at group)))"

definition test_group_info_creator_already_in_members :: "prims \<Rightarrow> random \<Rightarrow> u64 option \<Rightarrow> bool" where
  "test_group_info_creator_already_in_members P rnd clock =
     (sodium_init P &
      (let creator = repeat_str ''aa'' 32 in
       unwrap_then (gi_new P rnd clock ''Solo Group'' creator [creator]) (\<lambda>group.
         length (filter (\<lambda>m. m = creator) (gi_members group)) = 1)))"

definition test_add_member :: "prims \<Rightarrow> random \<Rightarrow> u64 option \<Rightarrow> bool" where
  "test_add_member P rnd clock =
     (sodium_init P &
      (let creator = repeat_str ''aa'' 32 in
       unwrap_then (gi_new P rnd clock ''Group'' creator []) (\<lambda>group.
       let new_member = repeat_str ''bb'' 32 in
       (case add_member new_member group of (group, added) \<Rightarrow>
        added \<and> is_member new_member group &
        (case add_member new_member group of (group, added) \<Rightarrow> \<not> added)))))"

definition test_remove_member :: "prims \<Rightarrow> random \<Rightarrow> u64 option \<Rightarrow> bool" where
  "test_remove_member P rnd clock =
     (sodium_init P &
      (let creator = repeat_str ''aa'' 32; member = repeat_str ''bb'' 32 in
       unwrap_then (gi_new P rnd clock ''Group'' creator [member]) (\<lambda>group.
       (case remove_member member group of (group, removed) \<Rightarrow>
        removed \<and> \<not> is_member member group &
        (case remove_member member group of (group, removed) \<Rightarrow> \<not> removed)))))"

definition test_other_members :: "prims \<Rightarrow> random \<Rightarrow> u64 option \<Rightarrow> bool" where
  "test_other_members P rnd clock =
     (sodium_init P &
      (let creator = repeat_str ''aa'' 32; m1 = repeat_str ''bb'' 32; m2 = repeat_str ''cc'' 32 in
       unwrap_then (gi_new P rnd clock ''Group'' creator [m1, m2]) (\<lambda>group.
       let others = other_members creator group in
       length others = 2 \<and> m1 \<in> set others \<and> m2 \<in> set others \<and> creator \<notin> set others)))"

definition test_non_member_cannot_be_verified :: "prims \<Rightarrow> random \<Rightarrow> u64 option \<Rightarrow> bool" where
  "test_non_member_cannot_be_verified P rnd clock =
     (sodium_init P &
      (let creator = repeat_str ''aa'' 32 in
       unwrap_then (gi_new P rnd clock ''Group'' creator []) (\<lambda>group.
       let outsider = repeat_str ''ff'' 32 in \<not> is_member outsider group)))"

definition test_group_info_serialization :: "prims \<Rightarrow> (GroupInfo \<Rightarrow> string + bytes) \<Rightarrow>
    (bytes \<Rightarrow> string + GroupInfo) \<Rightarrow> random \<Rightarrow> u64 option \<Rightarrow> bool" where
  "test_group_info_serialization P ser de rnd clock =
     (sodium_init P &
      (let creator = repeat_str ''aa'' 32 in
       unwrap_then (gi_new P rnd clock ''Serialization Test'' creator []) (\<lambda>group.
       unwrap_then (ser group) (\<lambda>json.
       unwrap_then (de json) (\<lambda>restored.
         gi_name restored = ''Serialization Test'' &
         gid_bytes (gi_group_id restored) = gid_bytes (gi_group_id group))))))"

subsection \<open>Message payloads\<close>

definition test_payload_without_ttl_roundtrip :: "payload_ser \<Rightarrow> payload_de \<Rightarrow> bool" where
  "test_payload_without_ttl_roundtrip ser de =
     (let payload = mp_new ''hello'' in
      unwrap_then (mp_to_bytes ser payload) (\<lambda>bs.
      unwrap_then (mp_from_bytes de bs) (\<lambda>restored.
        mp_body restored = ''hello'' \<and> mp_ttl_seconds restored = None)))"

definition test_payload_with_ttl_roundtrip :: "payload_ser \<Rightarrow> payload_de \<Rightarrow> bool" where
  "test_payload_with_ttl_roundtrip ser de =
     (let payload = mp_with_ttl ''secret message'' 30 in
      unwrap_then (mp_to_bytes ser payload) (\<lambda>bs.
      unwrap_then (mp_from_bytes de bs) (\<lambda>restored.
        mp_body restored = ''secret message'' \<and> mp_ttl_seconds restored = Some 30)))"

definition test_padded_roundtrip :: "prims \<Rightarrow> payload_ser \<Rightarrow> payload_de \<Rightarrow> random \<Rightarrow> bool" where
  "test_padded_roundtrip P ser de rnd =
     (sodium_init P &
      (let payload = mp_with_ttl ''padded secret'' 60 in
       unwrap_then (to_padded_bytes rnd ser payload) (\<lambda>padded.
         256 \<le> length padded &
         (list_ex (\<lambda>k. length padded = 2 ^ k) [0 ..< 64] \<or> length padded mod 65536 = 0) &
         unwrap_then (from_padded_bytes de padded) (\<lambda>recovered. recovered = payload))))"

definition test_padded_size_invariant_under_group_id :: "payload_ser \<Rightarrow> random \<Rightarrow> random \<Rightarrow> bool" where
  "test_padded_size_invariant_under_group_id ser rnd rnd' =
     unwrap_then (to_padded_bytes rnd ser (mp_new ''hi'')) (\<lambda>dm.
     unwrap_then (to_padded_bytes rnd' ser (mp_in_group (repeat_str ''a'' 64) (mp_new ''hi''))) (\<lambda>group.
       length dm = length group))"

definition test_padded_roundtrip_dm_recovers_none_group_id :: "payload_ser \<Rightarrow> payload_de \<Rightarrow> random \<Rightarrow> bool" where
  "test_padded_roundtrip_dm_recovers_none_group_id ser de rnd =
     unwrap_then (to_padded_bytes rnd ser (mp_new ''hi'')) (\<lambda>dm.
     unwrap_then (from_padded_bytes de dm) (\<lambda>decoded.
       mp_body decoded = ''hi'' \<and> mp_group_id decoded = None))"

definition test_padded_roundtrip_group_id_preserved :: "payload_ser \<Rightarrow> payload_de \<Rightarrow> random \<Rightarrow> bool" where
  "test_padded_roundtrip_group_id_preserved ser de rnd =
     (let real_id = repeat_str ''0123456789abcdef'' 4 in
      unwrap_then (to_padded_bytes rnd ser (mp_in_group real_id (mp_new ''hi''))) (\<lambda>group.
      unwrap_then (from_padded_bytes de group) (\<lambda>decoded.
        mp_body decoded = ''hi'' \<and> mp_group_id decoded = Some real_id)))"

definition test_normalize_group_id_rejects_garbage :: "bool" where
  "test_normalize_group_id_rejects_garbage =
     (let p = (mp_new ''x'')\<lparr>mp_group_id := Some ''not-hex''\<rparr> in
      is_err (snd (normalize_group_id p)) &
      (let p = (mp_new ''x'')\<lparr>mp_group_id := Some ''0123''\<rparr> in
       is_err (snd (normalize_group_id p)) &
       (let p = (mp_new ''x'')\<lparr>mp_group_id := Some (repeat_str ''z'' 64)\<rparr> in
        is_err (snd (normalize_group_id p)) &
        (let p = (mp_new ''x'')\<lparr>mp_group_id := Some (repeat_str ''a'' 64)\<rparr> in
         (case normalize_group_id p of (p, r) \<Rightarrow>
          is_ok r \<and> mp_group_id p = Some (repeat_str ''a'' 64))))))"

subsection \<open>Client authentication\<close>

definition test_sign_request_produces_valid_headers :: "prims \<Rightarrow> bytes \<times> bytes \<Rightarrow> u64 option \<Rightarrow> bool" where
  "test_sign_request_produces_valid_headers P drawn clock =
     unwrap_then (ik_generate P drawn) (\<lambda>ident.
     let account_id = ''550e8400-e29b-41d4-a716-446655440000'';
         header = sign_request P clock ident account_id ''GET'' ''/api/v1/messages/inbox'' [] in
     ah_account_id header = account_id \<and> 0 < ah_timestamp header \<and> length (ah_signature_hex header) = 128 &
     (let message = build_signed_message P ''GET'' ''/api/v1/messages/inbox'' (ah_timestamp header) [] in
      unwrap_some (hex_decode P (ah_signature_hex header)) (\<lambda>sig_bytes.
      unwrap_some (signature_from_bytes P sig_bytes) (\<lambda>signature.
        ik_verify P (ik_public_key ident) message signature))))"

definition test_build_signed_message_deterministic :: "prims \<Rightarrow> bool" where
  "test_build_signed_message_deterministic P =
     (let msg1 = build_signed_message P ''GET'' ''/test'' 12345 (as_bytes ''hello'');
          msg2 = build_signed_message P ''GET'' ''/test'' 12345 (as_bytes ''hello'') in
      msg1 = msg2)"

definition test_build_signed_message_format :: "prims \<Rightarrow> bool" where
  "test_build_signed_message_format P =
     (let msg = build_signed_message P ''POST'' ''/api/v1/test'' 1700000000 [] in
      unwrap_some (from_utf8 msg) (\<lambda>msg_str.
        starts_with msg_str ''POST:/api/v1/test:1700000000:'' &
        (let empty_hash = hex_encode P (sha256 P []) in suffix empty_hash msg_str)))"

definition test_empty_body_signature_is_valid :: "prims \<Rightarrow> bytes \<times> bytes \<Rightarrow> bool" where
  "test_empty_body_signature_is_valid P drawn =
     unwrap_then (ik_generate P drawn) (\<lambda>ident.
     let timestamp = 1700000000;
         header = sign_request_with_timestamp P ident ''acct'' ''DELETE'' ''/api/v1/accounts/self'' [] timestamp;
         message = build_signed_message P ''DELETE'' ''/api/v1/accounts/self'' timestamp [] in
     unwrap_some (hex_decode P (ah_signature_hex header)) (\<lambda>sig_bytes.
     unwrap_some (signature_from_bytes P sig_bytes) (\<lambda>signature.
       ik_verify P (ik_public_key ident) message signature)))"

subsection \<open>The middleware\<close>

definition test_unauthenticated_routes :: "bool" where
  "test_unauthenticated_routes =
     (is_unauthenticated_route ''POST'' ''/api/v1/accounts/register'' &
      is_unauthenticated_route ''GET'' ''/api/v1/health'' &
      is_unauthenticated_route ''GET'' ''/api/v1/ping'' &
      is_unauthenticated_route ''GET'' ''/ws'' &
      is_unauthenticated_route ''GET'' ''/api/v1/accounts/by-key/abcdef1234567890'' &
      is_unauthenticated_route ''POST'' ''/api/v1/messages/send'' &
      is_unauthenticated_route ''POST'' ''/api/v1/messages/sealed'' &
      is_unauthenticated_route ''GET'' ''/api/v1/stats/visits'' &
      is_unauthenticated_route ''POST'' ''/api/v1/stats/visits'' &
      \<not> is_unauthenticated_route ''GET'' ''/api/v1/messages/inbox'' &
      \<not> is_unauthenticated_route ''DELETE'' ''/api/v1/stats/visits'' &
      \<not> is_unauthenticated_route ''DELETE'' ''/api/v1/accounts/self'' &
      \<not> is_unauthenticated_route ''POST'' ''/api/v1/ping'')"

definition test_timestamp_drift_calculation :: "bool" where
  "test_timestamp_drift_calculation =
     (let now = 1700000300 :: u64; timestamp = 1700000000; drift = now - timestamp in
      drift = 300 \<and> drift \<le> MAX_TIMESTAMP_DRIFT_SECS &
      (let stale_timestamp = 1699999999; stale_drift = now - stale_timestamp in
       stale_drift = 301 \<and> MAX_TIMESTAMP_DRIFT_SECS < stale_drift))"

definition test_future_timestamp_drift :: "bool" where
  "test_future_timestamp_drift =
     (let now = 1700000000 :: u64; future_timestamp = 1700000301; drift = future_timestamp - now in
      drift = 301 \<and> MAX_TIMESTAMP_DRIFT_SECS < drift)"

definition test_extract_account_id_valid :: "'b server_env \<Rightarrow> (uuid \<Rightarrow> string) \<Rightarrow> 'b \<Rightarrow> bool" where
  "test_extract_account_id_valid E uuid_to_string body =
     (let headers = [''X-Account-Id'' \<mapsto> as_bytes ''550e8400-e29b-41d4-a716-446655440000''];
          r = extract_account_id E \<lparr>rq_method = ''GET'', rq_path = ''/'', rq_headers = headers, rq_body = body, rq_user = None\<rparr> in
      is_ok r &
      unwrap_then r (\<lambda>u. uuid_to_string u = ''550e8400-e29b-41d4-a716-446655440000''))"

definition test_extract_account_id_missing :: "'b server_env \<Rightarrow> 'b \<Rightarrow> bool" where
  "test_extract_account_id_missing E body =
     (let headers = Map.empty;
          r = extract_account_id E \<lparr>rq_method = ''GET'', rq_path = ''/'', rq_headers = headers, rq_body = body, rq_user = None\<rparr> in
      r = Err UNAUTHORIZED)"

definition test_extract_account_id_invalid_uuid :: "'b server_env \<Rightarrow> 'b \<Rightarrow> bool" where
  "test_extract_account_id_invalid_uuid E body =
     (let headers = [''X-Account-Id'' \<mapsto> as_bytes ''not-a-uuid''];
          r = extract_account_id E \<lparr>rq_method = ''GET'', rq_path = ''/'', rq_headers = headers, rq_body = body, rq_user = None\<rparr> in
      r = Err BAD_REQUEST)"

subsection \<open>They pass\<close>

lemma names_differ: "repeat_str ''aa'' 32 \<noteq> repeat_str ''bb'' 32" "repeat_str ''aa'' 32 \<noteq> repeat_str ''cc'' 32"
  "repeat_str ''bb'' 32 \<noteq> repeat_str ''cc'' 32" "repeat_str ''aa'' 32 \<noteq> repeat_str ''ff'' 32"
  by (simp_all add: repeat_str_def numeral_eq_Suc)

theorem group_tests_pass:
  assumes "hex_ok P" "hex_strict P" "sodium_init P" "\<forall>x. \<exists>b. ser x = Inr b \<and> de b = Inr x"
  shows "test_group_id_hex_roundtrip P rnd \<and> test_group_id_from_hex_invalid_length P &
    test_group_id_from_hex_invalid_hex P \<and> (0 < now \<longrightarrow> test_group_info_new_includes_creator P rnd (Some now)) &
    test_group_info_creator_already_in_members P rnd clock \<and> test_add_member P rnd clock &
    test_remove_member P rnd clock \<and> test_other_members P rnd clock &
    test_non_member_cannot_be_verified P rnd clock \<and> test_group_info_serialization P ser de rnd clock"
proof -
  note names_differ [simp] names_differ [symmetric, simp]
  have short: "is_err (gid_from_hex P s)" if "length s = 4" for s
    using hex_strict_length [OF assms(2), of s] that by (cases "hex_decode P s") (auto simp: gid_from_hex_def)
  have "test_group_id_hex_roundtrip P rnd"
    by (simp add: test_group_id_hex_roundtrip_def assms(3) gid_generate_def gid_to_hex_def gid_from_hex_def
        hex_laws [OF assms(1)])
  moreover have "test_group_id_from_hex_invalid_length P" "test_group_id_from_hex_invalid_hex P"
    by (simp_all add: test_group_id_from_hex_invalid_length_def test_group_id_from_hex_invalid_hex_def short)
  moreover have new: "unwrap_then (gi_new P rnd c n cr ms) k = k \<lparr>gi_group_id = GroupId (random_bytes rnd 32),
      gi_name = n, gi_members = (if cr \<notin> set ms then ms @ [cr] else ms),
      gi_created_at = (case c of None \<Rightarrow> 0 | Some t \<Rightarrow> t), gi_created_by = cr\<rparr>" for c n cr ms k
    by (simp add: gi_new_def gid_generate_def assms(3))
  have "test_group_info_creator_already_in_members P rnd clock" "test_add_member P rnd clock"
    "test_remove_member P rnd clock" "test_other_members P rnd clock" "test_non_member_cannot_be_verified P rnd clock"
    "0 < now \<longrightarrow> test_group_info_new_includes_creator P rnd (Some now)"
    by (simp_all add: test_group_info_creator_already_in_members_def test_add_member_def test_remove_member_def
        test_other_members_def test_non_member_cannot_be_verified_def test_group_info_new_includes_creator_def
        new assms(3) add_member_def remove_member_def is_member_def other_members_def Let_def)
  moreover have "test_group_info_serialization P ser de rnd clock"
  proof -
    let ?g = "\<lparr>gi_group_id = GroupId (random_bytes rnd 32), gi_name = ''Serialization Test'',
      gi_members = [repeat_str ''aa'' 32], gi_created_at = (case clock of None \<Rightarrow> 0 | Some t \<Rightarrow> t),
      gi_created_by = repeat_str ''aa'' 32\<rparr>"
    obtain b where "ser ?g = Inr b" "de b = Inr ?g"
      using assms(4) by blast
    then show ?thesis
      by (simp add: test_group_info_serialization_def new assms(3) Let_def)
  qed
  ultimately show ?thesis
    by blast
qed

lemma hex_repeat: "list_all is_ascii_hexdigit s \<Longrightarrow> list_all is_ascii_hexdigit (repeat_str s n)"
  by (cases n) (auto simp: list_all_iff set_repeat_str)

lemma group_id_update: "mp_group_id (p\<lparr>mp_group_id := i\<rparr>) = i"
  by simp

lemma length_differs: "length s \<noteq> length t \<Longrightarrow> s \<noteq> t"
  by blast

lemma normalize_garbage:
  assumes "i \<noteq> GROUP_ID_PLACEHOLDER" "i \<noteq> []" "length i = 64 \<longrightarrow> \<not> list_all is_ascii_hexdigit i"
  shows "is_err (snd (normalize_group_id (p\<lparr>mp_group_id := Some i\<rparr>)))"
  using assms by (auto simp: normalize_group_id_def GROUP_ID_LEN_def)

lemma normalize_hex:
  assumes "i \<noteq> GROUP_ID_PLACEHOLDER" "list_all is_ascii_hexdigit i" "length i = 64"
  shows "normalize_group_id (p\<lparr>mp_group_id := Some i\<rparr>) = (p\<lparr>mp_group_id := Some i\<rparr>, Ok ())"
  using assms by (auto simp: normalize_group_id_def GROUP_ID_LEN_def)

theorem payload_tests_pass:
  assumes "sodium_init P" "\<forall>x. \<exists>b. ser x = Inr b \<and> de b = Inr x" "\<forall>x b. ser x = Inr b \<longrightarrow> de b = Inr x"
    and "\<And>x i j b b'. list_all is_ascii_hexdigit i \<Longrightarrow> list_all is_ascii_hexdigit j \<Longrightarrow> length i = length j \<Longrightarrow>
      ser (x\<lparr>mp_group_id := Some i\<rparr>) = Inr b \<Longrightarrow> ser (x\<lparr>mp_group_id := Some j\<rparr>) = Inr b' \<Longrightarrow> length b = length b'"
  shows "test_payload_without_ttl_roundtrip ser de \<and> test_payload_with_ttl_roundtrip ser de &
    test_padded_roundtrip P ser de rnd \<and> test_padded_size_invariant_under_group_id ser rnd rnd' &
    test_padded_roundtrip_dm_recovers_none_group_id ser de rnd &
    test_padded_roundtrip_group_id_preserved ser de rnd \<and> test_normalize_group_id_rejects_garbage"
proof -
  have plain: "unwrap_then (mp_to_bytes ser p) (\<lambda>bs. unwrap_then (mp_from_bytes de bs) k) \<longleftrightarrow> k p" for p k
  proof -
    obtain b where "ser p = Inr b" "de b = Inr p"
      using assms(2) by blast
    then show ?thesis
      by (simp add: mp_to_bytes_def mp_from_bytes_def)
  qed
  have padded: "\<exists>b c. ser (on_wire p) = Inr b \<and> to_padded_bytes r ser p = Ok c \<and> length c = bucket_size (length b) &
      from_padded_bytes de c = Ok p" if "group_ok p" for p r
  proof -
    obtain b where b: "ser (on_wire p) = Inr b"
      using assms(2) by blast
    then have c: "to_padded_bytes r ser p = Ok (b @ padding_of r (length b))"
      by (simp add: to_padded_bytes_def on_wire_def pad_message_eq Let_def split: if_splits)
    with b padded_payload_opens [OF assms(3) that c] length_pad_message [OF pad_message_eq [of r b]] show ?thesis
      by simp
  qed
  have digits: "list_all is_ascii_hexdigit ''a''" "list_all is_ascii_hexdigit ''0123456789abcdef''"
    "\<not> is_ascii_hexdigit (CHR ''z'')"
    by (simp_all add: is_ascii_hexdigit_def)
  have other: "repeat_str ''a'' 64 \<noteq> GROUP_ID_PLACEHOLDER" "repeat_str ''0123456789abcdef'' 4 \<noteq> GROUP_ID_PLACEHOLDER"
    "repeat_str ''z'' 64 \<noteq> GROUP_ID_PLACEHOLDER"
    by (simp_all add: repeat_str_def GROUP_ID_PLACEHOLDER_def numeral_eq_Suc)
  have ok: "group_ok (mp_new t)" "group_ok (mp_with_ttl t n)" for t n
    by (simp_all add: group_ok_def mp_new_def mp_with_ttl_def)
  have groups: "group_ok (mp_in_group (repeat_str ''a'' 64) (mp_new t))"
    "group_ok (mp_in_group (repeat_str ''0123456789abcdef'' 4) (mp_new t))" for t
    using other hex_repeat [OF digits(1)] hex_repeat [OF digits(2)]
    by (simp_all add: group_ok_def mp_in_group_def length_repeat_str)
  have "test_payload_without_ttl_roundtrip ser de" "test_payload_with_ttl_roundtrip ser de"
    by (simp_all add: test_payload_without_ttl_roundtrip_def test_payload_with_ttl_roundtrip_def plain mp_new_def mp_with_ttl_def)
  moreover have "test_padded_roundtrip_dm_recovers_none_group_id ser de rnd"
    using padded [OF ok(1) [of "''hi''"], of rnd]
    by (auto simp: test_padded_roundtrip_dm_recovers_none_group_id_def mp_new_def)
  moreover have "test_padded_roundtrip_group_id_preserved ser de rnd"
    using padded [OF groups(2) [of "''hi''"], of rnd]
    by (auto simp: test_padded_roundtrip_group_id_preserved_def mp_new_def mp_in_group_def Let_def)
  moreover have "test_padded_roundtrip P ser de rnd"
  proof -
    obtain b c :: bytes where c: "to_padded_bytes rnd ser (mp_with_ttl ''padded secret'' 60) = Ok c"
      "length c = bucket_size (length b)" "from_padded_bytes de c = Ok (mp_with_ttl ''padded secret'' 60)"
      using padded [OF ok(2) [of "''padded secret''" 60], of rnd] by blast
    have "length c \<in> buckets"
      unfolding c(2) by (rule bucket_in_buckets)
    then have "256 \<le> length c" "(\<exists>k \<in> {0 ..< 64}. length c = 2 ^ k) \<or> length c mod 65536 = 0"
      using power_increasing [of 8 _ "2 :: nat"] by (auto simp: buckets_def)
    with c(1,3) assms(1) show ?thesis
      by (simp add: test_padded_roundtrip_def Let_def list_ex_iff)
  qed
  moreover have "test_padded_size_invariant_under_group_id ser rnd rnd'"
  proof -
    let ?p = "mp_new ''hi''" and ?g = "mp_in_group (repeat_str ''a'' 64) (mp_new ''hi'')"
    obtain b c where c: "ser (on_wire ?p) = Inr b" "to_padded_bytes rnd ser ?p = Ok c" "length c = bucket_size (length b)"
      using padded [OF ok(1) [of "''hi''"], of rnd] by blast
    obtain b' c' where c': "ser (on_wire ?g) = Inr b'" "to_padded_bytes rnd' ser ?g = Ok c'" "length c' = bucket_size (length b')"
      using padded [OF groups(1) [of "''hi''"], of rnd'] by blast
    have "length b = length b'"
      by (rule assms(4) [OF placeholder_props(2) hex_repeat [OF digits(1)], of 64 ?p])
        (use c(1) c'(1) in \<open>simp_all add: on_wire_def mp_new_def mp_in_group_def placeholder_props(1) length_repeat_str\<close>)
    with c c' show ?thesis
      by (simp add: test_padded_size_invariant_under_group_id_def)
  qed
  moreover have "test_normalize_group_id_rejects_garbage"
  proof -
    have long: "''not-hex'' \<noteq> GROUP_ID_PLACEHOLDER" "''0123'' \<noteq> GROUP_ID_PLACEHOLDER"
      by (rule length_differs, simp add: placeholder_props(1))+
    have "\<not> list_all is_ascii_hexdigit (repeat_str ''z'' 64)"
      using digits(3) by (simp add: list_all_iff set_repeat_str)
    then have bad: "is_err (snd (normalize_group_id (mp_new t\<lparr>mp_group_id := Some (repeat_str ''z'' 64)\<rparr>)))" for t
      using other(3) by (intro normalize_garbage) (auto simp: length_repeat_str)
    have good: "list_all is_ascii_hexdigit (repeat_str ''a'' 64)" "length (repeat_str ''a'' 64) = 64"
      using hex_repeat [OF digits(1)] by (simp_all add: length_repeat_str)
    have "is_err (snd (normalize_group_id (mp_new t\<lparr>mp_group_id := Some ''not-hex''\<rparr>)))"
      "is_err (snd (normalize_group_id (mp_new t\<lparr>mp_group_id := Some ''0123''\<rparr>)))" for t
      by (rule normalize_garbage; simp add: long)+
    with bad good normalize_hex [OF other(1) good] show ?thesis
      by (simp only: test_normalize_group_id_rejects_garbage_def Let_def case_prod_conv test_simps simp_thms
          group_id_update)
  qed
  ultimately show ?thesis
    by blast
qed

lemma append_take_length: "take (length s) (s @ t) = s"
  by simp

theorem auth_tests_pass:
  assumes "hex_ok P" "sign_ok P" "sodium_init P" "sign_keypair P (fst drawn) (snd drawn)" "0 < now"
  shows "test_sign_request_produces_valid_headers P drawn (Some now) \<and> test_build_signed_message_deterministic P &
    test_build_signed_message_format P \<and> test_empty_body_signature_is_valid P drawn"
proof -
  let ?i = "\<lparr>ik_public_key = fst drawn, ik_secret_key = snd drawn\<rparr>"
  have id: "identity_ok P ?i"
    using assms(4) by (simp add: identity_ok_def)
  have verify: "ik_verify P (fst drawn) m (ik_sign P ?i m)" for m
    using ik_sign_verify [OF assms(2) id, of m] by simp
  have gen: "unwrap_then (ik_generate P drawn) k \<longleftrightarrow> k ?i" for k
    by (simp add: ik_generate_def assms(3) split_beta)
  have sig: "signature_from_bytes P (ik_sign P ?i m) = Some (ik_sign P ?i m)" "length (ik_sign P ?i m) = 64" for m
    by (simp_all add: ik_sign_def signature_laws [OF assms(2)])
  have "test_sign_request_produces_valid_headers P drawn (Some now)" "test_empty_body_signature_is_valid P drawn"
    by (simp_all add: test_sign_request_produces_valid_headers_def test_empty_body_signature_is_valid_def gen sign_request_def
        sign_request_with_timestamp_def Let_def hex_laws [OF assms(1)] sig verify assms(5))
  moreover have "test_build_signed_message_deterministic P"
    by (simp add: test_build_signed_message_deterministic_def)
  moreover have "test_build_signed_message_format P"
  proof -
    let ?p = "''POST:/api/v1/test:1700000000:''" and ?h = "hex_encode P (sha256 P [])"
    have "show_nat (unat (1700000000 :: u64)) = ''1700000000''"
      by (simp add: show_nat.simps digit_char_def char_of_def bit_iff_odd)
    then have m: "build_signed_message P ''POST'' ''/api/v1/test'' 1700000000 [] = as_bytes (?p @ ?h)"
      by (simp add: build_signed_message_def)
    have "\<forall>b \<in> set (as_bytes ?p). b < 0x80"
      by code_simp
    moreover have "\<forall>b \<in> set (as_bytes ?h). b < 0x80"
      using hex_laws(3) [OF assms(1)] by (rule hexdigit_bytes)
    ultimately have "from_utf8 (as_bytes (?p @ ?h)) = Some (?p @ ?h)"
      by (intro from_utf8_as_bytes utf8_valid_ascii) (simp only: as_bytes_append set_append ball_Un)
    moreover have "starts_with (?p @ ?h) ?p" "suffix ?h (?p @ ?h)"
      by (simp_all only: starts_with_def suffix_appendI suffix_order.refl append_take_length)
    ultimately show ?thesis
      by (simp only: test_build_signed_message_format_def Let_def m test_simps)
  qed
  ultimately show ?thesis
    by blast
qed

theorem middleware_tests_pass:
  assumes "\<And>s. list_all (\<lambda>c. of_char c \<in> {32 ..< 127 :: nat}) s \<Longrightarrow> header_to_str E (as_bytes s) = Some s"
    and "parse_uuid E ''not-a-uuid'' = None"
    and "parse_uuid E ''550e8400-e29b-41d4-a716-446655440000'' = Some u"
    and "uuid_to_string u = ''550e8400-e29b-41d4-a716-446655440000''"
  shows "test_unauthenticated_routes \<and> test_timestamp_drift_calculation \<and> test_future_timestamp_drift &
    test_extract_account_id_valid E uuid_to_string body \<and> test_extract_account_id_missing E body &
    test_extract_account_id_invalid_uuid E body"
proof -
  have "test_unauthenticated_routes"
    unfolding test_unauthenticated_routes_def by code_simp
  moreover have "test_timestamp_drift_calculation" "test_future_timestamp_drift"
    by (simp_all add: test_timestamp_drift_calculation_def test_future_timestamp_drift_def MAX_TIMESTAMP_DRIFT_SECS_def)
  moreover have "header_to_str E (as_bytes ''550e8400-e29b-41d4-a716-446655440000'') = Some ''550e8400-e29b-41d4-a716-446655440000''"
    "header_to_str E (as_bytes ''not-a-uuid'') = Some ''not-a-uuid''"
    by (rule assms(1); code_simp)+
  then have "test_extract_account_id_valid E uuid_to_string body" "test_extract_account_id_invalid_uuid E body"
    using assms(2-4)
    by (simp_all add: test_extract_account_id_valid_def test_extract_account_id_invalid_uuid_def extract_account_id_def
        get_header_def Let_def)
  moreover have "test_extract_account_id_missing E body"
    by (simp add: test_extract_account_id_missing_def extract_account_id_def get_header_def)
  ultimately show ?thesis
    by blast
qed

end
