(* ===== verification/Tests_Ratchet.thy ===== *)
theory Tests_Ratchet
  imports Ratchet_Mailbox Message_Payload Test_Support
begin

section \<open>Unit tests of the ratchet\<close>

text \<open>
  The test module of \<open>double_ratchet.rs\<close> and the tests of \<open>message_payload.rs\<close> that send a
  payload through a session.  The pairs a test draws are \<open>keys 0\<close> for Bob, \<open>keys 1\<close> for Alice
  and one for each message that is opened; \<open>nonces\<close> are drawn by \<open>encrypt\<close>.
  The test that a wrong root key fails is in \<open>Tests_Rejections\<close>.
\<close>

type_synonym key_draws = "nat \<Rightarrow> bytes \<times> bytes"

definition ratchet_pair :: "prims \<Rightarrow> key_draws \<Rightarrow> bytes \<Rightarrow> (RatchetState \<Rightarrow> RatchetState \<Rightarrow> bool) \<Rightarrow> bool" where
  "ratchet_pair P keys shared_secret k =
     (sodium_init P \<and>
      unwrap_then (init_sender P (keys 1) shared_secret (fst (keys 0))) (\<lambda>alice.
      let bob = init_receiver shared_secret (keys 0) in k alice bob))"

subsection \<open>The tests\<close>

definition test_ratchet_encrypt_decrypt :: "prims \<Rightarrow> key_draws \<Rightarrow> (nat \<Rightarrow> bytes) \<Rightarrow> bool" where
  "test_ratchet_encrypt_decrypt P keys nonces =
     ratchet_pair P keys (replicate 32 0x42) (\<lambda>alice bob.
     let ad = as_bytes ''session-id'' in
     unwrap_st (encrypt P (nonces 0) (as_bytes ''hello bob'') ad alice) (\<lambda>alice (header, ct).
     unwrap_st (decrypt P (keys 2) header ct ad bob) (\<lambda>bob pt.
       pt = as_bytes ''hello bob'')))"

definition test_ratchet_bidirectional :: "prims \<Rightarrow> key_draws \<Rightarrow> (nat \<Rightarrow> bytes) \<Rightarrow> bool" where
  "test_ratchet_bidirectional P keys nonces =
     ratchet_pair P keys (replicate 32 0x55) (\<lambda>alice bob.
     let ad = as_bytes ''test'' in
     unwrap_st (encrypt P (nonces 0) (as_bytes ''msg1'') ad alice) (\<lambda>alice (h1, ct1).
     unwrap_st (decrypt P (keys 2) h1 ct1 ad bob) (\<lambda>bob pt1.
     pt1 = as_bytes ''msg1'' \<and>
     unwrap_st (encrypt P (nonces 1) (as_bytes ''reply1'') ad bob) (\<lambda>bob (h2, ct2).
     unwrap_st (decrypt P (keys 3) h2 ct2 ad alice) (\<lambda>alice pt2.
     pt2 = as_bytes ''reply1'' \<and>
     unwrap_st (encrypt P (nonces 2) (as_bytes ''msg2'') ad alice) (\<lambda>alice (h3, ct3).
     unwrap_st (decrypt P (keys 4) h3 ct3 ad bob) (\<lambda>bob pt3.
       pt3 = as_bytes ''msg2'')))))))"

definition test_out_of_order_same_chain :: "prims \<Rightarrow> key_draws \<Rightarrow> (nat \<Rightarrow> bytes) \<Rightarrow> bool" where
  "test_out_of_order_same_chain P keys nonces =
     ratchet_pair P keys (replicate 32 0x42) (\<lambda>alice bob.
     let ad = as_bytes ''ooo-test'' in
     unwrap_st (encrypt P (nonces 0) (as_bytes ''message 0'') ad alice) (\<lambda>alice (h0, ct0).
     unwrap_st (encrypt P (nonces 1) (as_bytes ''message 1'') ad alice) (\<lambda>alice (h1, ct1).
     unwrap_st (encrypt P (nonces 2) (as_bytes ''message 2'') ad alice) (\<lambda>alice (h2, ct2).
     unwrap_st (decrypt P (keys 2) h2 ct2 ad bob) (\<lambda>bob pt2.
     pt2 = as_bytes ''message 2'' \<and> card (dom (skipped_keys bob)) = 2 \<and>
     unwrap_st (decrypt P (keys 3) h0 ct0 ad bob) (\<lambda>bob pt0.
     pt0 = as_bytes ''message 0'' \<and> card (dom (skipped_keys bob)) = 1 \<and>
     unwrap_st (decrypt P (keys 4) h1 ct1 ad bob) (\<lambda>bob pt1.
     pt1 = as_bytes ''message 1'' \<and> card (dom (skipped_keys bob)) = 0)))))))"

definition test_out_of_order_skip_first_message :: "prims \<Rightarrow> key_draws \<Rightarrow> (nat \<Rightarrow> bytes) \<Rightarrow> bool" where
  "test_out_of_order_skip_first_message P keys nonces =
     ratchet_pair P keys (replicate 32 0x77) (\<lambda>alice bob.
     let ad = as_bytes ''skip'' in
     unwrap_st (encrypt P (nonces 0) (as_bytes ''first'') ad alice) (\<lambda>alice (h0, ct0).
     unwrap_st (encrypt P (nonces 1) (as_bytes ''second'') ad alice) (\<lambda>alice (h1, ct1).
     unwrap_st (decrypt P (keys 2) h1 ct1 ad bob) (\<lambda>bob pt1.
     pt1 = as_bytes ''second'' \<and>
     unwrap_st (decrypt P (keys 3) h0 ct0 ad bob) (\<lambda>bob pt0.
     pt0 = as_bytes ''first'')))))"

definition test_out_of_order_across_ratchet_steps :: "prims \<Rightarrow> key_draws \<Rightarrow> (nat \<Rightarrow> bytes) \<Rightarrow> bool" where
  "test_out_of_order_across_ratchet_steps P keys nonces =
     ratchet_pair P keys (replicate 32 0x99) (\<lambda>alice bob.
     let ad = as_bytes ''cross-ratchet'' in
     unwrap_st (encrypt P (nonces 0) (as_bytes ''old chain 0'') ad alice) (\<lambda>alice (h0, ct0).
     unwrap_st (encrypt P (nonces 1) (as_bytes ''old chain 1'') ad alice) (\<lambda>alice (h1, ct1).
     unwrap_st (decrypt P (keys 2) h0 ct0 ad bob) (\<lambda>bob pt0.
     pt0 = as_bytes ''old chain 0'' \<and>
     unwrap_st (encrypt P (nonces 2) (as_bytes ''bob reply'') ad bob) (\<lambda>bob (h_reply, ct_reply).
     unwrap_st (decrypt P (keys 3) h_reply ct_reply ad alice) (\<lambda>alice pt_reply.
     pt_reply = as_bytes ''bob reply'' \<and>
     unwrap_st (encrypt P (nonces 3) (as_bytes ''new chain 0'') ad alice) (\<lambda>alice (h2, ct2).
     unwrap_st (decrypt P (keys 4) h2 ct2 ad bob) (\<lambda>bob pt2.
     pt2 = as_bytes ''new chain 0'' \<and>
     unwrap_st (decrypt P (keys 5) h1 ct1 ad bob) (\<lambda>bob pt1.
     pt1 = as_bytes ''old chain 1'')))))))))"

definition test_skipped_key_consumed_once :: "prims \<Rightarrow> key_draws \<Rightarrow> (nat \<Rightarrow> bytes) \<Rightarrow> bool" where
  "test_skipped_key_consumed_once P keys nonces =
     ratchet_pair P keys (replicate 32 0xAA) (\<lambda>alice bob.
     let ad = as_bytes ''replay'' in
     unwrap_st (encrypt P (nonces 0) (as_bytes ''unreplayed'') ad alice) (\<lambda>alice (h0, ct0).
     unwrap_st (encrypt P (nonces 1) (as_bytes ''target'') ad alice) (\<lambda>alice (h1, ct1).
     unwrap_st (decrypt P (keys 2) h1 ct1 ad bob) (\<lambda>bob pt1.
     pt1 = as_bytes ''target'' \<and>
     unwrap_st (decrypt P (keys 3) h0 ct0 ad bob) (\<lambda>bob pt0.
     pt0 = as_bytes ''unreplayed'' \<and>
     (case decrypt P (keys 4) h0 ct0 ad bob of (bob, r) \<Rightarrow> is_err r))))))"

fun in_order_rounds :: "prims \<Rightarrow> key_draws \<Rightarrow> (nat \<Rightarrow> bytes) \<Rightarrow> bytes \<Rightarrow> nat list \<Rightarrow> RatchetState \<Rightarrow> RatchetState \<Rightarrow> bool" where
  "in_order_rounds P keys nonces ad [] alice bob = True"
| "in_order_rounds P keys nonces ad (i # js) alice bob =
     (let msg = ''message '' @ show_nat i in
      unwrap_st (encrypt P (nonces i) (as_bytes msg) ad alice) (\<lambda>alice (h, ct).
      unwrap_st (decrypt P (keys (i + 2)) h ct ad bob) (\<lambda>bob pt.
      pt = as_bytes msg \<and> card (dom (skipped_keys bob)) = 0 \<and>
      in_order_rounds P keys nonces ad js alice bob)))"

definition test_in_order_still_works :: "prims \<Rightarrow> key_draws \<Rightarrow> (nat \<Rightarrow> bytes) \<Rightarrow> bool" where
  "test_in_order_still_works P keys nonces =
     ratchet_pair P keys (replicate 32 0xBB) (\<lambda>alice bob.
     let ad = as_bytes ''in-order'' in in_order_rounds P keys nonces ad [0 ..< 10] alice bob)"

definition test_padded_encrypt_decrypt_with_ratchet ::
    "prims \<Rightarrow> payload_ser \<Rightarrow> payload_de \<Rightarrow> random \<Rightarrow> key_draws \<Rightarrow> (nat \<Rightarrow> bytes) \<Rightarrow> bool" where
  "test_padded_encrypt_decrypt_with_ratchet P ser de rnd keys nonces =
     ratchet_pair P keys (replicate 32 0x42) (\<lambda>alice bob.
     let payload = mp_with_ttl ''padded vanishing message'' 10 in
     unwrap_then (to_padded_bytes rnd ser payload) (\<lambda>padded_bytes.
     let ad = as_bytes ''session-id'' in
     unwrap_st (encrypt P (nonces 0) padded_bytes ad alice) (\<lambda>alice (header, ct).
     unwrap_st (decrypt P (keys 2) header ct ad bob) (\<lambda>bob pt.
     unwrap_then (from_padded_bytes de pt) (\<lambda>decrypted_payload.
       mp_body decrypted_payload = ''padded vanishing message'' \<and>
       mp_ttl_seconds decrypted_payload = Some 10)))))"

definition test_payload_encrypt_decrypt_with_ratchet ::
    "prims \<Rightarrow> payload_ser \<Rightarrow> payload_de \<Rightarrow> key_draws \<Rightarrow> (nat \<Rightarrow> bytes) \<Rightarrow> bool" where
  "test_payload_encrypt_decrypt_with_ratchet P ser de keys nonces =
     ratchet_pair P keys (replicate 32 0x42) (\<lambda>alice bob.
     let payload = mp_with_ttl ''vanishing message'' 5 in
     unwrap_then (mp_to_bytes ser payload) (\<lambda>payload_bytes.
     let ad = as_bytes ''session-id'' in
     unwrap_st (encrypt P (nonces 0) payload_bytes ad alice) (\<lambda>alice (header, ct).
     unwrap_st (decrypt P (keys 2) header ct ad bob) (\<lambda>bob pt.
     unwrap_then (mp_from_bytes de pt) (\<lambda>decrypted_payload.
       mp_body decrypted_payload = ''vanishing message'' \<and> mp_ttl_seconds decrypted_payload = Some 5)))))"

definition test_payload_no_ttl_encrypt_decrypt_with_ratchet ::
    "prims \<Rightarrow> payload_ser \<Rightarrow> payload_de \<Rightarrow> key_draws \<Rightarrow> (nat \<Rightarrow> bytes) \<Rightarrow> bool" where
  "test_payload_no_ttl_encrypt_decrypt_with_ratchet P ser de keys nonces =
     ratchet_pair P keys (replicate 32 0x42) (\<lambda>alice bob.
     let payload = mp_new ''permanent message'' in
     unwrap_then (mp_to_bytes ser payload) (\<lambda>payload_bytes.
     let ad = as_bytes ''session-id'' in
     unwrap_st (encrypt P (nonces 0) payload_bytes ad alice) (\<lambda>alice (header, ct).
     unwrap_st (decrypt P (keys 2) header ct ad bob) (\<lambda>bob pt.
     unwrap_then (mp_from_bytes de pt) (\<lambda>decrypted_payload.
       mp_body decrypted_payload = ''permanent message'' \<and> mp_ttl_seconds decrypted_payload = None)))))"

subsection \<open>Alice's first chain\<close>

text \<open>
  Alice has sent \<open>m\<close> messages of her first chain, of root \<open>D\<close>; Bob has opened messages below
  \<open>r\<close> and caches the keys of the numbers in \<open>L\<close>.
\<close>

definition draws_ok :: "prims \<Rightarrow> key_draws \<Rightarrow> (nat \<Rightarrow> bytes) \<Rightarrow> bool" where
  "draws_ok P keys nonces \<longleftrightarrow> (\<forall>i. box_keypair P (fst (keys i)) (snd (keys i))) \<and>
     inj_on (\<lambda>i. fst (keys i)) {..< 12} \<and> (\<forall>i. length (nonces i) = 24)"

definition first_header :: "bytes \<Rightarrow> nat \<Rightarrow> MessageHeader" where
  "first_header pk n = \<lparr>h_ratchet_public_key = pk, h_previous_chain_length = 0, h_message_number = word_of_nat n\<rparr>"

definition first_body :: "prims \<Rightarrow> bytes \<Rightarrow> nat \<Rightarrow> bytes \<Rightarrow> bytes \<Rightarrow> bytes \<Rightarrow> bytes" where
  "first_body P D n nonce p ad = nonce @ aead_seal P p (Some ad) nonce (msg_key_at P D n)"

definition sends_at :: "prims \<Rightarrow> bytes \<Rightarrow> bytes \<Rightarrow> nat \<Rightarrow> RatchetState \<Rightarrow> bool" where
  "sends_at P D pk m st \<longleftrightarrow> sending_chain_key st = Some (chain_key_at P D m) \<and>
     send_message_number st = word_of_nat m \<and> previous_chain_length st = 0 \<and>
     (\<exists>sk. sending_keypair st = Some (pk, sk))"

definition gets_at :: "prims \<Rightarrow> bytes \<Rightarrow> bytes \<Rightarrow> nat set \<Rightarrow> nat \<Rightarrow> RatchetState \<Rightarrow> bool" where
  "gets_at P D pk L r st \<longleftrightarrow> remote_ratchet_key st = Some pk \<and>
     receiving_chain_key st = Some (chain_key_at P D r) \<and> recv_message_number st = word_of_nat r \<and>
     r \<le> 1001 \<and> L \<subseteq> {..< r} \<and>
     skipped_keys st = (\<lambda>(k, n). if k = pk \<and> unat n \<in> L then Some (msg_key_at P D (unat n)) else None)"

lemma small_u32: "n \<le> 1001 \<Longrightarrow> unat (word_of_nat n :: u32) = n"
  by (simp add: unsigned_of_nat take_bit_nat_eq_self)

lemma u32_of_unat: "word_of_nat (unat n) = (n :: u32)"
  by simp

lemma cache_size: "gets_at P D pk L r st \<Longrightarrow> card (dom (skipped_keys st)) = card L"
proof -
  assume g: "gets_at P D pk L r st"
  then have u: "unat (word_of_nat n :: u32) = n" if "n \<in> L" for n
    using that by (intro small_u32) (auto simp: gets_at_def)
  have "dom (skipped_keys st) = (\<lambda>n. (pk, word_of_nat n)) ` L"
    using g u by (auto simp: gets_at_def dom_def image_iff split: if_splits)
      (metis u32_of_unat)
  moreover have "inj_on (\<lambda>n. (pk, word_of_nat n :: u32)) L"
    by (rule inj_onI) (metis u prod.inject)
  ultimately show ?thesis
    by (simp add: card_image)
qed

lemma alice_sends:
  assumes "ratchet_prims_ok P" "sends_at P D pk m st"
  shows "\<exists>st'. encrypt P nonce p ad st = (st', Ok (first_header pk m, first_body P D m nonce p ad)) \<and>
    sends_at P D pk (Suc m) st'"
  using assms encrypt_eq [OF assms(1), of st] by (auto simp: sends_at_def first_header_def first_body_def)

lemma bob_opens_next:
  assumes P: "ratchet_prims_ok P" and pk: "length pk = 32" and g: "gets_at P D pk L r st" and n: "r \<le> n" "n \<le> 1000"
  shows "\<exists>st'. decrypt P drawn (first_header pk n) c ad st = (st', decrypt_with_key P (msg_key_at P D n) c ad) \<and>
    gets_at P D pk (L \<union> {r ..< n}) (Suc n) st'"
proof -
  let ?r = "word_of_nat r :: u32" and ?n = "word_of_nat n :: u32"
  have u: "unat ?r = r" "unat ?n = n" "unat (?n + 1) = Suc n"
    using n small_u32 [of r] small_u32 [of n] small_u32 [of "Suc n"] by (simp_all add: add.commute)
  have st: "remote_ratchet_key st = Some pk" "receiving_chain_key st = Some (chain_key_at P D r)"
    "recv_message_number st = ?r" "skipped_keys st (pk, ?n) = None" "L \<subseteq> {..< r}"
    using g n u(2) by (auto simp: gets_at_def)
  have "\<not> ?n < ?r" "\<not> MAX_SKIP < ?n - ?r"
    using u n by (simp_all add: MAX_SKIP_def word_less_nat_alt unat_sub word_le_nat_alt)
  then have "decrypt P drawn (first_header pk n) c ad st =
    (st\<lparr>skipped_keys := skip_store P pk (chain_key_at P D r) ?r ?n (skipped_keys st),
       receiving_chain_key := Some (chain_key_at P D (Suc n)), recv_message_number := ?n + 1\<rparr>,
     decrypt_with_key P (msg_key_at P D n) c ad)"
    using decrypt_current [OF ratchet_prims(1) [OF P], of st "first_header pk n"] st pk n u
      receive_at_eq [OF ratchet_prims(3) [OF P] st(1,2), of ?n]
    by (simp add: first_header_def chain_key_at_add msg_key_at_add)
  moreover have "skip_store P pk (chain_key_at P D r) ?r ?n (skipped_keys st) =
    (\<lambda>(k, i). if k = pk \<and> unat i \<in> L \<union> {r ..< n} then Some (msg_key_at P D (unat i)) else None)"
    using g u st(5) by (auto simp: gets_at_def skip_store_def fun_eq_iff msg_key_at_add word_le_nat_alt word_less_nat_alt)
  ultimately show ?thesis
    using g st(1,5) n by (auto simp: gets_at_def add.commute)
qed

lemma bob_opens_cached:
  assumes g: "gets_at P D pk L r st" and n: "n \<in> L"
  shows "\<exists>st'. decrypt P drawn (first_header pk n) c ad st = (st', decrypt_with_key P (msg_key_at P D n) c ad) \<and>
    gets_at P D pk (L - {n}) r st'"
proof -
  have u: "unat (word_of_nat n :: u32) = n"
    using g n by (intro small_u32) (auto simp: gets_at_def)
  have "(skipped_keys st)((pk, word_of_nat n) := None) =
    (\<lambda>(k, i). if k = pk \<and> unat i \<in> L - {n} then Some (msg_key_at P D (unat i)) else None)"
    using g u by (auto simp: gets_at_def fun_eq_iff)
  then show ?thesis
    using decrypt_cached [of st "first_header pk n" "msg_key_at P D n"] g u n
    by (auto simp: gets_at_def first_header_def)
qed

lemma bob_refuses_consumed:
  assumes P: "ratchet_prims_ok P" and pk: "length pk = 32" and g: "gets_at P D pk L r st" and n: "n < r" "n \<notin> L"
  shows "decrypt P drawn (first_header pk n) c ad st = (st, Err (RatchetError ''message number already consumed''))"
proof -
  let ?n = "word_of_nat n :: u32"
  have u: "unat ?n = n" "unat (word_of_nat r :: u32) = r"
    using g n by (auto simp: gets_at_def intro!: small_u32)
  then have "?n < word_of_nat r"
    using n by (simp add: word_less_nat_alt)
  with g u n pk show ?thesis
    using decrypt_current [OF ratchet_prims(1) [OF P], of st "first_header pk n"]
      receive_at_eq [OF ratchet_prims(3) [OF P], of st pk]
    by (simp add: gets_at_def first_header_def)
qed

lemma bob_opens_first:
  assumes P: "ratchet_prims_ok P" and kp: "box_keypair P pa sa" "box_keypair P pb sb" "box_keypair P pd sd"
    and x: "dh_exchange P sb pa = Ok x" and n: "n \<le> 1000"
  shows "\<exists>st'. decrypt P (pd, sd) (first_header pa n) c ad (init_receiver ss (pb, sb)) =
      (st', decrypt_with_key P (msg_key_at P (root_chain P ss x) n) c ad) \<and>
    gets_at P (root_chain P ss x) pa {0 ..< n} (Suc n) st'"
proof -
  note prims = ratchet_prims [OF P]
  have len: "length pa = 32"
    by (rule keypair_lengths [OF prims(2) kp(1)])
  obtain y where y: "dh_exchange P sd pa = Ok y"
    by (rule dh_exchange_agree [OF prims(1,2) kp(3,1)])
  let ?F = "init_receiver ss (pb, sb)"
  obtain st where st: "dh_ratchet_step P (pd, sd) pa ?F = (st, Ok ())" "gets_at P (root_chain P ss x) pa {} 0 st"
    using dh_ratchet_step_eq [OF prims(3) _ x y, of ?F pb pd] by (auto simp: init_receiver_def gets_at_def fun_eq_iff)
  then have free: "skipped_keys st (pa, word_of_nat n) = None" "remote_ratchet_key st = Some pa"
    by (simp_all add: gets_at_def)
  have "decrypt P (pd, sd) (first_header pa n) c ad ?F = receive_at P (word_of_nat n) c ad st"
    using decrypt_new_key [OF prims(1), of ?F "first_header pa n" "(pd, sd)" c ad] st(1) len
    by (simp add: init_receiver_def first_header_def skip_message_keys_for_current_chain_def)
  also have "\<dots> = decrypt P (pd, sd) (first_header pa n) c ad st"
    using decrypt_current [OF prims(1), of st "first_header pa n"] free len by (simp add: first_header_def)
  finally show ?thesis
    using bob_opens_next [OF P len st(2) _ n] by simp
qed

subsection \<open>Few messages in both directions\<close>

text \<open>
  A session in which fewer than 1000 messages were sent: no delivery is refused.
\<close>

definition small_session :: "prims \<Rightarrow> nat \<Rightarrow> session \<Rightarrow> bool" where
  "small_session P k s \<longleftrightarrow> session_inv P s \<and>
     (\<forall>X. unat (send_message_number (ends s X)) \<le> k \<and> unat (previous_chain_length (ends s X)) \<le> k \<and>
        (\<forall>p \<in> net s X. unat (p_num p) \<le> k \<and> unat (h_previous_chain_length (p_header p)) \<le> k))"

definition may_send :: "RatchetState \<Rightarrow> bool" where
  "may_send st \<longleftrightarrow> sending_chain_key st \<noteq> None \<or> remote_ratchet_key st = None \<and> skipped_keys st = Map.empty"

lemma small_send:
  assumes P: "ratchet_prims_ok P" and s: "small_session P k s" and k: "k < 1000" and nonce: "length nonce = 24"
    and chain: "sending_chain_key (ends s X) \<noteq> None"
  obtains s' st' h c where "encrypt P nonce p ad (ends s X) = (st', Ok (h, c))" "small_session P (Suc k) s'"
    "ends s' = (ends s)(X := st')" "drawn_keys s' = drawn_keys s" "sending_chain_key st' \<noteq> None"
    "net s' = (net s)(peer X := insert \<lparr>p_header = h, p_body = c, p_ad = ad, p_plain = p\<rparr> (net s (peer X)))"
proof -
  let ?st = "ends s X"
  have inv: "session_inv P s" and n: "unat (send_message_number (ends s Y)) \<le> k" "unat (previous_chain_length (ends s Y)) \<le> k"
    "\<forall>p \<in> net s Y. unat (p_num p) \<le> k \<and> unat (h_previous_chain_length (p_header p)) \<le> k" for Y
    using s by (auto simp: small_session_def)
  obtain ck pk sk where st: "sending_chain_key ?st = Some ck" "sending_keypair ?st = Some (pk, sk)"
    using chain session_keypair [OF inv] by fastforce
  let ?st' = "?st\<lparr>sending_chain_key := Some (chain_next P ck), send_message_number := send_message_number ?st + 1\<rparr>"
  let ?h = "\<lparr>h_ratchet_public_key = pk, h_previous_chain_length = previous_chain_length ?st,
      h_message_number = send_message_number ?st\<rparr>"
  let ?c = "nonce @ aead_seal P p (Some ad) nonce (chain_msg_key P ck)"
  let ?s' = "s\<lparr>ends := (ends s)(X := ?st'),
      net := (net s)(peer X := insert \<lparr>p_header = ?h, p_body = ?c, p_ad = ad, p_plain = p\<rparr> (net s (peer X)))\<rparr>"
  have e: "encrypt P nonce p ad ?st = (?st', Ok (?h, ?c))"
    by (rule encrypt_eq [OF P st])
  have top: "send_message_number ?st \<noteq> -1"
  proof
    assume "send_message_number ?st = -1"
    then have "unat (send_message_number ?st) = 4294967295"
      by (simp add: unsigned_minus_1_eq_mask mask_eq_exp_minus_1)
    with n(1) [of X] k show False
      by simp
  qed
  have le: "unat (send_message_number ?st + 1) \<le> Suc k"
    using n(1) [of X] unat_succ_below [of "send_message_number ?st" "-1"] top
    by (simp add: word_order.not_eq_extremum)
  have "session_inv P ?s'"
    by (rule send_inv(1) [OF P inv nonce top e])
  then have "small_session P (Suc k) ?s'"
    using n le by (auto simp: small_session_def intro: le_SucI)
  then show ?thesis
    by (rule that [OF e]) simp_all
qed

lemma small_deliver:
  assumes P: "ratchet_prims_ok P" and s: "small_session P k s" and k: "k \<le> 1000" and p: "p \<in> net s X"
    and fresh: "box_keypair P (fst d) (snd d)" "fst d \<notin> drawn_keys s" and may: "may_send (ends s X)"
  obtains s' st' where "decrypt P d (p_header p) (p_body p) (p_ad p) (ends s X) = (st', Ok (p_plain p))"
    "small_session P k s'" "ends s' = (ends s)(X := st')" "net s' = (net s)(X := net s X - {p})"
    "drawn_keys s' = insert (fst d) (drawn_keys s)" "sending_chain_key st' \<noteq> None"
proof -
  have inv: "session_inv P s" and n: "unat (send_message_number (ends s Y)) \<le> k" "unat (previous_chain_length (ends s Y)) \<le> k"
    "\<forall>p \<in> net s Y. unat (p_num p) \<le> k \<and> unat (h_previous_chain_length (p_header p)) \<le> k" for Y
    using s by (auto simp: small_session_def)
  have "gap_ok (ends s X) (p_header p)"
    using n(3) [of X] p k by (force simp: gap_ok_def)
  then have r: "receipt (ends s X) p = Ok (p_plain p)"
    by (simp add: receipt_def)
  obtain st' where d: "decrypt P d (p_header p) (p_body p) (p_ad p) (ends s X) = (st', Ok (p_plain p))"
    and i: "session_inv P (s\<lparr>ends := (ends s)(X := st'), net := (net s)(X := net s X - {p}),
       drawn_keys := insert (fst d) (drawn_keys s)\<rparr>)"
    using deliver_outcome [OF P inv p fresh] r by (metis prod.collapse)
  note side = decrypt_side [OF P in_flight(1) [OF P inv p] d, of "p_plain p"]
  let ?s' = "s\<lparr>ends := (ends s)(X := st'), net := (net s)(X := net s X - {p}),
       drawn_keys := insert (fst d) (drawn_keys s)\<rparr>"
  have "small_session P k ?s'"
    using i n side by (auto simp: small_session_def sending_side_def)
  moreover have "sending_chain_key st' \<noteq> None"
    using side may by (auto simp: may_send_def sending_side_def)
  ultimately show ?thesis
    by (intro that [OF d, of ?s']) simp_all
qed

subsection \<open>They pass\<close>

text \<open>Bob before the first message, and a rule for each operation of the tests in one direction.\<close>

definition waits :: "prims \<Rightarrow> bytes \<Rightarrow> bytes \<Rightarrow> key_draws \<Rightarrow> RatchetState \<Rightarrow> bool" where
  "waits P D pk keys b \<longleftrightarrow> (\<forall>n i c ad. n \<le> 1000 \<longrightarrow> (\<exists>b'. decrypt P (keys i) (first_header pk n) c ad b =
      (b', decrypt_with_key P (msg_key_at P D n) c ad) \<and> gets_at P D pk {0 ..< n} (Suc n) b'))"

lemma pair_rule:
  assumes P: "ratchet_prims_ok P" and d: "draws_ok P keys nonces"
    and k: "\<And>a D. sends_at P D (fst (keys 1)) 0 a \<Longrightarrow> waits P D (fst (keys 1)) keys (init_receiver ss (keys 0)) \<Longrightarrow>
      k a (init_receiver ss (keys 0))"
  shows "ratchet_pair P keys ss k"
proof -
  note prims = ratchet_prims [OF P]
  have kp: "box_keypair P (fst (keys i)) (snd (keys i))" for i
    using d by (simp add: draws_ok_def)
  obtain x where x: "dh_exchange P (snd (keys 1)) (fst (keys 0)) = Ok x" "dh_exchange P (snd (keys 0)) (fst (keys 1)) = Ok x"
    by (rule dh_exchange_agree [OF prims(1,2) kp kp]) blast
  obtain a where a: "init_sender P (keys 1) ss (fst (keys 0)) = Ok a" "sends_at P (root_chain P ss x) (fst (keys 1)) 0 a"
    using init_sender_eq [OF prims(5,3) x(1), of "fst (keys 1)" ss, unfolded prod.collapse]
    by (simp add: sends_at_def) (metis prod.collapse)
  have "waits P (root_chain P ss x) (fst (keys 1)) keys (init_receiver ss (keys 0))"
    using bob_opens_first [OF P kp kp kp x(2), unfolded prod.collapse] by (simp add: waits_def)
  with k a prims(5) show ?thesis
    by (simp add: ratchet_pair_def Let_def)
qed

lemma send_rule:
  assumes "ratchet_prims_ok P" "sends_at P D pk m st"
    "\<And>st'. sends_at P D pk (Suc m) st' \<Longrightarrow> k st' (first_header pk m, first_body P D m nonce p ad)"
  shows "unwrap_st (encrypt P nonce p ad st) k"
  using alice_sends [OF assms(1,2), of nonce p ad] assms(3) by auto

lemma first_body_opens:
  assumes "ratchet_prims_ok P" "length nonce = 24"
  shows "decrypt_with_key P (msg_key_at P D n) (first_body P D n nonce p ad) ad = Ok p"
  using assms by (simp add: first_body_def decrypt_with_key_sealed ratchet_prims length_msg_key_at)

lemma open_first_rule:
  assumes "ratchet_prims_ok P" "length nonce = 24" "waits P D pk keys st" "n \<le> 1000"
    "\<And>st'. gets_at P D pk {0 ..< n} (Suc n) st' \<Longrightarrow> k st' p"
  shows "unwrap_st (decrypt P (keys i) (first_header pk n) (first_body P D n nonce p ad) ad st) k"
  using assms(3-5) unfolding waits_def by (metis first_body_opens [OF assms(1,2)] test_simps(9))

lemma open_next_rule:
  assumes "ratchet_prims_ok P" "length pk = 32" "length nonce = 24" "gets_at P D pk L r st" "r \<le> n" "n \<le> 1000"
    "\<And>st'. gets_at P D pk (L \<union> {r ..< n}) (Suc n) st' \<Longrightarrow> k st' p"
  shows "unwrap_st (decrypt P drawn (first_header pk n) (first_body P D n nonce p ad) ad st) k"
  using bob_opens_next [OF assms(1,2,4-6)] assms(7) by (metis first_body_opens [OF assms(1,3)] test_simps(9))

lemma open_cached_rule:
  assumes "ratchet_prims_ok P" "length nonce = 24" "gets_at P D pk L r st" "n \<in> L"
    "\<And>st'. gets_at P D pk (L - {n}) r st' \<Longrightarrow> k st' p"
  shows "unwrap_st (decrypt P drawn (first_header pk n) (first_body P D n nonce p ad) ad st) k"
  using bob_opens_cached [OF assms(3,4)] assms(5) by (metis first_body_opens [OF assms(1,2)] test_simps(9))

lemma in_order_rounds_pass:
  assumes P: "ratchet_prims_ok P" and pk: "length pk = 32" and nonces: "\<And>i. length (nonces i) = 24"
  shows "sends_at P D pk m a \<Longrightarrow> gets_at P D pk {} m b \<Longrightarrow> m + k \<le> 1000 \<Longrightarrow>
    in_order_rounds P keys nonces ad [m ..< m + k] a b"
proof (induction k arbitrary: m a b)
  case (Suc k)
  have split: "[m ..< m + Suc k] = m # [Suc m ..< Suc m + k]"
    by (simp add: upt_conv_Cons)
  show ?case
    unfolding split in_order_rounds.simps Let_def
  proof (rule send_rule [OF P Suc.prems(1)], unfold prod.case, rule open_next_rule [OF P pk nonces Suc.prems(2)])
    fix a' b'
    assume a': "sends_at P D pk (Suc m) a'" and "gets_at P D pk ({} \<union> {m ..< m}) (Suc m) b'"
    then have b': "gets_at P D pk {} (Suc m) b'"
      by simp
    with Suc.IH [OF a' b'] Suc.prems(3) cache_size [OF b'] show "as_bytes (''message '' @ show_nat m) = as_bytes (''message '' @ show_nat m) \<and>
      card (dom (skipped_keys b')) = 0 \<and> in_order_rounds P keys nonces ad [Suc m ..< Suc m + k] a' b'"
      by simp
  qed (use Suc.prems(3) in simp_all)
qed simp

lemma ten_rounds: "[0 ..< 10] = 0 # [1 ..< 1 + 9]"
  by (simp add: upt_rec)

theorem one_way_tests_pass:
  assumes P: "ratchet_prims_ok P" and d: "draws_ok P keys nonces"
  shows "test_ratchet_encrypt_decrypt P keys nonces" "test_out_of_order_same_chain P keys nonces"
    "test_out_of_order_skip_first_message P keys nonces" "test_skipped_key_consumed_once P keys nonces"
    "test_in_order_still_works P keys nonces"
proof -
  let ?pk = "fst (keys 1)"
  have nonce: "length (nonces i) = 24" and len: "length ?pk = 32" for i
    using d keypair_lengths(1) [OF ratchet_prims(2) [OF P]] by (auto simp: draws_ok_def)
  note start = pair_rule [OF P d] and send = send_rule [OF P] and open_first = open_first_rule [OF P nonce]
    and open_cached = open_cached_rule [OF P nonce] and refused = bob_refuses_consumed [OF P len]
  show "test_ratchet_encrypt_decrypt P keys nonces"
    unfolding test_ratchet_encrypt_decrypt_def Let_def
    by (rule start, rule send, assumption, unfold prod.case, rule open_first, assumption) simp_all
  show "test_out_of_order_skip_first_message P keys nonces"
    unfolding test_out_of_order_skip_first_message_def Let_def
    by (rule start, (rule send, assumption, unfold prod.case)+, rule open_first, assumption, simp, rule conjI [OF refl],
        rule open_cached, assumption) simp_all
  show "test_out_of_order_same_chain P keys nonces"
    unfolding test_out_of_order_same_chain_def Let_def
    by (rule start, (rule send, assumption, unfold prod.case)+, rule open_first, assumption, simp, rule conjI [OF refl],
        rule conjI, simp add: cache_size, rule open_cached, assumption, simp, rule conjI [OF refl],
        rule conjI, simp add: cache_size, rule open_cached, assumption, simp, rule conjI [OF refl]) (simp add: cache_size)
  show "test_skipped_key_consumed_once P keys nonces"
    unfolding test_skipped_key_consumed_once_def Let_def
    by (rule start, (rule send, assumption, unfold prod.case)+, rule open_first, assumption, simp, rule conjI [OF refl],
        rule open_cached, assumption, simp, rule conjI [OF refl], subst refused, assumption) simp_all
  show "test_in_order_still_works P keys nonces"
    unfolding test_in_order_still_works_def Let_def ten_rounds in_order_rounds.simps
    by (rule start, rule send, assumption, unfold prod.case, rule open_first, assumption, simp, rule conjI [OF refl],
        rule conjI, simp add: cache_size, rule in_order_rounds_pass [OF P len nonce]) simp_all
qed

lemma fresh_keys: "draws_ok P keys nonces \<Longrightarrow> i < 12 \<Longrightarrow> j < 12 \<Longrightarrow> fst (keys i) = fst (keys j) \<longleftrightarrow> i = j"
  unfolding draws_ok_def by (auto dest: inj_onD)

text \<open>The two ends of such a session, seen from either side.\<close>

definition talk :: "prims \<Rightarrow> nat \<Rightarrow> bytes set \<Rightarrow> RatchetState \<Rightarrow> RatchetState \<Rightarrow> packet set \<Rightarrow> packet set \<Rightarrow> bool" where
  "talk P k U a b A B \<longleftrightarrow> ratchet_wf P a \<and> ratchet_wf P b \<and> (\<exists>s X. small_session P k s \<and> ends s X = a \<and> ends s (peer X) = b \<and>
     net s X = A \<and> net s (peer X) = B \<and> drawn_keys s = U)"

lemma talk_swap: "talk P k U a b A B \<Longrightarrow> talk P k U b a B A"
  unfolding talk_def by (metis peer_simps(1))

lemma talk_start:
  assumes P: "ratchet_prims_ok P" and d: "draws_ok P keys nonces" and ss: "length ss = 32"
    and k: "\<And>a. talk P 0 {fst (keys 1), fst (keys 0)} a (init_receiver ss (keys 0)) {} {} \<Longrightarrow>
      sending_chain_key a \<noteq> None \<Longrightarrow> may_send (init_receiver ss (keys 0)) \<Longrightarrow> k a (init_receiver ss (keys 0))"
  shows "ratchet_pair P keys ss k"
proof -
  note prims = ratchet_prims [OF P]
  have kp: "box_keypair P (fst (keys i)) (snd (keys i))" for i
    using d by (simp add: draws_ok_def)
  obtain x where x: "dh_exchange P (snd (keys 1)) (fst (keys 0)) = Ok x"
    by (rule dh_exchange_agree [OF prims(1,2) kp kp])
  obtain a where a: "init_sender P (keys 1) ss (fst (keys 0)) = Ok a" "send_message_number a = 0" "previous_chain_length a = 0"
      "sending_chain_key a \<noteq> None"
    using init_sender_eq [OF prims(5,3) x, of "fst (keys 1)" ss, unfolded prod.collapse] by simp
  define s where "s = \<lparr>ends = case_party a (init_receiver ss (keys 0)), net = (\<lambda>_. {}),
    drawn_keys = {fst (keys 1), fst (keys 0)}\<rparr>"
  have "session_start P ss (keys 1) (keys 0) s"
    using a(1) kp fresh_keys [OF d, of 1 0] by (simp add: session_start_def s_def)
  then have "session_inv P s"
    by (rule session_start_inv [OF P])
  then have "small_session P 0 s"
    using a by (simp add: small_session_def s_def init_receiver_def split: party.split)
  moreover have "ratchet_wf P a" "ratchet_wf P (init_receiver ss (keys 0))"
    using init_wf [OF P ss kp, unfolded prod.collapse] a(1) keypair_lengths(1) [OF prims(2) kp] by blast+
  ultimately have "talk P 0 {fst (keys 1), fst (keys 0)} a (init_receiver ss (keys 0)) {} {}"
    unfolding talk_def by (intro conjI exI [of _ s] exI [of _ Alice]) (simp_all add: s_def)
  with k [OF this a(4)] a(1) prims(5) show ?thesis
    by (simp add: ratchet_pair_def Let_def may_send_def init_receiver_def)
qed

lemma talk_send:
  assumes P: "ratchet_prims_ok P" and nonce: "length nonce = 24" and t: "talk P n U a b A B"
    and a: "sending_chain_key a \<noteq> None" and n: "n < 1000"
    and k: "\<And>a' h c. talk P (Suc n) U a' b A (insert \<lparr>p_header = h, p_body = c, p_ad = ad, p_plain = p\<rparr> B) \<Longrightarrow>
      sending_chain_key a' \<noteq> None \<Longrightarrow> k a' (h, c)"
  shows "unwrap_st (encrypt P nonce p ad a) k"
proof -
  obtain s X where s: "small_session P n s" "ends s X = a" "ends s (peer X) = b" "net s X = A" "net s (peer X) = B"
      "drawn_keys s = U"
    using t by (auto simp: talk_def)
  have chain: "sending_chain_key (ends s X) \<noteq> None"
    unfolding s(2) by (rule a)
  obtain s' a' h c where e: "encrypt P nonce p ad (ends s X) = (a', Ok (h, c))" "small_session P (Suc n) s'"
    "ends s' = (ends s)(X := a')" "drawn_keys s' = drawn_keys s" "sending_chain_key a' \<noteq> None"
    "net s' = (net s)(peer X := insert \<lparr>p_header = h, p_body = c, p_ad = ad, p_plain = p\<rparr> (net s (peer X)))"
    by (rule small_send [OF P s(1) n nonce chain])
  have "ratchet_wf P a'" "ratchet_wf P b"
    using encrypt_wf [OF P _ e(1)] t s(2) by (simp_all add: talk_def)
  then have "talk P (Suc n) U a' b A (insert \<lparr>p_header = h, p_body = c, p_ad = ad, p_plain = p\<rparr> B)"
    unfolding talk_def by (intro conjI exI [of _ s'] exI [of _ X]) (simp_all add: e s)
  with k e(1,5) s(2) show ?thesis
    by simp
qed

lemma talk_open:
  assumes P: "ratchet_prims_ok P" and d: "draws_ok P keys nonces" and t: "talk P n U a b A B"
    and p: "\<lparr>p_header = h, p_body = c, p_ad = ad, p_plain = p\<rparr> \<in> A"
    and fresh: "fst (keys i) \<notin> U" and a: "may_send a" and n: "n < 1000"
    and k: "\<And>a'. talk P n (insert (fst (keys i)) U) a' b
      (A - {\<lparr>p_header = h, p_body = c, p_ad = ad, p_plain = p\<rparr>}) B \<Longrightarrow> sending_chain_key a' \<noteq> None \<Longrightarrow> k a' p"
  shows "unwrap_st (decrypt P (keys i) h c ad a) k"
proof -
  let ?p = "\<lparr>p_header = h, p_body = c, p_ad = ad, p_plain = p\<rparr>"
  obtain s X where s: "small_session P n s" "ends s X = a" "ends s (peer X) = b" "net s X = A" "net s (peer X) = B"
      "drawn_keys s = U"
    using t by (auto simp: talk_def)
  have kp: "box_keypair P (fst (keys i)) (snd (keys i))"
    using d by (simp add: draws_ok_def)
  have "n \<le> 1000" "?p \<in> net s X" "fst (keys i) \<notin> drawn_keys s" "may_send (ends s X)"
    using n p fresh a s by simp_all
  note deliver = small_deliver [OF P s(1) this(1,2) kp this(3,4)]
  obtain s' a' where e: "decrypt P (keys i) (p_header ?p) (p_body ?p) (p_ad ?p) (ends s X) = (a', Ok (p_plain ?p))" "small_session P n s'"
    "ends s' = (ends s)(X := a')" "net s' = (net s)(X := net s X - {?p})"
    "drawn_keys s' = insert (fst (keys i)) (drawn_keys s)" "sending_chain_key a' \<noteq> None"
    by (rule deliver)
  have "length (h_ratchet_public_key h) = 32"
    using in_flight(1) [OF P _ \<open>?p \<in> net s X\<close>] s(1) by (simp add: small_session_def)
  then have "ratchet_wf P a'" "ratchet_wf P b"
    using decrypt_safe(1) [OF P _ _ kp, unfolded prod.collapse, OF _ _ e(1)] t s(2) by (simp_all add: talk_def)
  then have "talk P n (insert (fst (keys i)) U) a' b (A - {?p}) B"
    unfolding talk_def by (intro conjI exI [of _ s'] exI [of _ X]) (simp_all add: e s)
  with k e(1,6) s(2) show ?thesis
    by simp
qed

lemma may_sendI: "sending_chain_key st \<noteq> None \<Longrightarrow> may_send st"
  by (simp add: may_send_def)

theorem two_way_tests_pass:
  assumes P: "ratchet_prims_ok P" and d: "draws_ok P keys nonces"
  shows "test_ratchet_bidirectional P keys nonces" "test_out_of_order_across_ratchet_steps P keys nonces"
proof -
  have nonce: "length (nonces i) = 24" for i
    using d by (auto simp: draws_ok_def)
  note start = talk_start [OF P d] and send = talk_send [OF P nonce] and open_msg = talk_open [OF P d]
    and fresh [simp] = fresh_keys [OF d] and may [simp] = may_sendI
  show "test_ratchet_bidirectional P keys nonces"
    unfolding test_ratchet_bidirectional_def Let_def
    apply (rule start, simp, rule send, assumption, assumption, simp, unfold prod.case)
    apply (rule open_msg, erule talk_swap, rule insertI1, simp, simp, simp, rule conjI [OF refl])
    apply (rule send, assumption, assumption, simp, unfold prod.case)
    apply (rule open_msg, erule talk_swap, rule insertI1, simp, simp, simp, rule conjI [OF refl])
    apply (rule send, assumption, assumption, simp, unfold prod.case)
    apply (rule open_msg, erule talk_swap, rule insertI1, simp, simp, simp, rule refl)
    done
  show "test_out_of_order_across_ratchet_steps P keys nonces"
    unfolding test_out_of_order_across_ratchet_steps_def Let_def
    apply (rule start, simp, rule send, assumption, assumption, simp, unfold prod.case)
    apply (rule send, assumption, assumption, simp, unfold prod.case)
    apply (rule open_msg, erule talk_swap, rule insertI2, rule insertI1, simp, simp, simp, rule conjI [OF refl])
    apply (rule send, assumption, assumption, simp, unfold prod.case)
    apply (rule open_msg, erule talk_swap, rule insertI1, simp, simp, simp, rule conjI [OF refl])
    apply (rule send, assumption, assumption, simp, unfold prod.case)
    apply (rule open_msg, erule talk_swap, rule insertI1, simp, simp, simp, rule conjI [OF refl])
    apply (rule open_msg [where p = "as_bytes ''old chain 1''"], assumption, simp, simp, simp, simp, rule refl)
    done
qed

theorem payload_ratchet_tests_pass:
  assumes P: "ratchet_prims_ok P" and d: "draws_ok P keys nonces"
    and ser: "\<forall>x. \<exists>b. ser x = Inr b" "\<forall>x b. ser x = Inr b \<longrightarrow> de b = Inr x"
  shows "test_payload_encrypt_decrypt_with_ratchet P ser de keys nonces"
    "test_payload_no_ttl_encrypt_decrypt_with_ratchet P ser de keys nonces"
    "test_padded_encrypt_decrypt_with_ratchet P ser de rnd keys nonces"
proof -
  have nonce: "length (nonces i) = 24" for i
    using d by (auto simp: draws_ok_def)
  note start = pair_rule [OF P d] and send = send_rule [OF P] and open_first = open_first_rule [OF P nonce]
  have plain: "\<exists>b. mp_to_bytes ser p = Ok b \<and> mp_from_bytes de b = Ok p" for p
    using ser by (metis mp_to_bytes_def mp_from_bytes_def map_err_simps)
  let ?t = "mp_with_ttl ''vanishing message'' 5" and ?n = "mp_new ''permanent message''"
    and ?p = "mp_with_ttl ''padded vanishing message'' 10"
  obtain bt bn where b: "mp_to_bytes ser ?t = Ok bt" "mp_from_bytes de bt = Ok ?t"
      "mp_to_bytes ser ?n = Ok bn" "mp_from_bytes de bn = Ok ?n"
    using plain [of ?t] plain [of ?n] by blast
  obtain j where j: "ser (on_wire ?p) = Inr j"
    using ser(1) by blast
  have c: "to_padded_bytes rnd ser ?p = Ok (j @ padding_of rnd (length j))"
    using j by (simp add: to_padded_bytes_def on_wire_def pad_message_eq Let_def split: if_splits)
  have "group_ok ?p"
    by (simp add: group_ok_def mp_with_ttl_def)
  from padded_payload_opens [OF ser(2) this c]
  have o: "from_padded_bytes de (j @ padding_of rnd (length j)) = Ok ?p"
    by simp
  show "test_payload_encrypt_decrypt_with_ratchet P ser de keys nonces"
    unfolding test_payload_encrypt_decrypt_with_ratchet_def Let_def b(1) test_simps
    by (rule start, rule send, assumption, unfold prod.case, rule open_first, assumption)
      (simp_all add: b mp_with_ttl_def)
  show "test_payload_no_ttl_encrypt_decrypt_with_ratchet P ser de keys nonces"
    unfolding test_payload_no_ttl_encrypt_decrypt_with_ratchet_def Let_def b(3) test_simps
    by (rule start, rule send, assumption, unfold prod.case, rule open_first, assumption)
      (simp_all add: b mp_new_def)
  show "test_padded_encrypt_decrypt_with_ratchet P ser de rnd keys nonces"
    unfolding test_padded_encrypt_decrypt_with_ratchet_def Let_def c test_simps
    by (rule start, rule send, assumption, unfold prod.case, rule open_first, assumption)
      (simp_all add: o mp_with_ttl_def)
qed

text \<open>The draws that the theorems speak of exist.\<close>

definition demo_keys :: key_draws where
  "demo_keys i = demo_pair (word_of_nat (i mod 256))"

lemma demo_draws_ok: "draws_ok demo_prims demo_keys (\<lambda>_. replicate 24 0)"
proof -
  have "inj_on (\<lambda>i. fst (demo_keys i)) {..< 12}"
    by (auto intro!: inj_onI simp: demo_keys_def demo_pair_def word_of_nat_eq_iff take_bit_nat_eq_self)
  then show ?thesis
    by (simp add: draws_ok_def demo_keys_def demo_pair_ok)
qed

theorem ratchet_tests_run:
  "test_ratchet_bidirectional demo_prims demo_keys (\<lambda>_. replicate 24 0)"
  "test_out_of_order_same_chain demo_prims demo_keys (\<lambda>_. replicate 24 0)"
  by (rule two_way_tests_pass [OF demo_ratchet_prims demo_draws_ok] one_way_tests_pass [OF demo_ratchet_prims demo_draws_ok])+

end
