(* ===== verification/Tests_Rejections.thy ===== *)
theory Tests_Rejections
  imports Tests_Ciphers Tests_Keys Tests_App Tests_Ratchet
begin

section \<open>Unit tests of rejections and of differing draws\<close>

text \<open>
  The unit tests that no functional law of the packages decides: that a wrong key, a changed
  byte or another identity is refused, that two draws or two signatures differ.  Each is
  translated like the others, and the theorem says what the outcome comes down to: the test
  passes exactly when one call of the packages does not forge, or two draws are not equal.
\<close>

subsection \<open>Authenticated encryption\<close>

definition test_decrypt_fails_with_wrong_key :: "prims \<Rightarrow> bytes \<Rightarrow> bool" where
  "test_decrypt_fails_with_wrong_key P nonce =
     (let key = replicate 32 0x42; wrong_key = replicate 32 0x43; plaintext = as_bytes ''hello'' in
      unwrap_then (aes_encrypt P nonce key plaintext None) (\<lambda>(nonce, ciphertext).
      let result = aes_decrypt P wrong_key nonce ciphertext None in is_err result))"

definition test_decrypt_fails_with_wrong_ad :: "prims \<Rightarrow> bytes \<Rightarrow> bool" where
  "test_decrypt_fails_with_wrong_ad P nonce =
     (let key = replicate 32 0x42; plaintext = as_bytes ''hello'' in
      unwrap_then (aes_encrypt P nonce key plaintext (Some (as_bytes ''correct ad''))) (\<lambda>(nonce, ciphertext).
      let result = aes_decrypt P key nonce ciphertext (Some (as_bytes ''wrong ad'')) in is_err result))"

definition test_decrypt_fails_with_tampered_ciphertext :: "prims \<Rightarrow> bytes \<Rightarrow> bool" where
  "test_decrypt_fails_with_tampered_ciphertext P nonce =
     (let key = replicate 32 0x42; plaintext = as_bytes ''hello'' in
      unwrap_then (aes_encrypt P nonce key plaintext None) (\<lambda>(nonce, ciphertext).
      let ciphertext = ciphertext[0 := xor (ciphertext ! 0) 0xFF];
          result = aes_decrypt P key nonce ciphertext None in is_err result))"

theorem aead_rejections:
  assumes "slices_ok P" "sodium_init P" "length nonce = 24"
  shows "test_decrypt_fails_with_wrong_key P nonce \<longleftrightarrow>
      aead_open P (aead_seal P (as_bytes ''hello'') None nonce (replicate 32 0x42)) None nonce (replicate 32 0x43) = None"
    and "test_decrypt_fails_with_wrong_ad P nonce \<longleftrightarrow>
      aead_open P (aead_seal P (as_bytes ''hello'') (Some (as_bytes ''correct ad'')) nonce (replicate 32 0x42))
        (Some (as_bytes ''wrong ad'')) nonce (replicate 32 0x42) = None"
    and "test_decrypt_fails_with_tampered_ciphertext P nonce \<longleftrightarrow>
      (let c = aead_seal P (as_bytes ''hello'') None nonce (replicate 32 0x42) in
       aead_open P (c[0 := xor (c ! 0) 0xFF]) None nonce (replicate 32 0x42) = None)"
proof -
  have 1: "unwrap_then (aes_encrypt P nonce (replicate 32 b) p ad) k \<longleftrightarrow> k (nonce, aead_seal P p ad nonce (replicate 32 b))"
    for b p ad k
    using aes_encrypt_eq [OF assms(1,2), of "replicate 32 b" nonce p ad] by simp
  have 2: "is_err (aes_decrypt P (replicate 32 b) nonce c ad) \<longleftrightarrow> aead_open P c ad nonce (replicate 32 b) = None" for b c ad
    using aes_decrypt_eq [OF assms(1), of "replicate 32 b" nonce c ad] assms(3) by (cases "aead_open P c ad nonce (replicate 32 b)") simp_all
  show "test_decrypt_fails_with_wrong_key P nonce \<longleftrightarrow>
      aead_open P (aead_seal P (as_bytes ''hello'') None nonce (replicate 32 0x42)) None nonce (replicate 32 0x43) = None"
    unfolding test_decrypt_fails_with_wrong_key_def Let_def 1 prod.case 2 ..
  show "test_decrypt_fails_with_wrong_ad P nonce \<longleftrightarrow>
      aead_open P (aead_seal P (as_bytes ''hello'') (Some (as_bytes ''correct ad'')) nonce (replicate 32 0x42))
        (Some (as_bytes ''wrong ad'')) nonce (replicate 32 0x42) = None"
    unfolding test_decrypt_fails_with_wrong_ad_def Let_def 1 prod.case 2 ..
  show "test_decrypt_fails_with_tampered_ciphertext P nonce \<longleftrightarrow>
      (let c = aead_seal P (as_bytes ''hello'') None nonce (replicate 32 0x42) in
       aead_open P (c[0 := xor (c ! 0) 0xFF]) None nonce (replicate 32 0x42) = None)"
    unfolding test_decrypt_fails_with_tampered_ciphertext_def Let_def 1 prod.case 2 ..
qed

subsection \<open>Signed requests\<close>

definition test_different_bodies_produce_different_signatures :: "prims \<Rightarrow> bytes \<times> bytes \<Rightarrow> bool" where
  "test_different_bodies_produce_different_signatures P drawn =
     unwrap_then (ik_generate P drawn) (\<lambda>ident.
     let account_id = ''550e8400-e29b-41d4-a716-446655440000''; timestamp = 1700000000;
         header1 = sign_request_with_timestamp P ident account_id ''POST'' ''/api/v1/messages/send'' (as_bytes ''body one'') timestamp;
         header2 = sign_request_with_timestamp P ident account_id ''POST'' ''/api/v1/messages/send'' (as_bytes ''body two'') timestamp in
     ah_signature_hex header1 \<noteq> ah_signature_hex header2)"

definition test_different_methods_produce_different_signatures :: "prims \<Rightarrow> bytes \<times> bytes \<Rightarrow> bool" where
  "test_different_methods_produce_different_signatures P drawn =
     unwrap_then (ik_generate P drawn) (\<lambda>ident.
     let account_id = ''test-account''; timestamp = 1700000000;
         header1 = sign_request_with_timestamp P ident account_id ''GET'' ''/api/v1/keys/prekey_count'' [] timestamp;
         header2 = sign_request_with_timestamp P ident account_id ''POST'' ''/api/v1/keys/prekey_count'' [] timestamp in
     ah_signature_hex header1 \<noteq> ah_signature_hex header2)"

definition test_different_paths_produce_different_signatures :: "prims \<Rightarrow> bytes \<times> bytes \<Rightarrow> bool" where
  "test_different_paths_produce_different_signatures P drawn =
     unwrap_then (ik_generate P drawn) (\<lambda>ident.
     let account_id = ''test-account''; timestamp = 1700000000;
         header1 = sign_request_with_timestamp P ident account_id ''GET'' ''/api/v1/path/a'' [] timestamp;
         header2 = sign_request_with_timestamp P ident account_id ''GET'' ''/api/v1/path/b'' [] timestamp in
     ah_signature_hex header1 \<noteq> ah_signature_hex header2)"

definition test_different_timestamps_produce_different_signatures :: "prims \<Rightarrow> bytes \<times> bytes \<Rightarrow> bool" where
  "test_different_timestamps_produce_different_signatures P drawn =
     unwrap_then (ik_generate P drawn) (\<lambda>ident.
     let account_id = ''test-account'';
         header1 = sign_request_with_timestamp P ident account_id ''GET'' ''/api/v1/test'' [] 1700000000;
         header2 = sign_request_with_timestamp P ident account_id ''GET'' ''/api/v1/test'' [] 1700000001 in
     ah_signature_hex header1 \<noteq> ah_signature_hex header2)"

text \<open>
  Two signatures under one key on two canonical messages.  The messages differ; the test asks
  that the signatures do.
\<close>

definition signatures_differ :: "prims \<Rightarrow> bytes \<Rightarrow> bytes \<Rightarrow> bytes \<Rightarrow> bool" where
  "signatures_differ P sk m m' \<longleftrightarrow> sign_detached P m sk \<noteq> sign_detached P m' sk"

theorem signature_differences:
  assumes "hex_ok P" "sodium_init P"
  shows "test_different_bodies_produce_different_signatures P (pk, sk) \<longleftrightarrow> signatures_differ P sk
      (build_signed_message P ''POST'' ''/api/v1/messages/send'' 1700000000 (as_bytes ''body one''))
      (build_signed_message P ''POST'' ''/api/v1/messages/send'' 1700000000 (as_bytes ''body two''))"
    and "test_different_methods_produce_different_signatures P (pk, sk) \<longleftrightarrow> signatures_differ P sk
      (build_signed_message P ''GET'' ''/api/v1/keys/prekey_count'' 1700000000 [])
      (build_signed_message P ''POST'' ''/api/v1/keys/prekey_count'' 1700000000 [])"
    and "test_different_paths_produce_different_signatures P (pk, sk) \<longleftrightarrow> signatures_differ P sk
      (build_signed_message P ''GET'' ''/api/v1/path/a'' 1700000000 [])
      (build_signed_message P ''GET'' ''/api/v1/path/b'' 1700000000 [])"
    and "test_different_timestamps_produce_different_signatures P (pk, sk) \<longleftrightarrow> signatures_differ P sk
      (build_signed_message P ''GET'' ''/api/v1/test'' 1700000000 [])
      (build_signed_message P ''GET'' ''/api/v1/test'' 1700000001 [])"
proof -
  have gen: "unwrap_then (ik_generate P (pk, sk)) k \<longleftrightarrow> k \<lparr>ik_public_key = pk, ik_secret_key = sk\<rparr>" for k
    by (simp add: ik_generate_def assms(2))
  have inj: "hex_encode P a = hex_encode P b \<longleftrightarrow> a = b" for a b
    using hex_laws(1) [OF assms(1)] by (metis option.inject)
  have sig: "ah_signature_hex (sign_request_with_timestamp P \<lparr>ik_public_key = pk, ik_secret_key = sk\<rparr> i v p b t) =
      hex_encode P (sign_detached P (build_signed_message P v p t b) sk)" for i v p b t
    by (simp add: sign_request_with_timestamp_def ik_sign_def Let_def)
  note defs = Let_def gen sig inj signatures_differ_def
  show "test_different_bodies_produce_different_signatures P (pk, sk) \<longleftrightarrow> signatures_differ P sk
      (build_signed_message P ''POST'' ''/api/v1/messages/send'' 1700000000 (as_bytes ''body one''))
      (build_signed_message P ''POST'' ''/api/v1/messages/send'' 1700000000 (as_bytes ''body two''))"
    unfolding test_different_bodies_produce_different_signatures_def defs ..
  show "test_different_methods_produce_different_signatures P (pk, sk) \<longleftrightarrow> signatures_differ P sk
      (build_signed_message P ''GET'' ''/api/v1/keys/prekey_count'' 1700000000 [])
      (build_signed_message P ''POST'' ''/api/v1/keys/prekey_count'' 1700000000 [])"
    unfolding test_different_methods_produce_different_signatures_def defs ..
  show "test_different_paths_produce_different_signatures P (pk, sk) \<longleftrightarrow> signatures_differ P sk
      (build_signed_message P ''GET'' ''/api/v1/path/a'' 1700000000 [])
      (build_signed_message P ''GET'' ''/api/v1/path/b'' 1700000000 [])"
    unfolding test_different_paths_produce_different_signatures_def defs ..
  show "test_different_timestamps_produce_different_signatures P (pk, sk) \<longleftrightarrow> signatures_differ P sk
      (build_signed_message P ''GET'' ''/api/v1/test'' 1700000000 [])
      (build_signed_message P ''GET'' ''/api/v1/test'' 1700000001 [])"
    unfolding test_different_timestamps_produce_different_signatures_def defs ..
qed

theorem signed_messages_of_tests_differ:
  assumes "hex_ok P"
  shows "sha256 P (as_bytes ''body one'') \<noteq> sha256 P (as_bytes ''body two'') \<Longrightarrow>
      build_signed_message P ''POST'' ''/api/v1/messages/send'' 1700000000 (as_bytes ''body one'') \<noteq>
      build_signed_message P ''POST'' ''/api/v1/messages/send'' 1700000000 (as_bytes ''body two'')"
    and "build_signed_message P ''GET'' ''/api/v1/keys/prekey_count'' 1700000000 [] \<noteq>
      build_signed_message P ''POST'' ''/api/v1/keys/prekey_count'' 1700000000 []"
    and "build_signed_message P ''GET'' ''/api/v1/path/a'' 1700000000 [] \<noteq>
      build_signed_message P ''GET'' ''/api/v1/path/b'' 1700000000 []"
    and "build_signed_message P ''GET'' ''/api/v1/test'' 1700000000 [] \<noteq>
      build_signed_message P ''GET'' ''/api/v1/test'' 1700000001 []"
proof -
  note parts = canonical_parts [OF assms]
  have verbs: "CHR '':'' \<notin> set ''GET''" "CHR '':'' \<notin> set ''POST''"
    by simp_all
  show "build_signed_message P ''POST'' ''/api/v1/messages/send'' 1700000000 (as_bytes ''body one'') \<noteq>
      build_signed_message P ''POST'' ''/api/v1/messages/send'' 1700000000 (as_bytes ''body two'')"
    if "sha256 P (as_bytes ''body one'') \<noteq> sha256 P (as_bytes ''body two'')"
    using parts [OF verbs(2,2)] that by blast
  have neq: "''GET'' \<noteq> ''POST''" "''/api/v1/path/a'' \<noteq> ''/api/v1/path/b''" "(1700000000 :: u64) \<noteq> 1700000001"
    by simp_all
  show "build_signed_message P ''GET'' ''/api/v1/keys/prekey_count'' 1700000000 [] \<noteq>
      build_signed_message P ''POST'' ''/api/v1/keys/prekey_count'' 1700000000 []"
    using parts [OF verbs] neq(1) by blast
  show "build_signed_message P ''GET'' ''/api/v1/path/a'' 1700000000 [] \<noteq>
      build_signed_message P ''GET'' ''/api/v1/path/b'' 1700000000 []"
    using parts [OF verbs(1,1)] neq(2) by blast
  show "build_signed_message P ''GET'' ''/api/v1/test'' 1700000000 [] \<noteq>
      build_signed_message P ''GET'' ''/api/v1/test'' 1700000001 []"
    using parts [OF verbs(1,1)] neq(3) by blast
qed

subsection \<open>Identities and prekeys\<close>

definition test_verify_rejects_wrong_message :: "prims \<Rightarrow> bytes \<times> bytes \<Rightarrow> bool" where
  "test_verify_rejects_wrong_message P drawn =
     unwrap_then (ik_generate P drawn) (\<lambda>ident.
     let signature = ik_sign P ident (as_bytes ''correct message'') in
     \<not> ik_verify P (ik_public_key ident) (as_bytes ''wrong message'') signature)"

definition test_verify_rejects_wrong_key :: "prims \<Rightarrow> bytes \<times> bytes \<Rightarrow> bytes \<times> bytes \<Rightarrow> bool" where
  "test_verify_rejects_wrong_key P drawn_a drawn_b =
     unwrap_then (ik_generate P drawn_a) (\<lambda>alice.
     unwrap_then (ik_generate P drawn_b) (\<lambda>bob.
     let message = as_bytes ''hello''; signature = ik_sign P alice message in
     \<not> ik_verify P (ik_public_key bob) message signature))"

definition test_signed_prekey_rejects_wrong_identity :: "prims \<Rightarrow> bytes \<times> bytes \<Rightarrow> bytes \<times> bytes \<Rightarrow> bytes \<times> bytes \<Rightarrow> bool" where
  "test_signed_prekey_rejects_wrong_identity P drawn_id drawn_other drawn =
     unwrap_then (ik_generate P drawn_id) (\<lambda>ident.
     unwrap_then (ik_generate P drawn_other) (\<lambda>other.
     unwrap_then (spk_generate P drawn ident 1) (\<lambda>spk.
       \<not> spk_verify P spk (ik_public_key other))))"

definition test_rotation_generates_different_key :: "prims \<Rightarrow> bytes \<times> bytes \<Rightarrow> bytes \<times> bytes \<Rightarrow> bytes \<times> bytes \<Rightarrow> bool" where
  "test_rotation_generates_different_key P drawn_id drawn1 drawn2 =
     unwrap_then (ik_generate P drawn_id) (\<lambda>ident.
     unwrap_then (spk_generate P drawn1 ident 1) (\<lambda>spk1.
     unwrap_then (spk_generate P drawn2 ident 2) (\<lambda>spk2.
       spk_prekey_id spk1 \<noteq> spk_prekey_id spk2 \<and> spk_public_key spk1 \<noteq> spk_public_key spk2 \<and>
       spk_verify P spk1 (ik_public_key ident) \<and> spk_verify P spk2 (ik_public_key ident))))"

definition test_x3dh_rejects_bad_signature :: "prims \<Rightarrow> bytes \<times> bytes \<Rightarrow> bytes \<times> bytes \<Rightarrow> bytes \<times> bytes \<Rightarrow> bytes \<times> bytes \<Rightarrow> bytes \<times> bytes \<Rightarrow> bool" where
  "test_x3dh_rejects_bad_signature P drawn_a drawn_b drawn_m spk_pair ephemeral =
     unwrap_then (ik_generate P drawn_a) (\<lambda>alice.
     unwrap_then (ik_generate P drawn_b) (\<lambda>bob.
     unwrap_then (ik_generate P drawn_m) (\<lambda>mallory.
     (case spk_pair of (spk_pk, _) \<Rightarrow>
      let bad_sig = ik_sign P mallory spk_pk;
          bundle = \<lparr>rb_identity_key = ik_public_key bob, rb_signed_prekey = spk_pk,
                    rb_signed_prekey_signature = bad_sig, rb_one_time_prekey = None\<rparr> in
      is_err (initiate_x3dh P ephemeral alice bundle)))))"

definition test_different_keys_produce_different_safety_numbers ::
    "prims \<Rightarrow> bytes \<times> bytes \<Rightarrow> bytes \<times> bytes \<Rightarrow> bytes \<times> bytes \<Rightarrow> bool" where
  "test_different_keys_produce_different_safety_numbers P drawn_a drawn_b drawn_c =
     unwrap_then (ik_generate P drawn_a) (\<lambda>alice.
     unwrap_then (ik_generate P drawn_b) (\<lambda>bob.
     unwrap_then (ik_generate P drawn_c) (\<lambda>carol.
     let sn_ab = generate_safety_number P (ik_public_key alice) (ik_public_key bob);
         sn_ac = generate_safety_number P (ik_public_key alice) (ik_public_key carol);
         sn_bc = generate_safety_number P (ik_public_key bob) (ik_public_key carol) in
     sn_ab \<noteq> sn_ac \<and> sn_ab \<noteq> sn_bc \<and> sn_ac \<noteq> sn_bc)))"

theorem identity_rejections:
  assumes "sodium_init P"
  shows "test_verify_rejects_wrong_message P a \<longleftrightarrow>
      \<not> verify_detached P (sign_detached P (as_bytes ''correct message'') (snd a)) (as_bytes ''wrong message'') (fst a)"
    and "test_verify_rejects_wrong_key P a b \<longleftrightarrow>
      \<not> verify_detached P (sign_detached P (as_bytes ''hello'') (snd a)) (as_bytes ''hello'') (fst b)"
    and "test_signed_prekey_rejects_wrong_identity P a b spk \<longleftrightarrow>
      \<not> verify_detached P (sign_detached P (fst spk) (snd a)) (fst spk) (fst b)"
  using assms
  by (simp_all add: test_verify_rejects_wrong_message_def test_verify_rejects_wrong_key_def
      test_signed_prekey_rejects_wrong_identity_def generated [OF assms] ik_sign_def ik_verify_def spk_generate_def
      spk_verify_def split_beta Let_def)

theorem rotation_differs:
  assumes "sodium_init P" "sign_ok P" "sign_keypair P (fst a) (snd a)"
  shows "test_rotation_generates_different_key P a spk1 spk2 \<longleftrightarrow> fst spk1 \<noteq> fst spk2"
  using assms sign_verifies [OF assms(2,3)]
  by (simp add: test_rotation_generates_different_key_def generated [OF assms(1)] spk_generate_def spk_verify_def ik_sign_def split_beta)

text \<open>What X3DH makes of a signed prekey with the signature \<open>s\<close>: with one that verifies, an honest run goes through.\<close>

lemma initiate_with_signature:
  assumes P: "x3dh_prims_ok P" and "sign_keypair P (fst a) (snd a)" "sign_keypair P (fst b) (snd b)"
    and "box_keypair P (fst spk) (snd spk)" "box_keypair P (fst eph) (snd eph)"
  shows "(\<exists>r. initiate_x3dh P eph \<lparr>ik_public_key = fst a, ik_secret_key = snd a\<rparr>
       \<lparr>rb_identity_key = fst b, rb_signed_prekey = fst spk, rb_signed_prekey_signature = s, rb_one_time_prekey = None\<rparr> = Ok r \<and>
       accept_x3dh P \<lparr>ik_public_key = fst b, ik_secret_key = snd b\<rparr> (snd spk) None (fst a) (xr_ephemeral_public_key r) =
         Ok (xr_shared_secret r)) \<longleftrightarrow> verify_detached P s (fst spk) (fst b)" (is "?ok \<longleftrightarrow> ?v")
    and "is_err (initiate_x3dh P eph \<lparr>ik_public_key = fst a, ik_secret_key = snd a\<rparr>
       \<lparr>rb_identity_key = fst b, rb_signed_prekey = fst spk, rb_signed_prekey_signature = s, rb_one_time_prekey = None\<rparr>) \<longleftrightarrow>
      \<not> verify_detached P s (fst spk) (fst b)" (is "?err \<longleftrightarrow> _")
proof -
  let ?a = "\<lparr>ik_public_key = fst a, ik_secret_key = snd a\<rparr>" and ?b = "\<lparr>ik_public_key = fst b, ik_secret_key = snd b\<rparr>"
  let ?spk = "\<lparr>spk_prekey_id = 1, spk_public_key = fst spk, spk_secret_key = snd spk, spk_signature = s\<rparr>"
  have ids: "identity_ok P ?a" "identity_ok P ?b" and none: "\<forall>k \<in> set_option None. otpk_ok P k"
    using assms(2,3) by (simp_all add: identity_ok_def)
  have yes: "?ok" if v: ?v
  proof -
    have spk: "spk_ok P (ik_public_key ?b) ?spk"
      using assms(4) v by (simp add: spk_ok_def spk_verify_def)
    obtain r where "initiate_x3dh P (fst eph, snd eph) ?a (bundle_of (ik_public_key ?b) ?spk None) = Ok r"
      "accept_x3dh P ?b (spk_secret_key ?spk) (map_option otpk_secret_key (None :: OneTimePreKey option)) (ik_public_key ?a)
         (xr_ephemeral_public_key r) = Ok (xr_shared_secret r)"
      "xr_ephemeral_public_key r = fst eph" "xr_used_one_time_prekey_id r = map_option otpk_prekey_id (None :: OneTimePreKey option)"
      "length (xr_shared_secret r) = 32"
      by (rule x3dh_agree [OF P ids spk none assms(5)])
    then show ?thesis
      by (simp add: bundle_of_def)
  qed
  have no: "?err" if "\<not> ?v"
    using that P by (simp add: initiate_x3dh_def x3dh_prims_ok_def)
  show "?ok \<longleftrightarrow> ?v"
    using yes no by (cases ?v) auto
  show "?err \<longleftrightarrow> \<not> ?v"
    using yes no by (cases ?v) auto
qed

theorem x3dh_rejection:
  assumes P: "x3dh_prims_ok P" and "sign_keypair P (fst a) (snd a)" "sign_keypair P (fst b) (snd b)"
    and "box_keypair P (fst spk) (snd spk)" "box_keypair P (fst eph) (snd eph)"
  shows "test_x3dh_rejects_bad_signature P a b m spk eph \<longleftrightarrow>
    \<not> verify_detached P (sign_detached P (fst spk) (snd m)) (fst spk) (fst b)"
proof -
  have I: "sodium_init P"
    using P by (simp add: x3dh_prims_ok_def)
  show ?thesis
    by (simp add: test_x3dh_rejects_bad_signature_def generated [OF I] split_beta ik_sign_def Let_def
        initiate_with_signature(2) [OF assms])
qed

theorem safety_numbers_differ:
  assumes "sodium_init P"
  shows "test_different_keys_produce_different_safety_numbers P a b c \<longleftrightarrow>
    distinct [generate_safety_number P (fst a) (fst b), generate_safety_number P (fst a) (fst c),
      generate_safety_number P (fst b) (fst c)]"
  using assms by (auto simp: test_different_keys_produce_different_safety_numbers_def generated [OF assms] Let_def)

subsection \<open>Files, groups and random bytes\<close>

definition test_wrong_key_fails :: "prims \<Rightarrow> bytes \<Rightarrow> bytes \<Rightarrow> bool" where
  "test_wrong_key_fails P drawn_key nonce =
     (let plaintext = as_bytes ''secret document content'' in
      unwrap_then (encrypt_file P drawn_key nonce plaintext) (\<lambda>(ciphertext, _).
      let wrong_key = replicate 32 0xFF; result = decrypt_file P ciphertext wrong_key in is_err result))"

definition test_tampered_ciphertext_fails :: "prims \<Rightarrow> bytes \<Rightarrow> bytes \<Rightarrow> bool" where
  "test_tampered_ciphertext_fails P drawn_key nonce =
     (let plaintext = as_bytes ''important data'' in
      unwrap_then (encrypt_file P drawn_key nonce plaintext) (\<lambda>(ciphertext, key).
      let idx = SECRETBOX_NONCEBYTES + 1; ciphertext = ciphertext[idx := xor (ciphertext ! idx) 0xFF];
          result = decrypt_file P ciphertext key in is_err result))"

definition test_different_files_get_different_keys :: "prims \<Rightarrow> bytes \<Rightarrow> bytes \<Rightarrow> bytes \<Rightarrow> bytes \<Rightarrow> bool" where
  "test_different_files_get_different_keys P drawn_key1 nonce1 drawn_key2 nonce2 =
     unwrap_then (encrypt_file P drawn_key1 nonce1 (as_bytes ''file one'')) (\<lambda>(_, key1).
     unwrap_then (encrypt_file P drawn_key2 nonce2 (as_bytes ''file two'')) (\<lambda>(_, key2). key1 \<noteq> key2))"

definition test_group_id_generate_unique :: "prims \<Rightarrow> random \<Rightarrow> random \<Rightarrow> bool" where
  "test_group_id_generate_unique P rnd1 rnd2 =
     (sodium_init P \<and>
      unwrap_then (gid_generate P rnd1) (\<lambda>id1. unwrap_then (gid_generate P rnd2) (\<lambda>id2. gid_bytes id1 \<noteq> gid_bytes id2)))"

definition test_secure_random_bytes_non_zero :: "prims \<Rightarrow> random \<Rightarrow> bool" where
  "test_secure_random_bytes_non_zero P rnd =
     (sodium_init P \<and> (let bs = secure_random_bytes rnd 32 in list_ex (\<lambda>b. b \<noteq> 0) bs))"

definition test_secure_random_bytes_non_repeating :: "prims \<Rightarrow> random \<Rightarrow> random \<Rightarrow> bool" where
  "test_secure_random_bytes_non_repeating P rnd1 rnd2 =
     (sodium_init P \<and> (let a = secure_random_bytes rnd1 32; b = secure_random_bytes rnd2 32 in a \<noteq> b))"

definition test_secure_random_bytes_large :: "prims \<Rightarrow> random \<Rightarrow> bool" where
  "test_secure_random_bytes_large P rnd =
     (sodium_init P \<and> (let bs = secure_random_bytes rnd 1024 in length bs = 1024 \<and> 1 < card (set bs)))"

theorem draws_differ:
  assumes "sodium_init P"
  shows "test_different_files_get_different_keys P k1 n1 k2 n2 \<longleftrightarrow> k1 \<noteq> k2"
    and "test_group_id_generate_unique P r1 r2 \<longleftrightarrow> (\<exists>i < 32. r1 i \<noteq> r2 i)"
    and "test_secure_random_bytes_non_zero P r1 \<longleftrightarrow> (\<exists>i < 32. r1 i \<noteq> 0)"
    and "test_secure_random_bytes_non_repeating P r1 r2 \<longleftrightarrow> (\<exists>i < 32. r1 i \<noteq> r2 i)"
    and "test_secure_random_bytes_large P r1 \<longleftrightarrow> (\<exists>i < 1024. r1 i \<noteq> r1 0)"
proof -
  have differ: "random_bytes r1 n \<noteq> random_bytes r2 n \<longleftrightarrow> (\<exists>i < n. r1 i \<noteq> r2 i)" for n
    by (auto simp: random_bytes_def)
  show "test_different_files_get_different_keys P k1 n1 k2 n2 \<longleftrightarrow> k1 \<noteq> k2"
    using assms by (simp add: test_different_files_get_different_keys_def encrypt_file_def MAX_FILE_SIZE_def)
  show "test_group_id_generate_unique P r1 r2 \<longleftrightarrow> (\<exists>i < 32. r1 i \<noteq> r2 i)"
    using assms by (simp add: test_group_id_generate_unique_def gid_generate_def differ)
  show "test_secure_random_bytes_non_repeating P r1 r2 \<longleftrightarrow> (\<exists>i < 32. r1 i \<noteq> r2 i)"
    using assms by (simp add: test_secure_random_bytes_non_repeating_def secure_random_bytes_def differ)
  show "test_secure_random_bytes_non_zero P r1 \<longleftrightarrow> (\<exists>i < 32. r1 i \<noteq> 0)"
    using assms by (auto simp: test_secure_random_bytes_non_zero_def secure_random_bytes_def random_bytes_def list_ex_iff)
  have bytes: "set (random_bytes r1 n) = r1 ` {..< n}" for n
    by (auto simp: random_bytes_def)
  have many: "1 < card (r1 ` {..< n}) \<longleftrightarrow> (\<exists>i < n. r1 i \<noteq> r1 0)" if "0 < n" for n
  proof -
    have "(\<forall>x \<in> r1 ` {..< n}. \<forall>y \<in> r1 ` {..< n}. x = y) \<longleftrightarrow> (\<forall>i < n. r1 i = r1 0)"
      using that by (metis imageE imageI lessThan_iff)
    then have "card (r1 ` {..< n}) \<le> Suc 0 \<longleftrightarrow> (\<forall>i < n. r1 i = r1 0)"
      by (simp only: card_le_Suc0_iff_eq finite_imageI finite_lessThan)
    then show ?thesis
      by (metis One_nat_def not_le)
  qed
  show "test_secure_random_bytes_large P r1 \<longleftrightarrow> (\<exists>i < 1024. r1 i \<noteq> r1 0)"
    using assms many [of 1024] by (simp add: test_secure_random_bytes_large_def secure_random_bytes_def bytes)
qed

theorem file_rejections:
  assumes "slices_ok P" "secretbox_ok P" "sodium_init P" "length key = 32" "length nonce = 24"
  shows "test_wrong_key_fails P key nonce \<longleftrightarrow>
      secretbox_open P (secretbox_seal P (as_bytes ''secret document content'') nonce key) nonce (replicate 32 0xFF) = None"
    and "test_tampered_ciphertext_fails P key nonce \<longleftrightarrow>
      (let c = secretbox_seal P (as_bytes ''important data'') nonce key in
       secretbox_open P (c[1 := xor (c ! 1) 0xFF]) nonce key = None)"
proof -
  have opens: "is_err (decrypt_file P (nonce @ c) k) \<longleftrightarrow> secretbox_open P c nonce k = None"
    if "16 \<le> length c" "length k = 32" for c k
    using assms(1,5) that by (cases "secretbox_open P c nonce k") (simp_all add: decrypt_file_def from_slice_eq secretbox_consts)
  have enc: "encrypt_file P key nonce p = Ok (nonce @ secretbox_seal P p nonce key, key)" if "length p \<le> 100" for p
    using assms(3) that by (simp add: encrypt_file_def MAX_FILE_SIZE_def)
  have len: "length (secretbox_seal P p nonce k) = length p + 16" for p k
    by (rule secretbox_laws(2) [OF assms(2)])
  show "test_wrong_key_fails P key nonce \<longleftrightarrow>
      secretbox_open P (secretbox_seal P (as_bytes ''secret document content'') nonce key) nonce (replicate 32 0xFF) = None"
    by (simp add: test_wrong_key_fails_def enc opens len Let_def)
  have upd: "(nonce @ c)[25 := xor ((nonce @ c) ! 25) 0xFF] = nonce @ c[1 := xor (c ! 1) 0xFF]" for c :: bytes
    using assms(5) by (simp add: list_update_append nth_append)
  show "test_tampered_ciphertext_fails P key nonce \<longleftrightarrow>
      (let c = secretbox_seal P (as_bytes ''important data'') nonce key in
       secretbox_open P (c[1 := xor (c ! 1) 0xFF]) nonce key = None)"
    using assms(4) upd by (simp add: test_tampered_ciphertext_fails_def enc opens len Let_def SECRETBOX_NONCEBYTES_def)
qed

subsection \<open>Sealed sender\<close>

definition test_decrypt_fails_for_wrong_recipient ::
    "prims \<Rightarrow> bytes \<times> bytes \<Rightarrow> bytes \<times> bytes \<Rightarrow> bytes \<times> bytes \<Rightarrow> bytes \<Rightarrow> bool" where
  "test_decrypt_fails_for_wrong_recipient P drawn_s drawn_r drawn_a nonce =
     (sodium_init P \<and>
      unwrap_then (ik_generate P drawn_s) (\<lambda>sender.
      unwrap_then (ik_generate P drawn_r) (\<lambda>recipient.
      unwrap_then (ik_generate P drawn_a) (\<lambda>attacker.
      unwrap_then (encrypt_to_identity P nonce sender (ik_public_key recipient) (as_bytes ''secret sdp'')) (\<lambda>sealed.
        is_err (decrypt_from_identity P attacker (ik_public_key sender) sealed))))))"

definition test_decrypt_fails_for_forged_sender ::
    "prims \<Rightarrow> bytes \<times> bytes \<Rightarrow> bytes \<times> bytes \<Rightarrow> bytes \<times> bytes \<Rightarrow> bytes \<Rightarrow> bool" where
  "test_decrypt_fails_for_forged_sender P drawn_s drawn_f drawn_r nonce =
     (sodium_init P \<and>
      unwrap_then (ik_generate P drawn_s) (\<lambda>real_sender.
      unwrap_then (ik_generate P drawn_f) (\<lambda>forger.
      unwrap_then (ik_generate P drawn_r) (\<lambda>recipient.
      unwrap_then (encrypt_to_identity P nonce forger (ik_public_key recipient) (as_bytes ''injected sdp'')) (\<lambda>forged.
        is_err (decrypt_from_identity P recipient (ik_public_key real_sender) forged))))))"

definition test_unseal_fails_with_wrong_key :: "prims \<Rightarrow> (SealedSenderEnvelope \<Rightarrow> string + bytes) \<Rightarrow>
    (bytes \<Rightarrow> string + SealedSenderEnvelope) \<Rightarrow> bytes \<times> bytes \<Rightarrow> bytes \<times> bytes \<Rightarrow> bytes \<times> bytes \<Rightarrow> bool" where
  "test_unseal_fails_with_wrong_key P ser de drawn drawn2 rnd =
     (sodium_init P \<and>
      (case (drawn, drawn2) of ((pk, _), (_, sk2)) \<Rightarrow>
       unwrap_then (seal_envelope P ser rnd ''sender_key_hex'' (as_bytes ''secret'') pk) (\<lambda>envelope.
       let result = unseal_envelope P de envelope pk sk2 in is_err result)))"

definition test_seal_hides_sender_from_server :: "prims \<Rightarrow> (SealedSenderEnvelope \<Rightarrow> string + bytes) \<Rightarrow>
    bytes \<times> bytes \<Rightarrow> bytes \<times> bytes \<Rightarrow> bytes \<times> bytes \<Rightarrow> bool" where
  "test_seal_hides_sender_from_server P ser drawn rnd1 rnd2 =
     (sodium_init P \<and>
      (case drawn of (pk, _) \<Rightarrow>
       unwrap_then (seal_envelope P ser rnd1 ''sender_a'' (as_bytes ''msg1'') pk) (\<lambda>env1.
       unwrap_then (seal_envelope P ser rnd2 ''sender_b'' (as_bytes ''msg2'') pk) (\<lambda>env2. env1 \<noteq> env2))))"

text \<open>
  The box between identities: whoever opens with secret key \<open>b\<close> what was sealed with \<open>a\<close> for \<open>r\<close>, and
  expects \<open>s\<close> as the sender.  The four keys are the converted ones.
\<close>

definition box_opens :: "prims \<Rightarrow> bytes \<Rightarrow> bytes \<Rightarrow> bytes \<times> bytes \<Rightarrow> bytes \<times> bytes \<Rightarrow> bytes \<times> bytes \<Rightarrow> bytes \<times> bytes \<Rightarrow> bool" where
  "box_opens P p nonce a r s b \<longleftrightarrow>
     (case (ed_sk_to_curve P (snd a), ed_pk_to_curve P (fst r), ed_pk_to_curve P (fst s), ed_sk_to_curve P (snd b)) of
        (Some ask, Some rpk, Some spk, Some bsk) \<Rightarrow> box_open P (box_seal P p nonce rpk ask) nonce spk bsk \<noteq> None
      | _ \<Rightarrow> False)"

lemma identity_box_result:
  assumes "slices_ok P" "dh_ok P" "convert_ok P" "sodium_init P" "length nonce = 24"
    and "\<forall>x \<in> {a, r, s, b}. sign_keypair P (fst x) (snd x)"
  shows "unwrap_then (encrypt_to_identity P nonce \<lparr>ik_public_key = fst a, ik_secret_key = snd a\<rparr> (fst r) p) (\<lambda>c.
      is_err (decrypt_from_identity P \<lparr>ik_public_key = fst b, ik_secret_key = snd b\<rparr> (fst s) c)) \<longleftrightarrow>
    \<not> box_opens P p nonce a r s b"
proof -
  have conv: "\<exists>cpk csk. ed_pk_to_curve P (fst x) = Some cpk \<and> ed_sk_to_curve P (snd x) = Some csk \<and>
      length cpk = 32 \<and> length csk = 32" if "x \<in> {a, r, s, b}" for x
    using bspec [OF assms(6) that] converted_keypair [OF assms(3)] keypair_lengths [OF assms(2)] by metis
  obtain ask rpk spk bsk where k: "ed_sk_to_curve P (snd a) = Some ask" "length ask = 32"
    "ed_pk_to_curve P (fst r) = Some rpk" "length rpk = 32" "ed_pk_to_curve P (fst s) = Some spk" "length spk = 32"
    "ed_sk_to_curve P (snd b) = Some bsk" "length bsk = 32"
    using conv [of a] conv [of r] conv [of s] conv [of b] by blast
  note eqs = encrypt_to_identity_def decrypt_from_identity_def ed25519_pk_to_box_def ed25519_sk_to_box_def
    from_slice_eq [OF assms(1)] BOX_NONCEBYTES_def
  show ?thesis
    using assms(4,5)
    by (cases "box_open P (box_seal P p nonce rpk ask) nonce spk bsk") (simp_all add: eqs k box_opens_def)
qed

theorem identity_box_rejections:
  assumes "slices_ok P" "dh_ok P" "convert_ok P" "sodium_init P" "length nonce = 24"
    and "sign_keypair P (fst a) (snd a)" "sign_keypair P (fst b) (snd b)" "sign_keypair P (fst c) (snd c)"
  shows "test_decrypt_fails_for_wrong_recipient P a b c nonce \<longleftrightarrow> \<not> box_opens P (as_bytes ''secret sdp'') nonce a b a c"
    and "test_decrypt_fails_for_forged_sender P a b c nonce \<longleftrightarrow> \<not> box_opens P (as_bytes ''injected sdp'') nonce b c a c"
proof -
  note gen = generated [OF assms(4)] and box = identity_box_result [OF assms(1-5)]
  show "test_decrypt_fails_for_wrong_recipient P a b c nonce \<longleftrightarrow> \<not> box_opens P (as_bytes ''secret sdp'') nonce a b a c"
    using box [of a b a c "as_bytes ''secret sdp''"] assms(4,6-8)
    by (simp add: test_decrypt_fails_for_wrong_recipient_def gen del: test_simps)
  show "test_decrypt_fails_for_forged_sender P a b c nonce \<longleftrightarrow> \<not> box_opens P (as_bytes ''injected sdp'') nonce b c a c"
    using box [of b c a c "as_bytes ''injected sdp''"] assms(4,6-8)
    by (simp add: test_decrypt_fails_for_forged_sender_def gen del: test_simps)
qed

theorem envelope_differences:
  assumes "sodium_init P" "\<forall>x. \<exists>b. ser x = Inr b \<and> de b = Inr x"
  shows "test_seal_hides_sender_from_server P ser (pk, sk) rnd1 rnd2 \<longleftrightarrow>
      sealedbox_seal P (fst rnd1) (as_bytes ''sender_a'') pk \<noteq> sealedbox_seal P (fst rnd2) (as_bytes ''sender_b'') pk \<or>
      sealedbox_seal P (snd rnd1) (as_bytes ''msg1'') pk \<noteq> sealedbox_seal P (snd rnd2) (as_bytes ''msg2'') pk"
proof -
  let ?e = "\<lambda>rnd s m. \<lparr>env_encrypted_sender = sealedbox_seal P (fst rnd) (as_bytes s) pk,
    env_encrypted_message = sealedbox_seal P (snd rnd) (as_bytes m) pk\<rparr>"
  obtain b1 where b1: "ser (?e rnd1 ''sender_a'' ''msg1'') = Inr b1" "de b1 = Inr (?e rnd1 ''sender_a'' ''msg1'')"
    using assms(2) by blast
  obtain b2 where b2: "ser (?e rnd2 ''sender_b'' ''msg2'') = Inr b2" "de b2 = Inr (?e rnd2 ''sender_b'' ''msg2'')"
    using assms(2) by blast
  have "b1 = b2 \<longleftrightarrow> ?e rnd1 ''sender_a'' ''msg1'' = ?e rnd2 ''sender_b'' ''msg2''"
    using b1 b2 by auto
  with b1(1) b2(1) assms(1) show ?thesis
    by (simp add: test_seal_hides_sender_from_server_def seal_envelope_def)
qed

theorem unseal_rejection:
  assumes "sodium_init P" "\<forall>x. \<exists>b. ser x = Inr b \<and> de b = Inr x"
  shows "test_unseal_fails_with_wrong_key P ser de (pk, sk) (pk2, sk2) rnd \<longleftrightarrow>
    (case sealedbox_open P (sealedbox_seal P (fst rnd) (as_bytes ''sender_key_hex'') pk) pk sk2 of
       None \<Rightarrow> True
     | Some s \<Rightarrow> \<not> utf8_valid s \<or> sealedbox_open P (sealedbox_seal P (snd rnd) (as_bytes ''secret'') pk) pk sk2 = None)"
proof -
  let ?e = "\<lparr>env_encrypted_sender = sealedbox_seal P (fst rnd) (as_bytes ''sender_key_hex'') pk,
    env_encrypted_message = sealedbox_seal P (snd rnd) (as_bytes ''secret'') pk\<rparr>"
  obtain b where b: "ser ?e = Inr b" "de b = Inr ?e"
    using assms(2) by blast
  then have test: "test_unseal_fails_with_wrong_key P ser de (pk, sk) (pk2, sk2) rnd \<longleftrightarrow>
      is_err (unseal_envelope P de b pk sk2)"
    using assms(1) by (simp add: test_unseal_fails_with_wrong_key_def seal_envelope_def)
  show ?thesis
    unfolding test
    by (cases "sealedbox_open P (env_encrypted_sender ?e) pk sk2"; cases "sealedbox_open P (env_encrypted_message ?e) pk sk2")
      (simp_all add: unseal_envelope_def b(2) from_utf8_def)
qed

subsection \<open>The ratchet\<close>

definition test_ratchet_wrong_key_fails :: "prims \<Rightarrow> key_draws \<Rightarrow> (nat \<Rightarrow> bytes) \<Rightarrow> bool" where
  "test_ratchet_wrong_key_fails P keys nonces =
     (sodium_init P \<and>
      (let shared_secret = replicate 32 0x42; wrong_secret = replicate 32 0x43 in
       unwrap_then (init_sender P (keys 1) shared_secret (fst (keys 0))) (\<lambda>alice.
       let bob = init_receiver wrong_secret (keys 0); ad = as_bytes ''test'' in
       unwrap_st (encrypt P (nonces 0) (as_bytes ''secret'') ad alice) (\<lambda>alice (header, ct).
       (case decrypt P (keys 2) header ct ad bob of (bob, result) \<Rightarrow> is_err result)))))"

text \<open>
  Bob's first message key comes from the chain that the wrong root gives; the test fails exactly
  when that key opens what the right one sealed.
\<close>

theorem ratchet_wrong_key:
  assumes P: "ratchet_prims_ok P" and d: "draws_ok P keys nonces" and x: "dh_exchange P (snd (keys 0)) (fst (keys 1)) = Ok x"
  shows "test_ratchet_wrong_key_fails P keys nonces \<longleftrightarrow>
    aead_open P (aead_seal P (as_bytes ''secret'') (Some (as_bytes ''test'')) (nonces 0)
        (msg_key_at P (root_chain P (replicate 32 0x42) x) 0)) (Some (as_bytes ''test'')) (nonces 0)
      (msg_key_at P (root_chain P (replicate 32 0x43) x) 0) = None"
proof -
  note prims = ratchet_prims [OF P]
  have kp: "box_keypair P (fst (keys i)) (snd (keys i))" and nonce: "length (nonces i) = 24" for i
    using d by (simp_all add: draws_ok_def)
  let ?D = "root_chain P (replicate 32 0x42) x" and ?E = "root_chain P (replicate 32 0x43) x"
    and ?m = "as_bytes ''secret''" and ?ad = "as_bytes ''test''"
  have "dh_exchange P (snd (keys 1)) (fst (keys 0)) = Ok x"
    by (rule dh_exchange_agree [OF prims(1,2) kp [of 0] kp [of 1]]) (use x in simp)
  from init_sender_eq [OF prims(5,3) this, of "fst (keys 1)" "replicate 32 0x42", unfolded prod.collapse]
  obtain a where a: "init_sender P (keys 1) (replicate 32 0x42) (fst (keys 0)) = Ok a" "sends_at P ?D (fst (keys 1)) 0 a"
    by (simp add: sends_at_def) (metis prod.collapse)
  obtain a' where e: "encrypt P (nonces 0) ?m ?ad a = (a', Ok (first_header (fst (keys 1)) 0, first_body P ?D 0 (nonces 0) ?m ?ad))"
    using alice_sends [OF P a(2)] by blast
  obtain b where "decrypt P (keys 2) (first_header (fst (keys 1)) 0) (first_body P ?D 0 (nonces 0) ?m ?ad) ?ad
      (init_receiver (replicate 32 0x43) (keys 0)) =
    (b, decrypt_with_key P (msg_key_at P ?E 0) (first_body P ?D 0 (nonces 0) ?m ?ad) ?ad)"
    using bob_opens_first [OF P kp kp kp x, where n = 0, unfolded prod.collapse] by blast
  then have "test_ratchet_wrong_key_fails P keys nonces \<longleftrightarrow>
      is_err (decrypt_with_key P (msg_key_at P ?E 0) (first_body P ?D 0 (nonces 0) ?m ?ad) ?ad)"
    by (simp only: test_ratchet_wrong_key_fails_def Let_def prims(5) simp_thms a(1) e test_simps prod.case)
  moreover have "decrypt_with_key P (msg_key_at P ?E 0) (first_body P ?D 0 (nonces 0) ?m ?ad) ?ad =
      ok_or (aead_open P (aead_seal P ?m (Some ?ad) (nonces 0) (msg_key_at P ?D 0)) (Some ?ad) (nonces 0) (msg_key_at P ?E 0))
        DecryptionFailed"
    using nonce by (simp add: decrypt_with_key_def first_body_def aes_decrypt_eq [OF prims(1) length_msg_key_at [OF prims(3)]])
  ultimately show ?thesis
    by (cases "aead_open P (aead_seal P ?m (Some ?ad) (nonces 0) (msg_key_at P ?D 0)) (Some ?ad) (nonces 0) (msg_key_at P ?E 0)")
      simp_all
qed

end
