(* ===== verification/Tests_Json.thy ===== *)
theory Tests_Json
  imports Message_Payload Test_Support
begin

section \<open>Unit tests of the JSON text of payloads\<close>

text \<open>
  The tests of \<open>message_payload.rs\<close> that look at the JSON text.  The text is \<open>serde_json\<close>'s, so the
  theorem has it as a hypothesis for the payloads that the tests build: an object with the fields
  in their order, without those that the \<open>skip_serializing_if\<close> attributes leave out.
\<close>

definition test_text_message_omits_attachment_fields :: "payload_ser \<Rightarrow> bool" where
  "test_text_message_omits_attachment_fields ser =
     unwrap_then (ser (mp_new ''hi'')) (\<lambda>json.
       \<not> contains_str (string_of_bytes json) ''media_type'' \<and> \<not> contains_str (string_of_bytes json) ''attachment'')"

definition test_attachment_roundtrip :: "payload_ser \<Rightarrow> payload_de \<Rightarrow> bool" where
  "test_attachment_roundtrip ser de =
     (let att = \<lparr>at_media_id = ''11111111-1111-1111-1111-111111111111'', at_file_name = ''photo.jpg'',
                 at_mime_type = ''image/jpeg'', at_file_size = 12345, at_file_key_hex = repeat_str ''ab'' 32,
                 at_thumbnail_base64 = None\<rparr>;
          payload = mp_with_attachment ''image'' att (mp_new ''[Image]'') in
      unwrap_then (ser payload) (\<lambda>json.
      list_all (contains_str (string_of_bytes json))
        [''media_type'', ''attachment'', ''media_id'', ''file_name'', ''mime_type'', ''file_size'', ''file_key_hex''] \<and>
      unwrap_then (mp_from_bytes de json) (\<lambda>restored.
        mp_media_type restored = Some ''image'' \<and> mp_attachment restored = Some att)))"

definition test_payload_without_ttl_omits_field :: "payload_ser \<Rightarrow> bool" where
  "test_payload_without_ttl_omits_field ser =
     (let payload = mp_new ''no ttl'' in
      unwrap_then (ser payload) (\<lambda>json. \<not> contains_str (string_of_bytes json) ''ttl_seconds''))"

definition quoted :: "string \<Rightarrow> string" where
  "quoted s = CHR 0x22 # s @ [CHR 0x22]"

definition test_payload_with_ttl_includes_field :: "payload_ser \<Rightarrow> bool" where
  "test_payload_with_ttl_includes_field ser =
     (let payload = mp_with_ttl ''has ttl'' 60 in
      unwrap_then (ser payload) (\<lambda>json. contains_str (string_of_bytes json) (quoted ''ttl_seconds'' @ '':60'')))"

definition test_backward_compat_no_ttl_field :: "payload_de \<Rightarrow> bool" where
  "test_backward_compat_no_ttl_field de =
     (let json = ''{'' @ quoted ''body'' @ '':'' @ quoted ''old client message'' @ ''}'' in
      unwrap_then (de (as_bytes json)) (\<lambda>payload.
        mp_body payload = ''old client message'' \<and> mp_ttl_seconds payload = None))"

definition test_padded_hides_length :: "prims \<Rightarrow> payload_ser \<Rightarrow> random \<Rightarrow> random \<Rightarrow> bool" where
  "test_padded_hides_length P ser rnd rnd' =
     (sodium_init P \<and>
      (let short = mp_new ''hi''; longer = mp_new ''a somewhat longer message body'' in
       unwrap_then (to_padded_bytes rnd ser short) (\<lambda>padded_short.
       unwrap_then (to_padded_bytes rnd' ser longer) (\<lambda>padded_longer.
         length padded_short = length padded_longer))))"

subsection \<open>The texts\<close>

definition json_object :: "(string \<times> string) list \<Rightarrow> string" where
  "json_object ms = ''{'' @ join '','' (map (\<lambda>(k, v). quoted k @ '':'' @ v) ms) @ ''}''"

definition attachment_text :: string where
  "attachment_text = json_object
     [(''media_id'', quoted ''11111111-1111-1111-1111-111111111111''), (''file_name'', quoted ''photo.jpg''),
      (''mime_type'', quoted ''image/jpeg''), (''file_size'', ''12345''),
      (''file_key_hex'', quoted (repeat_str ''ab'' 32))]"

definition attachment_payload :: MessagePayload where
  "attachment_payload = mp_with_attachment ''image''
     \<lparr>at_media_id = ''11111111-1111-1111-1111-111111111111'', at_file_name = ''photo.jpg'',
      at_mime_type = ''image/jpeg'', at_file_size = 12345, at_file_key_hex = repeat_str ''ab'' 32,
      at_thumbnail_base64 = None\<rparr> (mp_new ''[Image]'')"

text \<open>The payloads that the tests write, and the text of each.\<close>

definition json_texts :: "(MessagePayload \<times> string) list" where
  "json_texts =
     [(mp_new ''hi'', json_object [(''body'', quoted ''hi'')]),
      (mp_new ''no ttl'', json_object [(''body'', quoted ''no ttl'')]),
      (mp_with_ttl ''has ttl'' 60, json_object [(''body'', quoted ''has ttl''), (''ttl_seconds'', ''60'')]),
      (attachment_payload, json_object [(''body'', quoted ''[Image]''), (''media_type'', quoted ''image''),
         (''attachment'', attachment_text)]),
      (mp_in_group GROUP_ID_PLACEHOLDER (mp_new ''hi''),
       json_object [(''body'', quoted ''hi''), (''group_id'', quoted GROUP_ID_PLACEHOLDER)]),
      (mp_in_group GROUP_ID_PLACEHOLDER (mp_new ''a somewhat longer message body''),
       json_object [(''body'', quoted ''a somewhat longer message body''), (''group_id'', quoted GROUP_ID_PLACEHOLDER)])]"

definition json_facts :: "bool" where
  "json_facts \<longleftrightarrow>
     (let t = map snd json_texts in
      \<not> contains_str (t ! 0) ''media_type'' \<and> \<not> contains_str (t ! 0) ''attachment'' \<and>
      \<not> contains_str (t ! 1) ''ttl_seconds'' \<and> contains_str (t ! 2) (quoted ''ttl_seconds'' @ '':60'') \<and>
      list_all (contains_str (t ! 3))
        [''media_type'', ''attachment'', ''media_id'', ''file_name'', ''mime_type'', ''file_size'', ''file_key_hex''] \<and>
      length (t ! 4) \<le> 252 \<and> length (t ! 5) \<le> 252)"

lemma json_facts_hold: "json_facts"
  unfolding json_facts_def json_texts_def by code_simp

theorem json_tests_pass:
  assumes "\<forall>(p, t) \<in> set json_texts. ser p = Inr (as_bytes t)" "\<forall>x b. ser x = Inr b \<longrightarrow> de b = Inr x" "sodium_init P"
    and "de (as_bytes (''{'' @ quoted ''body'' @ '':'' @ quoted ''old client message'' @ ''}'')) = Inr (mp_new ''old client message'')"
  shows "test_text_message_omits_attachment_fields ser" "test_attachment_roundtrip ser de"
    "test_payload_without_ttl_omits_field ser" "test_payload_with_ttl_includes_field ser"
    "test_backward_compat_no_ttl_field de" "test_padded_hides_length P ser rnd rnd'"
proof -
  have txts: "ser (fst (json_texts ! i)) = Inr (as_bytes (map snd json_texts ! i))" if "i < 6" for i
  proof -
    have len: "length json_texts = 6"
      by (simp add: json_texts_def)
    with that have "json_texts ! i \<in> set json_texts"
      by simp
    with assms(1) len that show ?thesis
      by (cases "json_texts ! i") auto
  qed
  have p: "fst (json_texts ! 0) = mp_new ''hi''" "fst (json_texts ! 1) = mp_new ''no ttl''"
    "fst (json_texts ! 2) = mp_with_ttl ''has ttl'' 60" "fst (json_texts ! 3) = attachment_payload"
    "fst (json_texts ! 4) = on_wire (mp_new ''hi'')"
    "fst (json_texts ! 5) = on_wire (mp_new ''a somewhat longer message body'')"
    by (simp_all add: json_texts_def on_wire_def mp_new_def mp_in_group_def)
  let ?t = "map snd json_texts"
  have t: "ser (mp_new ''hi'') = Inr (as_bytes (?t ! 0))" "ser (mp_new ''no ttl'') = Inr (as_bytes (?t ! 1))"
    "ser (mp_with_ttl ''has ttl'' 60) = Inr (as_bytes (?t ! 2))" "ser attachment_payload = Inr (as_bytes (?t ! 3))"
    "ser (on_wire (mp_new ''hi'')) = Inr (as_bytes (?t ! 4))"
    "ser (on_wire (mp_new ''a somewhat longer message body'')) = Inr (as_bytes (?t ! 5))"
    using txts [of 0] txts [of 1] txts [of 2] txts [of 3] txts [of 4] txts [of 5] unfolding p by simp_all
  note facts = json_facts_hold [unfolded json_facts_def Let_def]
  show "test_text_message_omits_attachment_fields ser"
    unfolding test_text_message_omits_attachment_fields_def t(1) test_simps string_of_as_bytes using facts by blast
  show "test_payload_without_ttl_omits_field ser"
    unfolding test_payload_without_ttl_omits_field_def Let_def t(2) test_simps string_of_as_bytes using facts by blast
  show "test_payload_with_ttl_includes_field ser"
    unfolding test_payload_with_ttl_includes_field_def Let_def t(3) test_simps string_of_as_bytes using facts by blast
  show "test_backward_compat_no_ttl_field de"
    unfolding test_backward_compat_no_ttl_field_def Let_def assms(4) test_simps by (simp add: mp_new_def)
  have "de (as_bytes (?t ! 3)) = Inr attachment_payload"
    using assms(2) t(4) by blast
  then show "test_attachment_roundtrip ser de"
    unfolding test_attachment_roundtrip_def Let_def attachment_payload_def [symmetric] t(4) test_simps
      string_of_as_bytes mp_from_bytes_def
    using facts by (simp add: attachment_payload_def mp_with_attachment_def)
  have pad: "\<exists>b. to_padded_bytes r ser m = Ok b \<and> length b = bucket_size (length s)" if "ser (on_wire m) = Inr (as_bytes s)" for m s r
    using that length_pad_message [OF pad_message_eq [of r "as_bytes s"]]
    by (auto simp: to_padded_bytes_def on_wire_def pad_message_eq Let_def)
  have "bucket_size (length (?t ! 4)) = 256" "bucket_size (length (?t ! 5)) = 256"
    using facts by (simp_all add: bucket_small)
  with pad [OF t(5), of rnd] pad [OF t(6), of rnd'] assms(3) show "test_padded_hides_length P ser rnd rnd'"
    by (auto simp: test_padded_hides_length_def Let_def)
qed

end
