(* ===== verification/Tests_Flow.thy ===== *)
theory Tests_Flow
  imports Tests_Keys Tests_Ratchet Sealed_Delivery
begin

section \<open>Integration tests of the whole path\<close>

text \<open>
  Programs of \<open>tests/e2e_message_flow.rs\<close> and \<open>tests/security_audit_tests.rs\<close> that start from
  two identities: prekeys, X3DH, both ratchets, then messages.  \<open>setup_session\<close> of both files is
  one definition, as they make the same calls (the first also asserts that the signed prekey
  verifies); a test runs in the four values that it returns.
\<close>

record session_draws =
  sd_alice :: "bytes \<times> bytes"
  sd_bob :: "bytes \<times> bytes"
  sd_otpks :: "nat \<Rightarrow> bytes \<times> bytes"
  sd_ephemeral :: "bytes \<times> bytes"
  sd_keys :: key_draws
  sd_nonces :: "nat \<Rightarrow> bytes"

text \<open>
  The signed prekey is the pair \<open>sd_keys 0\<close>, Alice's first ratchet key is \<open>sd_keys 1\<close>, and each
  message that is opened has the next one.
\<close>

definition setup_session :: "prims \<Rightarrow> session_draws \<Rightarrow>
    (RatchetState \<Rightarrow> RatchetState \<Rightarrow> IdentityKeyPair \<Rightarrow> IdentityKeyPair \<Rightarrow> bool) \<Rightarrow> bool" where
  "setup_session P dr k =
     (sodium_init P \<and>
      unwrap_then (ik_generate P (sd_alice dr)) (\<lambda>alice_id.
      unwrap_then (ik_generate P (sd_bob dr)) (\<lambda>bob_id.
      unwrap_then (spk_generate P (sd_keys dr 0) bob_id 1) (\<lambda>bob_spk.
      unwrap_then (generate_one_time_prekeys P (sd_otpks dr) 5 100) (\<lambda>bob_otpks.
      let bundle = \<lparr>rb_identity_key = ik_public_key bob_id, rb_signed_prekey = spk_public_key bob_spk,
                    rb_signed_prekey_signature = spk_signature bob_spk,
                    rb_one_time_prekey = Some (otpk_prekey_id (bob_otpks ! 0), otpk_public_key (bob_otpks ! 0))\<rparr> in
      spk_verify P bob_spk (ik_public_key bob_id) \<and>
      unwrap_then (initiate_x3dh P (sd_ephemeral dr) alice_id bundle) (\<lambda>init_result.
      unwrap_then (accept_x3dh P bob_id (spk_secret_key bob_spk) (Some (otpk_secret_key (bob_otpks ! 0)))
          (ik_public_key alice_id) (xr_ephemeral_public_key init_result)) (\<lambda>bob_shared_secret.
      xr_shared_secret init_result = bob_shared_secret \<and>
      unwrap_then (init_sender P (sd_keys dr 1) (xr_shared_secret init_result) (spk_public_key bob_spk)) (\<lambda>alice_ratchet.
      let bob_ratchet = init_receiver bob_shared_secret (spk_public_key bob_spk, spk_secret_key bob_spk) in
      k alice_ratchet bob_ratchet alice_id bob_id))))))))"

subsection \<open>The message flow\<close>

text \<open>Messages by turns: sender and text.  \<open>i\<close> counts the messages, for the draws.\<close>

fun flow_rounds :: "prims \<Rightarrow> key_draws \<Rightarrow> (nat \<Rightarrow> bytes) \<Rightarrow> bytes \<Rightarrow> nat \<Rightarrow> (string \<times> string) list \<Rightarrow>
    RatchetState \<Rightarrow> RatchetState \<Rightarrow> bool" where
  "flow_rounds P keys nonces ad i [] alice_ratchet bob_ratchet = True"
| "flow_rounds P keys nonces ad i ((sender, msg) # messages) alice_ratchet bob_ratchet =
     (if sender = ''alice''
      then unwrap_st (encrypt P (nonces i) (as_bytes msg) ad alice_ratchet) (\<lambda>alice_ratchet (h, ct).
           unwrap_st (decrypt P (keys (i + 2)) h ct ad bob_ratchet) (\<lambda>bob_ratchet pt.
           pt = as_bytes msg \<and> flow_rounds P keys nonces ad (i + 1) messages alice_ratchet bob_ratchet))
      else unwrap_st (encrypt P (nonces i) (as_bytes msg) ad bob_ratchet) (\<lambda>bob_ratchet (h, ct).
           unwrap_st (decrypt P (keys (i + 2)) h ct ad alice_ratchet) (\<lambda>alice_ratchet pt.
           pt = as_bytes msg \<and> flow_rounds P keys nonces ad (i + 1) messages alice_ratchet bob_ratchet)))"

definition test_full_message_flow_alice_to_bob :: "prims \<Rightarrow> session_draws \<Rightarrow> bool" where
  "test_full_message_flow_alice_to_bob P dr =
     (let keys = sd_keys dr; nonces = sd_nonces dr; ad = as_bytes ''e2e-session'' in
      setup_session P dr (\<lambda>alice_ratchet bob_ratchet _ _.
      unwrap_st (encrypt P (nonces 0) (as_bytes ''Hello Bob!'') ad alice_ratchet) (\<lambda>alice_ratchet (header1, ct1).
      unwrap_st (decrypt P (keys 2) header1 ct1 ad bob_ratchet) (\<lambda>bob_ratchet pt1.
      pt1 = as_bytes ''Hello Bob!'' \<and>
      unwrap_st (encrypt P (nonces 1) (as_bytes ''Hi Alice!'') ad bob_ratchet) (\<lambda>bob_ratchet (header2, ct2).
      unwrap_st (decrypt P (keys 3) header2 ct2 ad alice_ratchet) (\<lambda>alice_ratchet pt2.
      pt2 = as_bytes ''Hi Alice!'' \<and>
      flow_rounds P keys nonces ad 2
        [(''alice'', ''How are you?''), (''bob'', ''Good, thanks! And you?''), (''alice'', ''Great! Working on VAULTEX.''),
         (''bob'', ''Awesome, the crypto layer is solid.''), (''alice'', ''Let'' @ [CHR 0x27] @ ''s ship it!'')]
        alice_ratchet bob_ratchet))))))"

definition test_full_flow_with_sealed_sender :: "prims \<Rightarrow> (wire_message \<Rightarrow> string + bytes) \<Rightarrow> (bytes \<Rightarrow> string + wire_message) \<Rightarrow>
    (SealedSenderEnvelope \<Rightarrow> string + bytes) \<Rightarrow> (bytes \<Rightarrow> string + SealedSenderEnvelope) \<Rightarrow>
    bytes \<times> bytes \<Rightarrow> bytes \<times> bytes \<Rightarrow> session_draws \<Rightarrow> bool" where
  "test_full_flow_with_sealed_sender P ser_msg de_msg ser_env de_env bob_ss rnd dr =
     (sodium_init P \<and>
      setup_session P dr (\<lambda>alice_ratchet bob_ratchet alice_id _.
      let ad = as_bytes ''sealed-session''; (bob_ss_pk, bob_ss_sk) = bob_ss;
          alice_identity_hex = hex_encode P (ik_public_key alice_id) in
      unwrap_st (encrypt P (sd_nonces dr 0) (as_bytes ''Secret sealed message'') ad alice_ratchet) (\<lambda>alice_ratchet (header, ratchet_ct).
      unwrap_then (ser_msg (header, ratchet_ct)) (\<lambda>payload.
      unwrap_then (seal_envelope P ser_env rnd alice_identity_hex payload bob_ss_pk) (\<lambda>envelope_bytes.
      unwrap_then (unseal_envelope P de_env envelope_bytes bob_ss_pk bob_ss_sk) (\<lambda>(recovered_sender_hex, recovered_payload).
      recovered_sender_hex = alice_identity_hex \<and>
      unwrap_then (de_msg recovered_payload) (\<lambda>(recovered_header, recovered_ct).
      unwrap_st (decrypt P (sd_keys dr 2) recovered_header recovered_ct ad bob_ratchet) (\<lambda>bob_ratchet plaintext.
      plaintext = as_bytes ''Secret sealed message''))))))))"

fun encrypt_all :: "prims \<Rightarrow> (nat \<Rightarrow> bytes) \<Rightarrow> bytes \<Rightarrow> nat list \<Rightarrow> RatchetState \<Rightarrow>
    (MessageHeader \<times> bytes \<times> string) list \<Rightarrow> (RatchetState \<Rightarrow> (MessageHeader \<times> bytes \<times> string) list \<Rightarrow> bool) \<Rightarrow> bool" where
  "encrypt_all P nonces ad [] alice_ratchet encrypted k = k alice_ratchet encrypted"
| "encrypt_all P nonces ad (i # is) alice_ratchet encrypted k =
     (let msg = ''Message #'' @ show_nat i in
      unwrap_st (encrypt P (nonces i) (as_bytes msg) ad alice_ratchet) (\<lambda>alice_ratchet (h, ct).
      encrypt_all P nonces ad is alice_ratchet (encrypted @ [(h, ct, msg)]) k))"

fun receive_all :: "prims \<Rightarrow> key_draws \<Rightarrow> bytes \<Rightarrow> nat \<Rightarrow> nat list \<Rightarrow> (MessageHeader \<times> bytes \<times> string) list \<Rightarrow>
    RatchetState \<Rightarrow> bool" where
  "receive_all P keys ad j [] encrypted bob_ratchet = True"
| "receive_all P keys ad j (idx # receive_order) encrypted bob_ratchet =
     (idx < length encrypted \<and>
      (case encrypted ! idx of (h, ct, expected_msg) \<Rightarrow>
      unwrap_st (decrypt P (keys j) h ct ad bob_ratchet) (\<lambda>bob_ratchet pt.
      unwrap_some (from_utf8 pt) (\<lambda>received. received = expected_msg) \<and>
      receive_all P keys ad (j + 1) receive_order encrypted bob_ratchet)))"

definition test_out_of_order_delivery :: "prims \<Rightarrow> session_draws \<Rightarrow> bool" where
  "test_out_of_order_delivery P dr =
     (let ad = as_bytes ''ooo-e2e'' in
      setup_session P dr (\<lambda>alice_ratchet bob_ratchet _ _.
      encrypt_all P (sd_nonces dr) ad [0 ..< 5] alice_ratchet [] (\<lambda>alice_ratchet encrypted.
      receive_all P (sd_keys dr) ad 2 [4, 1, 0, 3, 2] encrypted bob_ratchet)))"

subsection \<open>The security audit\<close>

definition AD :: bytes where
  "AD = as_bytes ''security-audit-test''"

definition skipped_keys_deleted_after_use :: "prims \<Rightarrow> session_draws \<Rightarrow> bool" where
  "skipped_keys_deleted_after_use P dr =
     (let keys = sd_keys dr; nonces = sd_nonces dr in
      setup_session P dr (\<lambda>alice bob _ _.
      unwrap_st (encrypt P (nonces 0) (as_bytes ''msg 1'') AD alice) (\<lambda>alice (h1, ct1).
      unwrap_st (encrypt P (nonces 1) (as_bytes ''msg 2'') AD alice) (\<lambda>alice (h2, ct2).
      unwrap_st (encrypt P (nonces 2) (as_bytes ''msg 3'') AD alice) (\<lambda>alice (h3, ct3).
      unwrap_st (decrypt P (keys 2) h3 ct3 AD bob) (\<lambda>bob pt3.
      pt3 = as_bytes ''msg 3'' \<and>
      unwrap_st (decrypt P (keys 3) h1 ct1 AD bob) (\<lambda>bob pt1.
      pt1 = as_bytes ''msg 1'' \<and>
      (case decrypt P (keys 4) h1 ct1 AD bob of (bob, replay_result) \<Rightarrow>
      is_err replay_result \<and>
      unwrap_st (decrypt P (keys 5) h2 ct2 AD bob) (\<lambda>bob pt2. pt2 = as_bytes ''msg 2'')))))))))"

definition replay_attack_prevention :: "prims \<Rightarrow> session_draws \<Rightarrow> bool" where
  "replay_attack_prevention P dr =
     setup_session P dr (\<lambda>alice bob _ _.
     unwrap_st (encrypt P (sd_nonces dr 0) (as_bytes ''one time message'') AD alice) (\<lambda>alice (header, ct).
     unwrap_st (decrypt P (sd_keys dr 2) header ct AD bob) (\<lambda>bob pt.
     pt = as_bytes ''one time message'' \<and>
     (case decrypt P (sd_keys dr 3) header ct AD bob of (bob, replay) \<Rightarrow> is_err replay))))"

definition out_of_order_message_delivery :: "prims \<Rightarrow> session_draws \<Rightarrow> bool" where
  "out_of_order_message_delivery P dr =
     (let keys = sd_keys dr; nonces = sd_nonces dr in
      setup_session P dr (\<lambda>alice bob _ _.
      unwrap_st (encrypt P (nonces 0) (as_bytes ''first'') AD alice) (\<lambda>alice (h1, ct1).
      unwrap_st (encrypt P (nonces 1) (as_bytes ''second'') AD alice) (\<lambda>alice (h2, ct2).
      unwrap_st (encrypt P (nonces 2) (as_bytes ''third'') AD alice) (\<lambda>alice (h3, ct3).
      unwrap_st (encrypt P (nonces 3) (as_bytes ''fourth'') AD alice) (\<lambda>alice (h4, ct4).
      unwrap_st (encrypt P (nonces 4) (as_bytes ''fifth'') AD alice) (\<lambda>alice (h5, ct5).
      unwrap_st (decrypt P (keys 2) h5 ct5 AD bob) (\<lambda>bob pt5. pt5 = as_bytes ''fifth'' \<and>
      unwrap_st (decrypt P (keys 3) h3 ct3 AD bob) (\<lambda>bob pt3. pt3 = as_bytes ''third'' \<and>
      unwrap_st (decrypt P (keys 4) h1 ct1 AD bob) (\<lambda>bob pt1. pt1 = as_bytes ''first'' \<and>
      unwrap_st (decrypt P (keys 5) h4 ct4 AD bob) (\<lambda>bob pt4. pt4 = as_bytes ''fourth'' \<and>
      unwrap_st (decrypt P (keys 6) h2 ct2 AD bob) (\<lambda>bob pt2. pt2 = as_bytes ''second''))))))))))))"

text \<open>The loop of \<open>max_skip_enforcement\<close>, which keeps the last header and ciphertext.\<close>

fun encrypt_last :: "prims \<Rightarrow> (nat \<Rightarrow> bytes) \<Rightarrow> nat list \<Rightarrow> MessageHeader option \<Rightarrow> bytes \<Rightarrow> RatchetState \<Rightarrow>
    (MessageHeader option \<Rightarrow> bytes \<Rightarrow> bool) \<Rightarrow> bool" where
  "encrypt_last P nonces [] last_header last_ct alice k = k last_header last_ct"
| "encrypt_last P nonces (i # is) last_header last_ct alice k =
     unwrap_st (encrypt P (nonces i) (as_bytes (''msg '' @ show_nat i)) AD alice) (\<lambda>alice (h, ct).
     encrypt_last P nonces is (Some h) ct alice k)"

definition max_skip_enforcement :: "prims \<Rightarrow> session_draws \<Rightarrow> bool" where
  "max_skip_enforcement P dr =
     setup_session P dr (\<lambda>alice bob _ _.
     encrypt_last P (sd_nonces dr) [0 ..< 1002] None [] alice (\<lambda>last_header last_ct.
     unwrap_some last_header (\<lambda>header.
     (case decrypt P (sd_keys dr 2) header last_ct AD bob of (bob, result) \<Rightarrow> is_err result))))"

text \<open>
  A loop of \<open>bidirectional_multi_ratchet_conversation\<close> (and of \<open>test_forward_secrecy\<close>): \<open>s\<close> sends
  to \<open>r\<close>, and \<open>j\<close> counts the messages of the test for the draws.
\<close>

fun talk_rounds :: "prims \<Rightarrow> key_draws \<Rightarrow> (nat \<Rightarrow> bytes) \<Rightarrow> bytes \<Rightarrow> string \<Rightarrow> nat \<Rightarrow> nat list \<Rightarrow> RatchetState \<Rightarrow> RatchetState \<Rightarrow>
    (RatchetState \<Rightarrow> RatchetState \<Rightarrow> bool) \<Rightarrow> bool" where
  "talk_rounds P keys nonces ad label j [] s r k = k s r"
| "talk_rounds P keys nonces ad label j (i # is) s r k =
     (let msg = label @ show_nat i in
      unwrap_st (encrypt P (nonces j) (as_bytes msg) ad s) (\<lambda>s (h, ct).
      unwrap_st (decrypt P (keys (j + 2)) h ct ad r) (\<lambda>r pt.
      pt = as_bytes msg \<and> talk_rounds P keys nonces ad label (j + 1) is s r k)))"

definition bidirectional_multi_ratchet_conversation :: "prims \<Rightarrow> session_draws \<Rightarrow> bool" where
  "bidirectional_multi_ratchet_conversation P dr =
     (let keys = sd_keys dr; nonces = sd_nonces dr in
      setup_session P dr (\<lambda>alice bob _ _.
      talk_rounds P keys nonces AD ''alice msg '' 0 [0 ..< 3] alice bob (\<lambda>alice bob.
      talk_rounds P keys nonces AD ''bob msg '' 3 [0 ..< 2] bob alice (\<lambda>bob alice.
      talk_rounds P keys nonces AD ''alice msg '' 5 [3 ..< 6] alice bob (\<lambda>alice bob.
      unwrap_st (encrypt P (nonces 8) (as_bytes ''final bob'') AD bob) (\<lambda>bob (h, ct).
      unwrap_st (decrypt P (keys 10) h ct AD alice) (\<lambda>alice pt. pt = as_bytes ''final bob'')))))))"

subsection \<open>They pass\<close>

text \<open>What the tests draw is as \<open>sodiumoxide\<close> generates it.\<close>

definition session_draws_ok :: "prims \<Rightarrow> session_draws \<Rightarrow> bool" where
  "session_draws_ok P dr \<longleftrightarrow> sign_keypair P (fst (sd_alice dr)) (snd (sd_alice dr)) \<and>
     sign_keypair P (fst (sd_bob dr)) (snd (sd_bob dr)) \<and>
     (\<forall>i. box_keypair P (fst (sd_otpks dr i)) (snd (sd_otpks dr i))) \<and>
     box_keypair P (fst (sd_ephemeral dr)) (snd (sd_ephemeral dr)) \<and> draws_ok P (sd_keys dr) (sd_nonces dr)"

text \<open>Prekeys and X3DH between two identities, as every session of the tests starts.\<close>

lemma session_agreed:
  assumes P: "x3dh_prims_ok P" and "sign_keypair P (fst a) (snd a)" "sign_keypair P (fst b) (snd b)"
    and "box_keypair P (fst spk) (snd spk)" "\<forall>i. box_keypair P (fst (otpks i)) (snd (otpks i))"
    and eph: "box_keypair P (fst eph) (snd eph)" and count: "0 < count"
  obtains sig otpk rest r where
    "spk_generate P spk \<lparr>ik_public_key = fst b, ik_secret_key = snd b\<rparr> 1 =
       Ok \<lparr>spk_prekey_id = 1, spk_public_key = fst spk, spk_secret_key = snd spk, spk_signature = sig\<rparr>"
    "verify_detached P sig (fst spk) (fst b)" "generate_one_time_prekeys P otpks count start = Ok (otpk # rest)"
    "initiate_x3dh P eph \<lparr>ik_public_key = fst a, ik_secret_key = snd a\<rparr> \<lparr>rb_identity_key = fst b, rb_signed_prekey = fst spk,
       rb_signed_prekey_signature = sig, rb_one_time_prekey = Some (otpk_prekey_id otpk, otpk_public_key otpk)\<rparr> = Ok r"
    "accept_x3dh P \<lparr>ik_public_key = fst b, ik_secret_key = snd b\<rparr> (snd spk) (Some (otpk_secret_key otpk)) (fst a)
       (xr_ephemeral_public_key r) = Ok (xr_shared_secret r)" "length (xr_shared_secret r) = 32"
proof -
  let ?a = "\<lparr>ik_public_key = fst a, ik_secret_key = snd a\<rparr>" and ?b = "\<lparr>ik_public_key = fst b, ik_secret_key = snd b\<rparr>"
  let ?sig = "sign_detached P (fst spk) (snd b)"
  let ?spk = "\<lparr>spk_prekey_id = 1, spk_public_key = fst spk, spk_secret_key = snd spk, spk_signature = ?sig\<rparr>"
  let ?o = "\<lparr>otpk_prekey_id = start, otpk_public_key = fst (otpks 0), otpk_secret_key = snd (otpks 0)\<rparr>"
  have S: "sign_ok P" and I: "sodium_init P"
    using P by (simp_all add: x3dh_prims_ok_def)
  have ids: "identity_ok P ?a" "identity_ok P ?b" and v: "verify_detached P ?sig (fst spk) (fst b)"
    using assms(2,3) sign_verifies [OF S assms(3)] by (simp_all add: identity_ok_def)
  have spk: "spk_ok P (ik_public_key ?b) ?spk" and otpk: "\<forall>k \<in> set_option (Some ?o). otpk_ok P k"
    using assms(4,5) v by (simp_all add: spk_ok_def spk_verify_def otpk_ok_def)
  have "[0 ..< unat count] = 0 # [Suc 0 ..< unat count]"
    using count by (simp add: upt_rec [of 0] word_less_nat_alt)
  then have first: "\<exists>rest. generate_one_time_prekeys P otpks count start = Ok (?o # rest)"
    by (simp add: generate_one_time_prekeys_def otpk_loop_ok [OF I] range_u32_def otpk_generate_def split_beta I)
  obtain r where "initiate_x3dh P (fst eph, snd eph) ?a (bundle_of (ik_public_key ?b) ?spk (Some ?o)) = Ok r"
    "accept_x3dh P ?b (spk_secret_key ?spk) (map_option otpk_secret_key (Some ?o)) (ik_public_key ?a)
       (xr_ephemeral_public_key r) = Ok (xr_shared_secret r)"
    "xr_ephemeral_public_key r = fst eph" "xr_used_one_time_prekey_id r = map_option otpk_prekey_id (Some ?o)"
    "length (xr_shared_secret r) = 32"
    by (rule x3dh_agree [OF P ids spk otpk eph])
  with first v I show ?thesis
    by (auto intro!: that [of ?sig ?o _ r] simp: spk_generate_def split_beta ik_sign_def bundle_of_def)
qed

text \<open>A test runs in a pair of ratchets that share a secret, as the unit tests do.\<close>

lemma setup_rule:
  assumes P: "x3dh_prims_ok P" and d: "session_draws_ok P dr"
    and k: "\<And>ss bob_id. length ss = 32 \<Longrightarrow> ratchet_pair P (sd_keys dr) ss
      (\<lambda>a b. k a b \<lparr>ik_public_key = fst (sd_alice dr), ik_secret_key = snd (sd_alice dr)\<rparr> bob_id)"
  shows "setup_session P dr k"
proof -
  have I: "sodium_init P"
    using P by (simp add: x3dh_prims_ok_def)
  have keys: "sign_keypair P (fst (sd_alice dr)) (snd (sd_alice dr))" "sign_keypair P (fst (sd_bob dr)) (snd (sd_bob dr))"
    "box_keypair P (fst (sd_keys dr 0)) (snd (sd_keys dr 0))" "\<forall>i. box_keypair P (fst (sd_otpks dr i)) (snd (sd_otpks dr i))"
    "box_keypair P (fst (sd_ephemeral dr)) (snd (sd_ephemeral dr))" "0 < (5 :: u32)"
    using d by (simp_all add: session_draws_ok_def draws_ok_def)
  show ?thesis
    by (rule session_agreed [OF P keys, where start = 100])
      (use k in \<open>simp add: setup_session_def generated [OF I] I spk_verify_def ratchet_pair_def\<close>)
qed

text \<open>One message that is opened at once, from either side of a session.\<close>

lemma exchange_rule:
  assumes P: "ratchet_prims_ok P" and d: "draws_ok P keys nonces" and t: "talk P n U a b {} {}"
    and a: "sending_chain_key a \<noteq> None" and b: "may_send b" and n: "n < 999" and fresh: "fst (keys j) \<notin> U"
    and k: "\<And>a' b'. talk P (Suc n) (insert (fst (keys j)) U) a' b' {} {} \<Longrightarrow> sending_chain_key a' \<noteq> None \<Longrightarrow>
      sending_chain_key b' \<noteq> None \<Longrightarrow> k a' b' p"
  shows "unwrap_st (encrypt P (nonces i) p ad a) (\<lambda>a' (h, c). unwrap_st (decrypt P (keys j) h c ad b) (k a'))"
proof -
  have nonce: "length (nonces i) = 24"
    using d by (simp add: draws_ok_def)
  show ?thesis
    by (rule talk_send [OF P nonce t a], use n in simp, unfold prod.case,
        rule talk_open [OF P d talk_swap insertI1 fresh b], assumption, use n in simp, rule k)
      (use talk_swap in auto)
qed

definition spent :: "key_draws \<Rightarrow> nat \<Rightarrow> bytes set" where
  "spent keys j = (\<lambda>i. fst (keys i)) ` {..< j + 2}"

lemma spent_Suc: "spent keys (Suc j) = insert (fst (keys (j + 2))) (spent keys j)"
  by (simp add: spent_def lessThan_Suc)

lemma unspent:
  assumes "draws_ok P keys nonces" "j < 10"
  shows "fst (keys (j + 2)) \<notin> spent keys j"
proof -
  have "fst (keys (j + 2)) \<noteq> fst (keys i)" if "i < j + 2" for i
    using fresh_keys [OF assms(1), of "j + 2" i] that assms(2) by simp
  then show ?thesis
    unfolding spent_def image_iff Bex_def lessThan_iff by blast
qed

lemma spent_0: "spent keys 0 = {fst (keys 1), fst (keys 0)}"
  by (auto simp: spent_def lessThan_Suc numeral_2_eq_2)

lemma flow_rounds_pass:
  assumes P: "ratchet_prims_ok P" and d: "draws_ok P keys nonces"
  shows "talk P i (spent keys i) a b {} {} \<Longrightarrow> sending_chain_key a \<noteq> None \<Longrightarrow> sending_chain_key b \<noteq> None \<Longrightarrow>
    i + length ms \<le> 10 \<Longrightarrow> flow_rounds P keys nonces ad i ms a b"
proof (induction ms arbitrary: a b i)
  case (Cons m ms)
  obtain sender msg where m: "m = (sender, msg)"
    by (cases m)
  have i: "i < 10" "i < 999"
    using Cons.prems(4) by simp_all
  note step = exchange_rule [OF P d _ _ may_sendI i(2) unspent [OF d i(1)]]
  have rest: "flow_rounds P keys nonces ad (i + 1) ms a' b'"
    if "talk P (Suc i) (insert (fst (keys (i + 2))) (spent keys i)) a' b' {} {}"
      "sending_chain_key a' \<noteq> None" "sending_chain_key b' \<noteq> None" for a' b'
    unfolding Suc_eq_plus1 [symmetric] by (rule Cons.IH) (use that Cons.prems(4) in \<open>simp_all add: spent_Suc\<close>)
  show ?case
  proof (cases "sender = ''alice''")
    case True
    show ?thesis
      unfolding m flow_rounds.simps if_P [OF True]
      by (intro step [OF Cons.prems(1,2,3)] conjI refl rest)
  next
    case False
    show ?thesis
      unfolding m flow_rounds.simps if_not_P [OF False]
      by (intro step [OF talk_swap [OF Cons.prems(1)] Cons.prems(3,2)] conjI refl rest [OF talk_swap])
  qed
qed simp

lemma talk_rounds_rule:
  assumes P: "ratchet_prims_ok P" and d: "draws_ok P keys nonces"
  shows "talk P j (spent keys j) a b {} {} \<Longrightarrow> sending_chain_key a \<noteq> None \<Longrightarrow> sending_chain_key b \<noteq> None \<Longrightarrow>
    j + length is = j' \<Longrightarrow> j' \<le> 10 \<Longrightarrow>
    (\<And>a' b'. talk P j' (spent keys j') a' b' {} {} \<Longrightarrow> sending_chain_key a' \<noteq> None \<Longrightarrow>
       sending_chain_key b' \<noteq> None \<Longrightarrow> k a' b') \<Longrightarrow>
    talk_rounds P keys nonces ad label j is a b k"
proof (induction "is" arbitrary: j a b)
  case (Cons i "is")
  have j: "j < 10" "j < 999"
    using Cons.prems(4,5) by simp_all
  have rest: "talk_rounds P keys nonces ad label (j + 1) is a' b' k"
    if "talk P (Suc j) (insert (fst (keys (j + 2))) (spent keys j)) a' b' {} {}"
      "sending_chain_key a' \<noteq> None" "sending_chain_key b' \<noteq> None" for a' b'
    unfolding Suc_eq_plus1 [symmetric] by (rule Cons.IH) (use that Cons.prems(4-6) in \<open>simp_all add: spent_Suc\<close>)
  show ?case
    unfolding talk_rounds.simps Let_def
    by (intro exchange_rule [OF P d Cons.prems(1,2) may_sendI [OF Cons.prems(3)] j(2) unspent [OF d j(1)]] conjI refl rest)
qed simp

text \<open>The first message, which Bob waits for.\<close>

lemma first_exchange:
  assumes P: "ratchet_prims_ok P" and d: "draws_ok P keys nonces" and ss: "length ss = 32"
    and k: "\<And>a b. talk P 1 (spent keys 1) a b {} {} \<Longrightarrow> sending_chain_key a \<noteq> None \<Longrightarrow> sending_chain_key b \<noteq> None \<Longrightarrow> k a b p"
  shows "ratchet_pair P keys ss (\<lambda>a b. unwrap_st (encrypt P (nonces 0) p ad a) (\<lambda>a (h, c).
    unwrap_st (decrypt P (keys 2) h c ad b) (k a)))"
proof (rule talk_start [OF P d ss], fold spent_0)
  fix a
  assume "talk P 0 (spent keys 0) a (init_receiver ss (keys 0)) {} {}" "sending_chain_key a \<noteq> None"
    "may_send (init_receiver ss (keys 0))"
  note e = exchange_rule [OF P d this, of 2]
  have u: "fst (keys 2) \<notin> spent keys 0"
    using unspent [OF d, of 0, unfolded add_0] by simp
  show "unwrap_st (encrypt P (nonces 0) p ad a) (\<lambda>a (h, c).
      unwrap_st (decrypt P (keys 2) h c ad (init_receiver ss (keys 0))) (k a))"
    by (rule e [OF _ u], simp, rule k)
      (simp_all only: spent_Suc [of keys 0, unfolded add_0] One_nat_def not_False_eq_True)
qed

lemma hex_utf8: "hex_ok P \<Longrightarrow> utf8_valid (as_bytes (hex_encode P b))"
  by (intro utf8_valid_ascii hexdigit_bytes hex_laws(3))

text \<open>The refusal after 1001 missing messages, for \<open>max_skip_enforcement\<close>.\<close>

definition refuses :: "prims \<Rightarrow> bytes \<Rightarrow> key_draws \<Rightarrow> nat \<Rightarrow> RatchetState \<Rightarrow> bool" where
  "refuses P pk keys n b \<longleftrightarrow> (\<forall>i c ad. \<exists>b'. decrypt P (keys i) (first_header pk n) c ad b =
      (b', Err (RatchetError ''too many skipped messages'')))"

lemma gap_rule:
  assumes P: "ratchet_prims_ok P" and d: "draws_ok P keys nonces"
    and k: "\<And>a D. sends_at P D (fst (keys 1)) 0 a \<Longrightarrow> refuses P (fst (keys 1)) keys 1001 (init_receiver ss (keys 0)) \<Longrightarrow>
      k a (init_receiver ss (keys 0))"
  shows "ratchet_pair P keys ss k"
proof -
  note prims = ratchet_prims [OF P]
  let ?pk = "fst (keys 1)" and ?F = "init_receiver ss (keys 0)"
  have kp: "box_keypair P (fst (keys i)) (snd (keys i))" for i
    using d by (simp add: draws_ok_def)
  have len: "length ?pk = 32"
    by (rule keypair_lengths [OF prims(2) kp])
  obtain x where x: "dh_exchange P (snd (keys 0)) ?pk = Ok x"
    by (rule dh_exchange_agree [OF prims(1,2) kp kp]) blast
  have u: "unat (word_of_nat 1001 :: u32) = 1001"
    by (rule small_u32) simp
  have "\<exists>b'. decrypt P (keys i) (first_header ?pk 1001) c ad ?F = (b', Err (RatchetError ''too many skipped messages''))"
    for i c ad
  proof -
    obtain y where y: "dh_exchange P (snd (keys i)) ?pk = Ok y"
      by (rule dh_exchange_agree [OF prims(1,2) kp kp])
    obtain st where st: "dh_ratchet_step P (keys i) ?pk ?F = (st, Ok ())" "remote_ratchet_key st = Some ?pk"
      "receiving_chain_key st \<noteq> None" "recv_message_number st = 0"
      using dh_ratchet_step_eq [OF prims(3) _ x y, of ?F "fst (keys 0)" "fst (keys i)"]
      by (cases "keys 0") (auto simp: init_receiver_def)
    have "decrypt P (keys i) (first_header ?pk 1001) c ad ?F = receive_at P (word_of_nat 1001) c ad st"
      using decrypt_new_key [OF prims(1), of ?F "first_header ?pk 1001" "keys i" c ad] st(1) len
      by (cases "keys 0") (simp add: init_receiver_def first_header_def skip_message_keys_for_current_chain_def)
    with st receive_at_eq [OF prims(3) st(2), of _ "word_of_nat 1001" c ad] u show ?thesis
      by (auto simp: MAX_SKIP_def word_less_nat_alt)
  qed
  then have r: "refuses P ?pk keys 1001 ?F"
    by (simp add: refuses_def)
  show ?thesis
    by (rule pair_rule [OF P d], rule k, assumption, rule r)
qed

lemma encrypt_last_rule:
  assumes P: "ratchet_prims_ok P"
  shows "sends_at P D pk m a \<Longrightarrow> (\<And>c. k (Some (first_header pk (m + n))) c) \<Longrightarrow>
    encrypt_last P nonces [m ..< m + Suc n] lh lc a k"
proof (induction n arbitrary: m a lh lc)
  case 0
  then show ?case
    by (simp del: One_nat_def) (rule send_rule [OF P], assumption, simp)
next
  case (Suc n)
  have split: "[m ..< m + Suc (Suc n)] = m # [Suc m ..< Suc m + Suc n]"
    by (simp add: upt_conv_Cons)
  show ?case
    unfolding split encrypt_last.simps
    by (rule send_rule [OF P Suc.prems(1)], unfold prod.case, rule Suc.IH, assumption) (use Suc.prems(2) in simp)
qed

theorem audit_tests_pass:
  assumes X: "x3dh_prims_ok P" and P: "ratchet_prims_ok P" and d: "session_draws_ok P dr"
  shows "skipped_keys_deleted_after_use P dr" "replay_attack_prevention P dr" "out_of_order_message_delivery P dr"
    "max_skip_enforcement P dr" "bidirectional_multi_ratchet_conversation P dr"
proof -
  let ?keys = "sd_keys dr" and ?nonces = "sd_nonces dr"
  let ?pk = "fst (?keys 1)"
  have draws: "draws_ok P ?keys ?nonces"
    using d by (simp add: session_draws_ok_def)
  have nonce: "length (?nonces i) = 24" and len: "length ?pk = 32" for i
    using draws keypair_lengths(1) [OF ratchet_prims(2) [OF P]] by (auto simp: draws_ok_def)
  note begin_session = setup_rule [OF X d] and start = pair_rule [OF P draws] and send = send_rule [OF P]
    and open_first = open_first_rule [OF P nonce] and open_cached = open_cached_rule [OF P nonce]
    and refused = bob_refuses_consumed [OF P len]
  show "skipped_keys_deleted_after_use P dr"
    unfolding skipped_keys_deleted_after_use_def Let_def
    by (rule begin_session, rule start, (rule send, assumption, unfold prod.case)+, rule open_first, assumption, simp,
        rule conjI [OF refl], rule open_cached, assumption, simp, rule conjI [OF refl], subst refused, assumption,
        simp, simp, unfold prod.case, rule conjI, simp, rule open_cached, assumption) simp_all
  show "replay_attack_prevention P dr"
    unfolding replay_attack_prevention_def
    by (rule begin_session, rule start, rule send, assumption, unfold prod.case, rule open_first, assumption, simp,
        rule conjI [OF refl], subst refused, assumption) simp_all
  show "out_of_order_message_delivery P dr"
    unfolding out_of_order_message_delivery_def Let_def
    by (rule begin_session, rule start, (rule send, assumption, unfold prod.case)+, rule open_first, assumption, simp,
        (rule conjI [OF refl], rule open_cached, assumption, simp)+) simp
  show "max_skip_enforcement P dr"
  proof -
    have n: "[0 ..< 1002] = [0 ..< 0 + Suc 1001]"
      by (rule arg_cong [of _ _ "upt 0"]) simp
    show ?thesis
      unfolding max_skip_enforcement_def n
    proof (rule begin_session, rule gap_rule [OF P draws], rule encrypt_last_rule [OF P], assumption)
      fix b c
      assume "refuses P ?pk ?keys 1001 b"
      then obtain b' where "decrypt P (?keys 2) (first_header ?pk (0 + 1001)) c AD b =
          (b', Err (RatchetError ''too many skipped messages''))"
        unfolding refuses_def add_0 by blast
      then show "unwrap_some (Some (first_header ?pk (0 + 1001))) (\<lambda>header.
          case decrypt P (?keys 2) header c AD b of (bob, result) \<Rightarrow> is_err result)"
        by simp
    qed
  qed
  have n: "[0 ..< 3] = 0 # [1 ..< 3]"
    by (simp add: upt_rec)
  note rounds = talk_rounds_rule [OF P draws]
  show "bidirectional_multi_ratchet_conversation P dr"
    unfolding bidirectional_multi_ratchet_conversation_def Let_def n talk_rounds.simps add_0
    apply (rule begin_session, rule first_exchange [OF P draws], assumption, rule conjI [OF refl])
    apply (rule rounds [where j' = 3], assumption+, simp, simp)
    apply (rule rounds [where j' = 5], erule talk_swap, assumption+, simp, simp)
    apply (rule rounds [where j' = 8], erule talk_swap, assumption+, simp, simp)
    apply (rule exchange_rule [OF P draws], erule talk_swap, assumption, erule may_sendI, simp)
     apply (use unspent [OF draws, of 8] in simp)
    apply (rule refl)
    done
qed

text \<open>What \<open>test_out_of_order_delivery\<close> keeps of each message.\<close>

definition numbered :: "nat \<Rightarrow> string" where
  "numbered i = ''Message #'' @ show_nat i"

definition kept_at :: "prims \<Rightarrow> bytes \<Rightarrow> bytes \<Rightarrow> (nat \<Rightarrow> bytes) \<Rightarrow> bytes \<Rightarrow> nat \<Rightarrow> MessageHeader \<times> bytes \<times> string" where
  "kept_at P D pk nonces ad i =
     (first_header pk i, first_body P D i (nonces i) (as_bytes (numbered i)) ad, numbered i)"

lemma encrypt_all_rule:
  assumes P: "ratchet_prims_ok P"
  shows "sends_at P D pk m a \<Longrightarrow> (\<And>a'. k a' (enc @ map (kept_at P D pk nonces ad) [m ..< m + n])) \<Longrightarrow>
    encrypt_all P nonces ad [m ..< m + n] a enc k"
proof (induction n arbitrary: m a enc)
  case (Suc n)
  have split: "[m ..< m + Suc n] = m # [Suc m ..< Suc m + n]"
    by (simp add: upt_conv_Cons)
  show ?case
    unfolding split encrypt_all.simps Let_def
    by (rule send_rule [OF P Suc.prems(1)], unfold prod.case, rule Suc.IH, assumption)
      (use Suc.prems(2) in \<open>simp only: split kept_at_def numbered_def list.map append_assoc append_Cons append_Nil\<close>)
qed simp

lemma receive_all_cached:
  assumes P: "ratchet_prims_ok P" and nonces: "\<And>i. length (nonces i) = 24"
    and utf8: "\<And>i. i < n \<Longrightarrow> from_utf8 (as_bytes (numbered i)) = Some (numbered i)"
  shows "gets_at P D pk L r b \<Longrightarrow> set is \<subseteq> L \<Longrightarrow> set is \<subseteq> {..< n} \<Longrightarrow> distinct is \<Longrightarrow>
    receive_all P keys ad j is (map (kept_at P D pk nonces ad) [0 ..< n]) b"
proof (induction "is" arbitrary: L b j)
  case (Cons i "is")
  then have i: "i < n" "i \<in> L"
    by auto
  then have k: "map (kept_at P D pk nonces ad) [0 ..< n] ! i = kept_at P D pk nonces ad i" "i < length (map (kept_at P D pk nonces ad) [0 ..< n])"
    by simp_all
  show ?case
    unfolding receive_all.simps k(1) kept_at_def [of _ _ _ _ _ i] prod.case
  proof (rule conjI [OF k(2)], rule open_cached_rule [OF P nonces Cons.prems(1) i(2)])
    fix b'
    assume "gets_at P D pk (L - {i}) r b'"
    then have "receive_all P keys ad (j + 1) is (map (kept_at P D pk nonces ad) [0 ..< n]) b'"
      by (rule Cons.IH) (use Cons.prems in auto)
    then show "unwrap_some (from_utf8 (as_bytes (numbered i))) (\<lambda>received. received = numbered i) \<and>
        receive_all P keys ad (j + 1) is (map (kept_at P D pk nonces ad) [0 ..< n]) b'"
      using utf8 [OF i(1)] by simp
  qed
qed simp

lemma numbered_utf8: "i < 5 \<Longrightarrow> from_utf8 (as_bytes (numbered i)) = Some (numbered i)"
proof (intro from_utf8_as_bytes)
  assume "i < 5"
  then have "i \<in> {0, 1, 2, 3, 4}"
    by auto
  moreover have "\<forall>i \<in> {0, 1, 2, 3, 4}. utf8_valid (as_bytes (numbered i))"
    unfolding numbered_def by code_simp
  ultimately show "utf8_valid (as_bytes (numbered i))"
    by blast
qed

theorem flow_tests_pass:
  assumes X: "x3dh_prims_ok P" and P: "ratchet_prims_ok P" and d: "session_draws_ok P dr"
  shows "test_full_message_flow_alice_to_bob P dr" "test_out_of_order_delivery P dr"
proof -
  let ?keys = "sd_keys dr" and ?nonces = "sd_nonces dr"
  have draws: "draws_ok P ?keys ?nonces"
    using d by (simp add: session_draws_ok_def)
  then have nonce: "length (?nonces i) = 24" for i
    by (simp add: draws_ok_def)
  note begin_session = setup_rule [OF X d] and send = send_rule [OF P]
    and open_first = open_first_rule [OF P nonce] and open_cached = open_cached_rule [OF P nonce]
  show "test_full_message_flow_alice_to_bob P dr"
  proof -
    have "1 < (999 :: nat)" "1 < (10 :: nat)" "1 + 2 = (3 :: nat)" "Suc 1 = 2"
      by simp_all
    note reply = exchange_rule [OF P draws talk_swap _ may_sendI this(1) unspent [OF draws this(2)], unfolded this(3,4)]
    have two: "insert (fst (?keys 3)) (spent ?keys 1) = spent ?keys 2"
      using spent_Suc [of ?keys 1] \<open>1 + 2 = (3 :: nat)\<close> \<open>Suc 1 = 2\<close> by argo
    show ?thesis
      unfolding test_full_message_flow_alice_to_bob_def Let_def
      by (rule begin_session, rule first_exchange [OF P draws], assumption, rule conjI [OF refl], rule reply, assumption+,
          rule conjI [OF refl], rule flow_rounds_pass [OF P draws], fold two, rule talk_swap, assumption+) simp
  qed
  let ?enc = "\<lambda>D. map (kept_at P D (fst (?keys 1)) ?nonces (as_bytes ''ooo-e2e'')) [0 ..< 5]"
  have five: "[0 ..< 5] = [0 ..< 0 + 5]" and k: "?enc D ! 4 = kept_at P D (fst (?keys 1)) ?nonces (as_bytes ''ooo-e2e'') 4" for D
    by simp_all
  show "test_out_of_order_delivery P dr"
    unfolding test_out_of_order_delivery_def Let_def five
  proof (rule begin_session, rule pair_rule [OF P draws], rule encrypt_all_rule [OF P], assumption, fold five, unfold append_Nil)
    fix D b
    assume w: "waits P D (fst (?keys 1)) ?keys b"
    show "receive_all P ?keys (as_bytes ''ooo-e2e'') 2 [4, 1, 0, 3, 2] (?enc D) b"
      unfolding receive_all.simps(2) [of _ _ _ _ 4] k kept_at_def [of _ _ _ _ _ 4] prod.case
    proof (intro conjI, simp, rule open_first [OF w], simp, rule conjI)
      fix b'
      assume g: "gets_at P D (fst (?keys 1)) {0 ..< 4} (Suc 4) b'"
      show "receive_all P ?keys (as_bytes ''ooo-e2e'') (2 + 1) [1, 0, 3, 2] (?enc D) b'"
        by (rule receive_all_cached [OF P nonce _ g]) (auto intro: numbered_utf8)
    qed (simp add: numbered_utf8)
  qed
qed

theorem sealed_flow_test_passes:
  assumes X: "x3dh_prims_ok P" and P: "ratchet_prims_ok P" and d: "session_draws_ok P dr"
    and box: "sealedbox_ok P" "box_keypair P (fst bob_ss) (snd bob_ss)" and hex: "hex_ok P"
    and serde: "\<forall>x. \<exists>b. ser_env x = Inr b \<and> de_env b = Inr x" "\<forall>x. \<exists>b. ser_msg x = Inr b \<and> de_msg b = Inr x"
  shows "test_full_flow_with_sealed_sender P ser_msg de_msg ser_env de_env bob_ss rnd dr"
proof -
  let ?keys = "sd_keys dr" and ?ad = "as_bytes ''sealed-session''" and ?p = "as_bytes ''Secret sealed message''"
  have draws: "draws_ok P ?keys (sd_nonces dr)"
    using d by (simp add: session_draws_ok_def)
  then have nonce: "length (sd_nonces dr i) = 24" for i
    by (simp add: draws_ok_def)
  have I: "sodium_init P"
    by (rule ratchet_prims(5) [OF P])
  note wrap = envelope_delivers [OF box(1) I box(2) hex_utf8 [OF hex, of "fst (sd_alice dr)"], of ser_env de_env]
  show ?thesis
    unfolding test_full_flow_with_sealed_sender_def Let_def
  proof (rule conjI [OF I], rule setup_rule [OF X d], unfold split_beta IdentityKeyPair.select_convs,
      rule pair_rule [OF P draws], rule send_rule [OF P], assumption, unfold fst_conv snd_conv)
    fix D b
    assume w: "waits P D (fst (?keys 1)) ?keys b"
    let ?m = "(first_header (fst (?keys 1)) 0, first_body P D 0 (sd_nonces dr 0) ?p ?ad)" and ?id = "hex_encode P (fst (sd_alice dr))"
    obtain m where m: "ser_msg ?m = Inr m" "de_msg m = Inr ?m"
      using serde(2) by blast
    obtain e where e: "seal_envelope P ser_env rnd ?id m (fst bob_ss) = Ok e" "unseal_envelope P de_env e (fst bob_ss) (snd bob_ss) = Ok (?id, m)"
      by (rule wrap [where rnd = rnd and message = m]) (use serde(1) in blast)+
    have "unwrap_st (decrypt P (?keys 2) (fst ?m) (snd ?m) ?ad b) (\<lambda>b pt. pt = ?p)"
      unfolding fst_conv snd_conv by (rule open_first_rule [OF P nonce w]) simp_all
    then show "unwrap_then (ser_msg ?m) (\<lambda>payload. unwrap_then (seal_envelope P ser_env rnd ?id payload (fst bob_ss)) (\<lambda>e.
        unwrap_then (unseal_envelope P de_env e (fst bob_ss) (snd bob_ss)) (\<lambda>r. fst r = ?id \<and>
        unwrap_then (de_msg (snd r)) (\<lambda>q. unwrap_st (decrypt P (?keys 2) (fst q) (snd q) ?ad b) (\<lambda>b pt. pt = ?p)))))"
      unfolding m(1) test_simps e fst_conv snd_conv m(2) by simp
  qed
qed

text \<open>The draws exist: the witnesses' packages.\<close>

definition demo_session_draws :: session_draws where
  "demo_session_draws = \<lparr>sd_alice = (replicate 32 1, replicate 64 1), sd_bob = (replicate 32 2, replicate 64 2),
     sd_otpks = demo_keys, sd_ephemeral = demo_pair 9, sd_keys = demo_keys, sd_nonces = \<lambda>_. replicate 24 0\<rparr>"

theorem flow_tests_run:
  "test_full_message_flow_alice_to_bob demo_prims demo_session_draws" "max_skip_enforcement demo_prims demo_session_draws"
proof -
  have "session_draws_ok demo_prims demo_session_draws"
    using demo_draws_ok demo_keys_ok(1) [unfolded identity_ok_def demo_ik_def]
    by (simp add: session_draws_ok_def demo_session_draws_def demo_keys_def demo_pair_ok)
  then show "test_full_message_flow_alice_to_bob demo_prims demo_session_draws" "max_skip_enforcement demo_prims demo_session_draws"
    by (rule flow_tests_pass [OF demo_keys_ok(5) demo_ratchet_prims] audit_tests_pass [OF demo_keys_ok(5) demo_ratchet_prims])+
qed

end
