(* ===== verification/Tests_Audit.thy ===== *)
theory Tests_Audit
  imports Tests_Rejections Sealed_Delivery
begin

section \<open>Integration tests of single components\<close>

text \<open>
  The programs of \<open>tests/security_audit_tests.rs\<close> and \<open>tests/e2e_message_flow.rs\<close> that run no
  ratchet: ciphers, X3DH, safety numbers, padding, sealed sender, comparison and signed requests.
  They repeat unit tests with other inputs or other steps.  Left out is
  \<open>safety_number_asymmetric\<close>, which asserts nothing.
\<close>

subsection \<open>Ciphers\<close>

text \<open>The loop of \<open>nonce_uniqueness_across_many_encryptions\<close>; \<open>HashSet::insert\<close> says whether the element is new.\<close>

fun fresh_nonces :: "prims \<Rightarrow> (nat \<Rightarrow> bytes) \<Rightarrow> EncryptionKey \<Rightarrow> nat list \<Rightarrow> bytes set \<Rightarrow> bool" where
  "fresh_nonces P drawn key [] nonces = True"
| "fresh_nonces P drawn key (i # is) nonces =
     unwrap_then (ek_encrypt P (drawn i) key (as_bytes (''msg-'' @ show_nat i)) None) (\<lambda>(nonce, _).
     nonce \<notin> nonces \<and> fresh_nonces P drawn key is (insert nonce nonces))"

definition nonce_uniqueness_across_many_encryptions :: "prims \<Rightarrow> (nat \<Rightarrow> bytes) \<Rightarrow> bool" where
  "nonce_uniqueness_across_many_encryptions P drawn =
     (sodium_init P \<and> (let key = ek_new (replicate 32 0x42) in fresh_nonces P drawn key [0 ..< 10000] {}))"

definition aead_detects_ciphertext_tampering :: "prims \<Rightarrow> bytes \<Rightarrow> bool" where
  "aead_detects_ciphertext_tampering P nonce =
     (sodium_init P \<and> (let key = replicate 32 0x42 in
      unwrap_then (aes_encrypt P nonce key (as_bytes ''sensitive data'') None) (\<lambda>(nonce, ct).
      let last = length ct - 1; ct = ct[last := xor (ct ! last) 0x01];
          result = aes_decrypt P key nonce ct None in is_err result)))"

definition aead_rejects_truncated_ciphertext :: "prims \<Rightarrow> bytes \<Rightarrow> bool" where
  "aead_rejects_truncated_ciphertext P nonce =
     (sodium_init P \<and> (let key = replicate 32 0x42 in
      unwrap_then (aes_encrypt P nonce key (as_bytes ''hello'') None) (\<lambda>(nonce, ct).
      let truncated = take (length ct div 2) ct; result = aes_decrypt P key nonce truncated None in is_err result)))"

definition aead_wrong_key_fails :: "prims \<Rightarrow> bytes \<Rightarrow> bool" where
  "aead_wrong_key_fails P nonce =
     (sodium_init P \<and> (let key1 = replicate 32 0x42; key2 = replicate 32 0x43 in
      unwrap_then (aes_encrypt P nonce key1 (as_bytes ''secret'') None) (\<lambda>(nonce, ct).
      let result = aes_decrypt P key2 nonce ct None in is_err result)))"

definition encrypt_decrypt_empty_message :: "prims \<Rightarrow> bytes \<Rightarrow> bool" where
  "encrypt_decrypt_empty_message P nonce =
     (sodium_init P \<and> (let key = replicate 32 0x42 in
      unwrap_then (aes_encrypt P nonce key [] None) (\<lambda>(nonce, ct).
      unwrap_then (aes_decrypt P key nonce ct None) (\<lambda>pt. pt = []))))"

definition encrypt_decrypt_large_message :: "prims \<Rightarrow> bytes \<Rightarrow> bool" where
  "encrypt_decrypt_large_message P nonce =
     (sodium_init P \<and> (let key = replicate 32 0x42; large_msg = replicate 1000000 0xAB in
      unwrap_then (aes_encrypt P nonce key large_msg None) (\<lambda>(nonce, ct).
      unwrap_then (aes_decrypt P key nonce ct None) (\<lambda>pt. pt = large_msg))))"

lemma fresh_nonces_iff:
  assumes "slices_ok P" "sodium_init P" "length (ek_key key) = 32" "distinct is"
  shows "fresh_nonces P drawn key is seen \<longleftrightarrow> inj_on drawn (set is) \<and> drawn ` set is \<inter> seen = {}"
  using assms(4)
proof (induction "is" arbitrary: seen)
  case (Cons i "is")
  then show ?case
    by (auto simp: ek_encrypt_def aes_encrypt_eq [OF assms(1-3)])
qed simp

theorem nonce_test:
  assumes "slices_ok P" "sodium_init P"
  shows "nonce_uniqueness_across_many_encryptions P drawn \<longleftrightarrow> inj_on drawn {0 ..< 10000}"
proof -
  have k: "length (ek_key (ek_new (replicate 32 0x42))) = 32"
    by (simp add: ek_new_def)
  show ?thesis
    unfolding nonce_uniqueness_across_many_encryptions_def Let_def fresh_nonces_iff [OF assms k distinct_upt]
    by (simp add: assms(2))
qed

text \<open>The two operations on the fixed keys of the tests.\<close>

lemma fixed_key:
  assumes "slices_ok P"
  shows "sodium_init P \<Longrightarrow> aes_encrypt P nonce (replicate 32 b) p ad = Ok (nonce, aead_seal P p ad nonce (replicate 32 b))"
    and "length nonce = 24 \<Longrightarrow> aes_decrypt P (replicate 32 b) nonce c ad = ok_or (aead_open P c ad nonce (replicate 32 b)) DecryptionFailed"
  by (simp_all add: aes_encrypt_eq [OF assms] aes_decrypt_eq [OF assms])

lemma is_err_ok_or [simp]: "is_err (ok_or x e) \<longleftrightarrow> x = None"
  by (cases x) simp_all

theorem aead_audit_tests_pass:
  assumes "slices_ok P" "aead_ok P" "aead_unique P" "sodium_init P" "length nonce = 24"
  shows "encrypt_decrypt_empty_message P nonce" "encrypt_decrypt_large_message P nonce"
    "aead_rejects_truncated_ciphertext P nonce"
proof -
  note enc = fixed_key(1) [OF assms(1,4)] and dec = fixed_key(2) [OF assms(1,5)]
  note laws = aead_laws [OF assms(2)]
  show "encrypt_decrypt_empty_message P nonce"
    by (simp add: encrypt_decrypt_empty_message_def enc dec laws assms(4))
  show "encrypt_decrypt_large_message P nonce"
    unfolding encrypt_decrypt_large_message_def Let_def enc test_simps prod.case dec laws by (simp add: assms(4))
  let ?c = "aead_seal P (as_bytes ''hello'') None nonce (replicate 32 0x42)"
  have "aead_open P (take (length ?c div 2) ?c) None nonce (replicate 32 0x42) = None"
  proof (rule ccontr)
    assume "\<not> ?thesis"
    then obtain m where "take (length ?c div 2) ?c = aead_seal P m None nonce (replicate 32 0x42)"
      using assms(3) unfolding aead_unique_def by blast
    from arg_cong [where f = length, OF this] show False
      by (simp add: laws)
  qed
  then show "aead_rejects_truncated_ciphertext P nonce"
    by (simp add: aead_rejects_truncated_ciphertext_def enc dec Let_def assms(4))
qed

theorem aead_audit_rejections:
  assumes "slices_ok P" "sodium_init P" "length nonce = 24"
  shows "aead_wrong_key_fails P nonce \<longleftrightarrow>
      aead_open P (aead_seal P (as_bytes ''secret'') None nonce (replicate 32 0x42)) None nonce (replicate 32 0x43) = None"
    and "aead_detects_ciphertext_tampering P nonce \<longleftrightarrow>
      (let c = aead_seal P (as_bytes ''sensitive data'') None nonce (replicate 32 0x42) in
       aead_open P (c[length c - 1 := xor (c ! (length c - 1)) 0x01]) None nonce (replicate 32 0x42) = None)"
proof -
  note enc = fixed_key(1) [OF assms(1,2)] and dec = fixed_key(2) [OF assms(1,3)]
  show "aead_wrong_key_fails P nonce \<longleftrightarrow>
      aead_open P (aead_seal P (as_bytes ''secret'') None nonce (replicate 32 0x42)) None nonce (replicate 32 0x43) = None"
    unfolding aead_wrong_key_fails_def Let_def enc test_simps prod.case dec is_err_ok_or by (simp add: assms(2))
  show "aead_detects_ciphertext_tampering P nonce \<longleftrightarrow>
      (let c = aead_seal P (as_bytes ''sensitive data'') None nonce (replicate 32 0x42) in
       aead_open P (c[length c - 1 := xor (c ! (length c - 1)) 0x01]) None nonce (replicate 32 0x42) = None)"
    unfolding aead_detects_ciphertext_tampering_def Let_def enc test_simps prod.case dec is_err_ok_or by (simp add: assms(2))
qed

subsection \<open>X3DH, safety numbers and padding\<close>

definition x3dh_rejects_invalid_prekey_signature :: "prims \<Rightarrow> bytes \<times> bytes \<Rightarrow> bytes \<times> bytes \<Rightarrow> bytes \<times> bytes \<Rightarrow> bytes \<times> bytes \<Rightarrow> bool" where
  "x3dh_rejects_invalid_prekey_signature P drawn_a drawn_b drawn_spk ephemeral =
     (sodium_init P \<and>
      unwrap_then (ik_generate P drawn_a) (\<lambda>alice.
      unwrap_then (ik_generate P drawn_b) (\<lambda>bob.
      unwrap_then (spk_generate P drawn_spk bob 1) (\<lambda>bob_spk.
      let bad_sig_bytes = spk_signature bob_spk; bad_sig_bytes = bad_sig_bytes[0 := xor (bad_sig_bytes ! 0) 0xFF] in
      unwrap_some (signature_from_bytes P bad_sig_bytes) (\<lambda>bad_sig.
      let bad_bundle = \<lparr>rb_identity_key = ik_public_key bob, rb_signed_prekey = spk_public_key bob_spk,
                        rb_signed_prekey_signature = bad_sig, rb_one_time_prekey = None\<rparr>;
          result = initiate_x3dh P ephemeral alice bad_bundle in
      is_err result)))))"

definition x3dh_without_one_time_prekey :: "prims \<Rightarrow> bytes \<times> bytes \<Rightarrow> bytes \<times> bytes \<Rightarrow> bytes \<times> bytes \<Rightarrow> bytes \<times> bytes \<Rightarrow> bool" where
  "x3dh_without_one_time_prekey P drawn_a drawn_b drawn_spk ephemeral =
     (sodium_init P \<and>
      unwrap_then (ik_generate P drawn_a) (\<lambda>alice.
      unwrap_then (ik_generate P drawn_b) (\<lambda>bob.
      unwrap_then (spk_generate P drawn_spk bob 1) (\<lambda>bob_spk.
      let bundle = \<lparr>rb_identity_key = ik_public_key bob, rb_signed_prekey = spk_public_key bob_spk,
                    rb_signed_prekey_signature = spk_signature bob_spk, rb_one_time_prekey = None\<rparr> in
      unwrap_then (initiate_x3dh P ephemeral alice bundle) (\<lambda>init.
      unwrap_then (accept_x3dh P bob (spk_secret_key bob_spk) None (ik_public_key alice) (xr_ephemeral_public_key init))
        (\<lambda>bob_secret. xr_shared_secret init = bob_secret))))))"

definition safety_number_deterministic :: "prims \<Rightarrow> bytes \<times> bytes \<Rightarrow> bytes \<times> bytes \<Rightarrow> bool" where
  "safety_number_deterministic P drawn_a drawn_b =
     (sodium_init P \<and>
      unwrap_then (ik_generate P drawn_a) (\<lambda>alice.
      unwrap_then (ik_generate P drawn_b) (\<lambda>bob.
      let sn1 = generate_safety_number P (ik_public_key alice) (ik_public_key bob);
          sn2 = generate_safety_number P (ik_public_key alice) (ik_public_key bob) in sn1 = sn2)))"

definition safety_number_unique_per_pair :: "prims \<Rightarrow> bytes \<times> bytes \<Rightarrow> bytes \<times> bytes \<Rightarrow> bytes \<times> bytes \<Rightarrow> bool" where
  "safety_number_unique_per_pair P drawn_a drawn_b drawn_c =
     (sodium_init P \<and>
      unwrap_then (ik_generate P drawn_a) (\<lambda>a.
      unwrap_then (ik_generate P drawn_b) (\<lambda>b.
      unwrap_then (ik_generate P drawn_c) (\<lambda>c.
      let sn_ab = generate_safety_number P (ik_public_key a) (ik_public_key b);
          sn_ac = generate_safety_number P (ik_public_key a) (ik_public_key c) in sn_ab \<noteq> sn_ac))))"

definition padding_prevents_length_fingerprinting :: "random \<Rightarrow> random \<Rightarrow> bool" where
  "padding_prevents_length_fingerprinting rnd1 rnd2 =
     (let msg_short = as_bytes ''hi''; msg_medium = as_bytes ''hello world, this is a test'' in
      unwrap_then (pad_message rnd1 msg_short) (\<lambda>padded_short.
      unwrap_then (pad_message rnd2 msg_medium) (\<lambda>padded_medium.
      length msg_short \<le> length padded_short \<and> length msg_medium \<le> length padded_medium \<and>
      unwrap_then (unpad_message padded_short) (\<lambda>recovered_short.
      unwrap_then (unpad_message padded_medium) (\<lambda>recovered_medium.
      recovered_short = msg_short \<and> recovered_medium = msg_medium)))))"

theorem x3dh_audit_tests:
  assumes P: "x3dh_prims_ok P" and "sign_keypair P (fst a) (snd a)" "sign_keypair P (fst b) (snd b)"
    and "box_keypair P (fst spk) (snd spk)" "box_keypair P (fst eph) (snd eph)"
  shows "x3dh_without_one_time_prekey P a b spk eph"
    and "x3dh_rejects_invalid_prekey_signature P a b spk eph \<longleftrightarrow>
      (let s = sign_detached P (fst spk) (snd b) in
       case signature_from_bytes P (s[0 := xor (s ! 0) 0xFF]) of
         None \<Rightarrow> False
       | Some s' \<Rightarrow> \<not> verify_detached P s' (fst spk) (fst b))"
proof -
  have S: "sign_ok P" and I: "sodium_init P"
    using P by (simp_all add: x3dh_prims_ok_def)
  note gen = generated [OF I] and init = initiate_with_signature [OF assms]
  obtain r where "initiate_x3dh P eph \<lparr>ik_public_key = fst a, ik_secret_key = snd a\<rparr>
       \<lparr>rb_identity_key = fst b, rb_signed_prekey = fst spk, rb_signed_prekey_signature = sign_detached P (fst spk) (snd b),
        rb_one_time_prekey = None\<rparr> = Ok r"
    "accept_x3dh P \<lparr>ik_public_key = fst b, ik_secret_key = snd b\<rparr> (snd spk) None (fst a) (xr_ephemeral_public_key r) =
       Ok (xr_shared_secret r)"
    using init(1) [of "sign_detached P (fst spk) (snd b)"] sign_verifies [OF S assms(3)] by blast
  then show "x3dh_without_one_time_prekey P a b spk eph"
    by (simp add: x3dh_without_one_time_prekey_def gen I spk_generate_def split_beta ik_sign_def)
  show "x3dh_rejects_invalid_prekey_signature P a b spk eph \<longleftrightarrow>
      (let s = sign_detached P (fst spk) (snd b) in
       case signature_from_bytes P (s[0 := xor (s ! 0) 0xFF]) of
         None \<Rightarrow> False
       | Some s' \<Rightarrow> \<not> verify_detached P s' (fst spk) (fst b))"
    by (simp add: x3dh_rejects_invalid_prekey_signature_def gen I spk_generate_def split_beta ik_sign_def Let_def init(2)
        unwrap_some_def split: option.split)
qed

theorem number_and_padding_audit_tests:
  assumes "sodium_init P"
  shows "safety_number_deterministic P a b" "padding_prevents_length_fingerprinting rnd1 rnd2"
    and "safety_number_unique_per_pair P a b c \<longleftrightarrow>
      generate_safety_number P (fst a) (fst b) \<noteq> generate_safety_number P (fst a) (fst c)"
proof -
  note gen = generated [OF assms]
  show "safety_number_deterministic P a b"
    by (simp add: safety_number_deterministic_def gen assms)
  show "safety_number_unique_per_pair P a b c \<longleftrightarrow>
      generate_safety_number P (fst a) (fst b) \<noteq> generate_safety_number P (fst a) (fst c)"
    by (simp add: safety_number_unique_per_pair_def gen assms)
  have pads: "\<exists>q. pad_message rnd p = Ok q \<and> length p \<le> length q \<and> unpad_message q = Ok p" for rnd p
    by (intro exI [of _ "p @ padding_of rnd (length p)"] conjI pad_message_eq unpad_pad_message [OF pad_message_eq]) simp
  obtain q1 q2 where "pad_message rnd1 (as_bytes ''hi'') = Ok q1" "length (as_bytes ''hi'') \<le> length q1"
    "unpad_message q1 = Ok (as_bytes ''hi'')"
    "pad_message rnd2 (as_bytes ''hello world, this is a test'') = Ok q2" "length (as_bytes ''hello world, this is a test'') \<le> length q2"
    "unpad_message q2 = Ok (as_bytes ''hello world, this is a test'')"
    using pads by blast
  then show "padding_prevents_length_fingerprinting rnd1 rnd2"
    by (simp only: padding_prevents_length_fingerprinting_def Let_def test_simps simp_thms)
qed

subsection \<open>Sealed sender, comparison and signed requests\<close>

definition sealed_sender_round_trip :: "prims \<Rightarrow> (SealedSenderEnvelope \<Rightarrow> string + bytes) \<Rightarrow>
    (bytes \<Rightarrow> string + SealedSenderEnvelope) \<Rightarrow> bytes \<times> bytes \<Rightarrow> bytes \<times> bytes \<Rightarrow> bool" where
  "sealed_sender_round_trip P ser de drawn rnd =
     (sodium_init P \<and>
      (case drawn of (recipient_pk, recipient_sk) \<Rightarrow>
       let sender_id = ''alice_identity_key_hex_1234567890abcdef''; inner_payload = as_bytes ''encrypted message payload'' in
       unwrap_then (seal_envelope P ser rnd sender_id inner_payload recipient_pk) (\<lambda>envelope_bytes.
       unwrap_then (unseal_envelope P de envelope_bytes recipient_pk recipient_sk) (\<lambda>(recovered_sender, recovered_payload).
       recovered_sender = sender_id \<and> recovered_payload = inner_payload))))"

definition sealed_sender_wrong_key_fails :: "prims \<Rightarrow> (SealedSenderEnvelope \<Rightarrow> string + bytes) \<Rightarrow>
    (bytes \<Rightarrow> string + SealedSenderEnvelope) \<Rightarrow> bytes \<times> bytes \<Rightarrow> bytes \<times> bytes \<Rightarrow> bytes \<times> bytes \<Rightarrow> bool" where
  "sealed_sender_wrong_key_fails P ser de drawn drawn2 rnd =
     (sodium_init P \<and>
      (case (drawn, drawn2) of ((recipient_pk, _), (_, wrong_sk)) \<Rightarrow>
       unwrap_then (seal_envelope P ser rnd ''sender_id'' (as_bytes ''payload'') recipient_pk) (\<lambda>envelope_bytes.
       let result = unseal_envelope P de envelope_bytes recipient_pk wrong_sk in is_err result)))"

definition constant_time_eq_equal :: "prims \<Rightarrow> bool" where
  "constant_time_eq_equal P =
     (let a = as_bytes ''identical_value_1234567890''; b = as_bytes ''identical_value_1234567890'' in constant_time_eq P a b)"

definition constant_time_eq_unequal :: "prims \<Rightarrow> bool" where
  "constant_time_eq_unequal P =
     (let a = as_bytes ''value_a_1234567890abcdef''; b = as_bytes ''value_b_1234567890abcdef'' in \<not> constant_time_eq P a b)"

definition constant_time_eq_different_lengths :: "prims \<Rightarrow> bool" where
  "constant_time_eq_different_lengths P =
     (let a = as_bytes ''short''; b = as_bytes ''much longer value'' in \<not> constant_time_eq P a b)"

definition test_auth_request_signing :: "prims \<Rightarrow> bytes \<times> bytes \<Rightarrow> bytes \<times> bytes \<Rightarrow> bool" where
  "test_auth_request_signing P drawn drawn_other =
     unwrap_then (ik_generate P drawn) (\<lambda>ident.
     let account_id = ''e2e-test-account-uuid''; timestamp = 1700000000; verb = ''POST''; path = ''/api/v1/messages/send'';
         q = [CHR 0x22]; body = as_bytes (''{'' @ q @ ''to'' @ q @ '':'' @ q @ ''bob'' @ q @ '','' @ q @ ''msg'' @ q @ '':'' @ q @ ''hello'' @ q @ ''}'');
         header = sign_request_with_timestamp P ident account_id verb path body timestamp;
         message = build_signed_message P verb path timestamp body in
     unwrap_some (hex_decode P (ah_signature_hex header)) (\<lambda>sig_bytes.
     unwrap_some (signature_from_bytes P sig_bytes) (\<lambda>signature.
     ik_verify P (ik_public_key ident) message signature \<and>
     (let tampered_message = build_signed_message P verb path timestamp (as_bytes ''tampered body'') in
      \<not> ik_verify P (ik_public_key ident) tampered_message signature) \<and>
     (let wrong_path_message = build_signed_message P verb ''/api/v1/evil'' timestamp body in
      \<not> ik_verify P (ik_public_key ident) wrong_path_message signature) \<and>
     (let replay_message = build_signed_message P verb path (timestamp + 1) body in
      \<not> ik_verify P (ik_public_key ident) replay_message signature) \<and>
     unwrap_then (ik_generate P drawn_other) (\<lambda>other_identity.
     \<not> ik_verify P (ik_public_key other_identity) message signature))))"

theorem comparison_audit_tests_pass:
  assumes "memcmp_ok P"
  shows "constant_time_eq_equal P" "constant_time_eq_unequal P" "constant_time_eq_different_lengths P"
proof -
  have eq: "constant_time_eq P a b \<longleftrightarrow> a = b" for a b
    using assms by (auto simp: constant_time_eq_def memcmp_ok_def)
  show "constant_time_eq_equal P"
    by (simp only: constant_time_eq_equal_def Let_def eq)
  show "constant_time_eq_unequal P"
    unfolding constant_time_eq_unequal_def Let_def eq by code_simp
  show "constant_time_eq_different_lengths P"
    unfolding constant_time_eq_different_lengths_def Let_def eq by code_simp
qed

theorem envelope_audit_tests:
  assumes "sodium_init P" and serde: "\<forall>x. \<exists>b. ser x = Inr b \<and> de b = Inr x"
  shows "sealedbox_ok P \<Longrightarrow> box_keypair P (fst r) (snd r) \<Longrightarrow> sealed_sender_round_trip P ser de r rnd"
    and "sealed_sender_wrong_key_fails P ser de r w rnd \<longleftrightarrow>
    (case sealedbox_open P (sealedbox_seal P (fst rnd) (as_bytes ''sender_id'') (fst r)) (fst r) (snd w) of
       None \<Rightarrow> True
     | Some s \<Rightarrow> \<not> utf8_valid s \<or> sealedbox_open P (sealedbox_seal P (snd rnd) (as_bytes ''payload'') (fst r)) (fst r) (snd w) = None)"
proof -
  let ?e = "\<lambda>s m. \<lparr>env_encrypted_sender = sealedbox_seal P (fst rnd) (as_bytes s) (fst r),
    env_encrypted_message = sealedbox_seal P (snd rnd) (as_bytes m) (fst r)\<rparr>"
  have seal: "seal_envelope P ser rnd s (as_bytes m) (fst r) = map_err SealedSenderError (ser (?e s m))" for s m
    using assms(1) by (simp add: seal_envelope_def)
  show "sealed_sender_round_trip P ser de r rnd" if box: "sealedbox_ok P" "box_keypair P (fst r) (snd r)"
  proof -
    have utf8: "utf8_valid (as_bytes ''alice_identity_key_hex_1234567890abcdef'')"
      by code_simp
    have "\<exists>b. ser x = Inr b \<and> de b = Inr x" for x
      using serde by blast
    obtain e where "seal_envelope P ser rnd ''alice_identity_key_hex_1234567890abcdef'' (as_bytes ''encrypted message payload'') (fst r) = Ok e"
      "unseal_envelope P de e (fst r) (snd r) = Ok (''alice_identity_key_hex_1234567890abcdef'', as_bytes ''encrypted message payload'')"
      by (rule envelope_delivers [OF box(1) assms(1) box(2) utf8, of ser de rnd]) (use serde in blast)+
    then show ?thesis
      using assms(1) by (simp add: sealed_sender_round_trip_def split_beta Let_def)
  qed
  obtain b where b: "ser (?e ''sender_id'' ''payload'') = Inr b" "de b = Inr (?e ''sender_id'' ''payload'')"
    using serde by blast
  then have "sealed_sender_wrong_key_fails P ser de r w rnd \<longleftrightarrow> is_err (unseal_envelope P de b (fst r) (snd w))"
    using assms(1) by (simp add: sealed_sender_wrong_key_fails_def seal split_beta)
  then show "sealed_sender_wrong_key_fails P ser de r w rnd \<longleftrightarrow>
    (case sealedbox_open P (sealedbox_seal P (fst rnd) (as_bytes ''sender_id'') (fst r)) (fst r) (snd w) of
       None \<Rightarrow> True
     | Some s \<Rightarrow> \<not> utf8_valid s \<or> sealedbox_open P (sealedbox_seal P (snd rnd) (as_bytes ''payload'') (fst r)) (fst r) (snd w) = None)"
    by (cases "sealedbox_open P (env_encrypted_sender (?e ''sender_id'' ''payload'')) (fst r) (snd w)";
        cases "sealedbox_open P (env_encrypted_message (?e ''sender_id'' ''payload'')) (fst r) (snd w)")
      (simp_all add: unseal_envelope_def b(2) from_utf8_def)
qed

text \<open>
  The signature of the request on the canonical message of the request verifies; the test passes
  exactly when it verifies on none of the three other messages, and not under the other key.
\<close>

theorem auth_request_test:
  fixes body
  defines "body \<equiv> as_bytes (''{'' @ [CHR 0x22] @ ''to'' @ [CHR 0x22] @ '':'' @ [CHR 0x22] @ ''bob'' @ [CHR 0x22] @ '','' @
    [CHR 0x22] @ ''msg'' @ [CHR 0x22] @ '':'' @ [CHR 0x22] @ ''hello'' @ [CHR 0x22] @ ''}'')"
  assumes "hex_ok P" "sign_ok P" "sodium_init P" "sign_keypair P (fst a) (snd a)"
  shows "test_auth_request_signing P a b \<longleftrightarrow>
    (let m = build_signed_message P ''POST'' ''/api/v1/messages/send'' 1700000000 body; s = sign_detached P m (snd a) in
     \<not> verify_detached P s (build_signed_message P ''POST'' ''/api/v1/messages/send'' 1700000000 (as_bytes ''tampered body'')) (fst a) \<and>
     \<not> verify_detached P s (build_signed_message P ''POST'' ''/api/v1/evil'' 1700000000 body) (fst a) \<and>
     \<not> verify_detached P s (build_signed_message P ''POST'' ''/api/v1/messages/send'' 1700000001 body) (fst a) \<and>
     \<not> verify_detached P s m (fst b))"
proof -
  have t: "(1700000000 :: u64) + 1 = 1700000001"
    by simp
  show ?thesis
    unfolding test_auth_request_signing_def generated [OF assms(4)] Let_def body_def [symmetric] sign_request_with_timestamp_def
      AuthHeader.select_convs IdentityKeyPair.select_convs ik_sign_def ik_verify_def hex_laws(1) [OF assms(2)]
      signature_laws(2) [OF assms(3)] test_simps t
    by (simp add: sign_verifies [OF assms(3,5)])
qed

end
