(* ===== verification/Tests_Sessions.thy ===== *)
theory Tests_Sessions
  imports Tests_Flow Ratchet_Persistence
begin

section \<open>Integration tests of several sessions\<close>

text \<open>
  The programs of \<open>tests/security_audit_tests.rs\<close> and \<open>tests/e2e_message_flow.rs\<close> that compare
  ciphertexts, restore a saved ratchet or hand a message to another session.  Ciphertexts differ
  when their nonces do.  That another session refuses comes down to the cipher: it opens the
  message with a key of its own root, and the test passes exactly when that fails.
\<close>

subsection \<open>Many messages, two states, two sessions\<close>

text \<open>The two loops of \<open>double_ratchet_unique_message_keys\<close>.\<close>

fun encrypt_same :: "prims \<Rightarrow> (nat \<Rightarrow> bytes) \<Rightarrow> bytes \<Rightarrow> nat list \<Rightarrow> RatchetState \<Rightarrow> (MessageHeader \<times> bytes) list \<Rightarrow>
    ((MessageHeader \<times> bytes) list \<Rightarrow> bool) \<Rightarrow> bool" where
  "encrypt_same P nonces plaintext [] alice headers_and_cts k = k headers_and_cts"
| "encrypt_same P nonces plaintext (i # is) alice headers_and_cts k =
     unwrap_st (encrypt P (nonces i) plaintext AD alice) (\<lambda>alice (header, ct).
     encrypt_same P nonces plaintext is alice (headers_and_cts @ [(header, ct)]) k)"

fun decrypt_same :: "prims \<Rightarrow> key_draws \<Rightarrow> bytes \<Rightarrow> nat \<Rightarrow> (MessageHeader \<times> bytes) list \<Rightarrow> RatchetState \<Rightarrow> bool" where
  "decrypt_same P keys plaintext j [] bob = True"
| "decrypt_same P keys plaintext j ((header, ct) # headers_and_cts) bob =
     unwrap_st (decrypt P (keys j) header ct AD bob) (\<lambda>bob pt.
     pt = plaintext \<and> decrypt_same P keys plaintext (j + 1) headers_and_cts bob)"

definition double_ratchet_unique_message_keys :: "prims \<Rightarrow> session_draws \<Rightarrow> bool" where
  "double_ratchet_unique_message_keys P dr =
     setup_session P dr (\<lambda>alice bob _ _.
     let plaintext = as_bytes ''identical message content'' in
     encrypt_same P (sd_nonces dr) plaintext [0 ..< 50] alice [] (\<lambda>headers_and_cts.
     let unique = set (map snd headers_and_cts) in
     card unique = 50 \<and> decrypt_same P (sd_keys dr) plaintext 2 headers_and_cts bob))"

definition forward_secrecy_after_dh_ratchet :: "prims \<Rightarrow> (RatchetStateSer \<Rightarrow> string + bytes) \<Rightarrow>
    (bytes \<Rightarrow> string + RatchetStateSer) \<Rightarrow> (skip_map \<Rightarrow> entries) \<Rightarrow> session_draws \<Rightarrow> bool" where
  "forward_secrecy_after_dh_ratchet P ser de order dr =
     (let keys = sd_keys dr; nonces = sd_nonces dr in
      setup_session P dr (\<lambda>alice bob _ _.
      unwrap_st (encrypt P (nonces 0) (as_bytes ''before ratchet'') AD alice) (\<lambda>alice (h1, ct1).
      unwrap_st (decrypt P (keys 2) h1 ct1 AD bob) (\<lambda>bob _.
      unwrap_st (encrypt P (nonces 1) (as_bytes ''bob reply'') AD bob) (\<lambda>bob (h_bob, ct_bob).
      unwrap_st (decrypt P (keys 3) h_bob ct_bob AD alice) (\<lambda>alice _.
      unwrap_then (ratchet_to_bytes ser (order (skipped_keys alice)) alice) (\<lambda>alice_state_before.
      unwrap_st (encrypt P (nonces 2) (as_bytes ''after ratchet'') AD alice) (\<lambda>alice (h2, ct2).
      unwrap_then (ratchet_from_bytes P de alice_state_before) (\<lambda>alice_old.
      unwrap_st (encrypt P (nonces 3) (as_bytes ''from old state'') AD alice_old) (\<lambda>alice_old (_, ct_old).
      ct2 \<noteq> ct_old \<and>
      unwrap_st (decrypt P (keys 4) h2 ct2 AD bob) (\<lambda>bob pt2. pt2 = as_bytes ''after ratchet'')))))))))))"

definition cross_session_isolation :: "prims \<Rightarrow> session_draws \<Rightarrow> session_draws \<Rightarrow> bool" where
  "cross_session_isolation P dr1 dr2 =
     setup_session P dr1 (\<lambda>alice1 _ _ _. setup_session P dr2 (\<lambda>alice2 _ _ _.
     unwrap_st (encrypt P (sd_nonces dr1 0) (as_bytes ''same message'') AD alice1) (\<lambda>alice1 (_, ct1).
     unwrap_st (encrypt P (sd_nonces dr2 0) (as_bytes ''same message'') AD alice2) (\<lambda>alice2 (_, ct2). ct1 \<noteq> ct2))))"

subsection \<open>They pass when nonces differ\<close>

definition sealed_at :: "prims \<Rightarrow> bytes \<Rightarrow> bytes \<Rightarrow> (nat \<Rightarrow> bytes) \<Rightarrow> bytes \<Rightarrow> nat \<Rightarrow> MessageHeader \<times> bytes" where
  "sealed_at P D pk nonces p i = (first_header pk i, first_body P D i (nonces i) p AD)"

lemma encrypt_same_rule:
  assumes P: "ratchet_prims_ok P"
  shows "sends_at P D pk m a \<Longrightarrow> k (enc @ map (sealed_at P D pk nonces p) [m ..< m + n]) \<Longrightarrow>
    encrypt_same P nonces p [m ..< m + n] a enc k"
proof (induction n arbitrary: m a enc)
  case (Suc n)
  have split: "[m ..< m + Suc n] = m # [Suc m ..< Suc m + n]"
    by (simp add: upt_conv_Cons)
  show ?case
    unfolding split encrypt_same.simps
    by (rule send_rule [OF P Suc.prems(1)], unfold prod.case, rule Suc.IH, assumption)
      (use Suc.prems(2) in \<open>simp only: split sealed_at_def list.map append_assoc append_Cons append_Nil\<close>)
qed simp

lemma decrypt_same_rule:
  assumes P: "ratchet_prims_ok P" and pk: "length pk = 32" and nonces: "\<And>i. length (nonces i) = 24"
  shows "gets_at P D pk {} m b \<Longrightarrow> m + n \<le> 1000 \<Longrightarrow>
    decrypt_same P keys p j (map (sealed_at P D pk nonces p) [m ..< m + n]) b"
proof (induction n arbitrary: m b j)
  case (Suc n)
  have split: "[m ..< m + Suc n] = m # [Suc m ..< Suc m + n]"
    by (simp add: upt_conv_Cons)
  show ?case
    unfolding split list.map sealed_at_def [of _ _ _ _ _ m] decrypt_same.simps
  proof (rule open_next_rule [OF P pk nonces Suc.prems(1)])
    fix b'
    assume "gets_at P D pk ({} \<union> {m ..< m}) (Suc m) b'"
    then show "p = p \<and> decrypt_same P keys p (j + 1) (map (sealed_at P D pk nonces p) [Suc m ..< Suc m + n]) b'"
      using Suc.IH [of "Suc m" b'] Suc.prems(2) by simp
  qed (use Suc.prems(2) in simp_all)
qed simp

lemma bodies_differ:
  assumes "inj_on nonces {..< n}" "\<And>i. length (nonces i) = 24"
  shows "card (set (map snd (map (sealed_at P D pk nonces p) [0 ..< n]))) = n"
proof -
  have "inj_on (\<lambda>i. first_body P D i (nonces i) p AD) {..< n}"
  proof (rule inj_onI)
    fix i j
    assume ij: "i \<in> {..< n}" "j \<in> {..< n}" "first_body P D i (nonces i) p AD = first_body P D j (nonces j) p AD"
    then have "nonces i = nonces j"
      using assms(2) by (simp add: first_body_def)
    with ij show "i = j"
      by (intro inj_onD [OF assms(1)])
  qed
  then show ?thesis
    by (simp add: sealed_at_def comp_def atLeast0LessThan card_image)
qed

text \<open>What a ciphertext of \<open>encrypt\<close> starts with, and how a fact about the result of a call enters a rule.\<close>

lemma encrypt_nonce: "encrypt P nonce p ad st = (st', Ok r) \<Longrightarrow> length nonce = 24 \<Longrightarrow> take 24 (snd r) = nonce"
  by (auto simp: encrypt_def aes_encrypt_def and_then_st_def Let_def and_then_eq_Inr split: prod.splits sum.splits if_splits)

lemma unwrap_with:
  assumes "unwrap_st m (\<lambda>s r. Q s r \<longrightarrow> k s r)" "\<And>s r. m = (s, Ok r) \<Longrightarrow> Q s r"
  shows "unwrap_st m k"
  using assms by (cases m; cases "snd m") simp_all

theorem repeated_message_test:
  assumes X: "x3dh_prims_ok P" and P: "ratchet_prims_ok P" and d: "session_draws_ok P dr"
    and inj: "inj_on (sd_nonces dr) {..< 50}"
  shows "double_ratchet_unique_message_keys P dr"
proof -
  let ?keys = "sd_keys dr" and ?p = "as_bytes ''identical message content''"
  have draws: "draws_ok P ?keys (sd_nonces dr)"
    using d by (simp add: session_draws_ok_def)
  have nonce: "length (sd_nonces dr i) = 24" and len: "length (fst (?keys 1)) = 32" for i
    using draws keypair_lengths(1) [OF ratchet_prims(2) [OF P]] by (auto simp: draws_ok_def)
  have n: "[0 ..< 50] = [0 ..< 0 + 50]" and all: "[0 ..< 50] = 0 # [1 ..< 1 + 49]"
    by (simp_all add: upt_rec [of 0])
  let ?enc = "\<lambda>D. map (sealed_at P D (fst (?keys 1)) (sd_nonces dr) ?p) [0 ..< 50]"
  have dec: "decrypt_same P ?keys ?p 2 (?enc D) b" if w: "waits P D (fst (?keys 1)) ?keys b" for D b
    unfolding all list.map sealed_at_def [of _ _ _ _ _ 0] decrypt_same.simps
    by (rule open_first_rule [OF P nonce w], simp, rule conjI [OF refl], rule decrypt_same_rule [OF P len nonce]) simp_all
  show ?thesis
    unfolding double_ratchet_unique_message_keys_def Let_def n
    by (rule setup_rule [OF X d], rule pair_rule [OF P draws], rule encrypt_same_rule [OF P], assumption, fold n, unfold append_Nil)
      (intro conjI bodies_differ [OF inj nonce] dec)
qed

lemma talk_restored:
  assumes P: "ratchet_prims_ok P" and t: "talk P n U a b A B"
    and serde: "\<forall>x. \<exists>b. ser x = Inr b \<and> de b = Inr x" and order: "\<forall>m. finite (dom m) \<longrightarrow> iterates m (order m)"
  obtains bs where "ratchet_to_bytes ser (order (skipped_keys a)) a = Ok bs" "ratchet_from_bytes P de bs = Ok a"
proof -
  have wf: "ratchet_wf P a"
    using t by (simp add: talk_def)
  obtain bs where bs: "ser (ratchet_to_ser (order (skipped_keys a)) a) = Inr bs" "de bs = Inr (ratchet_to_ser (order (skipped_keys a)) a)"
    using serde by blast
  have "iterates (skipped_keys a) (order (skipped_keys a))"
    using order ratchet_wf_dests(1) [OF wf] by blast
  from ratchet_restore [where de = de, OF ratchet_prims(1,2) [OF P] wf this bs(2)] bs(1) show ?thesis
    by (intro that [of bs]) (simp_all add: ratchet_to_bytes_def)
qed

theorem restored_state_test:
  assumes X: "x3dh_prims_ok P" and P: "ratchet_prims_ok P" and d: "session_draws_ok P dr"
    and serde: "\<forall>x. \<exists>b. ser x = Inr b \<and> de b = Inr x" "\<forall>m. finite (dom m) \<longrightarrow> iterates m (order m)"
    and differ: "sd_nonces dr 2 \<noteq> sd_nonces dr 3"
  shows "forward_secrecy_after_dh_ratchet P ser de order dr"
proof -
  let ?keys = "sd_keys dr" and ?nonces = "sd_nonces dr"
  have draws: "draws_ok P ?keys ?nonces"
    using d by (simp add: session_draws_ok_def)
  then have nonce: "length (?nonces i) = 24" for i
    by (simp add: draws_ok_def)
  note send = talk_send [OF P nonce]
  have last: "unwrap_st (encrypt P (?nonces 2) p AD a) (\<lambda>alice (h2, ct2).
      unwrap_st (encrypt P (?nonces 3) q AD a) (\<lambda>alice_old (_, ct_old).
      ct2 \<noteq> ct_old \<and> unwrap_st (decrypt P (?keys 4) h2 ct2 AD b) (\<lambda>bob pt2. pt2 = p)))"
    if t: "talk P 2 U a b {} {}" "sending_chain_key a \<noteq> None" "may_send b" "fst (?keys 4) \<notin> U" for a b U p q
  proof (rule unwrap_with [where Q = "\<lambda>_ (_, c). take 24 c = ?nonces 2"], rule send [OF t(1,2)], simp, unfold prod.case, rule impI)
    fix a' h c
    assume t': "talk P (Suc 2) U a' b {} (insert \<lparr>p_header = h, p_body = c, p_ad = AD, p_plain = p\<rparr> {})" and c: "take 24 c = ?nonces 2"
    show "unwrap_st (encrypt P (?nonces 3) q AD a) (\<lambda>alice_old (_, ct_old).
        c \<noteq> ct_old \<and> unwrap_st (decrypt P (?keys 4) h c AD b) (\<lambda>bob pt2. pt2 = p))"
    proof (rule unwrap_with [where Q = "\<lambda>_ (_, c). take 24 c = ?nonces 3"], rule send [OF t(1,2)], simp, unfold prod.case, rule impI)
      fix h' c'
      assume "take 24 c' = ?nonces 3"
      with c differ have "c \<noteq> c'"
        by auto
      moreover have "unwrap_st (decrypt P (?keys 4) h c AD b) (\<lambda>bob pt2. pt2 = p)"
        by (rule talk_open [OF P draws talk_swap [OF t'] insertI1 t(4,3)]) simp_all
      ultimately show "c \<noteq> c' \<and> unwrap_st (decrypt P (?keys 4) h c AD b) (\<lambda>bob pt2. pt2 = p)"
        by blast
    qed (auto simp: split_beta dest!: encrypt_nonce [OF _ nonce])
  qed (auto simp: split_beta dest!: encrypt_nonce [OF _ nonce])
  have "1 < (999 :: nat)" "1 < (10 :: nat)" "1 + 2 = (3 :: nat)" "Suc 1 = 2"
    by simp_all
  note reply = exchange_rule [OF P draws talk_swap _ may_sendI this(1) unspent [OF draws this(2)], unfolded this(3,4)]
  have two: "insert (fst (?keys 3)) (spent ?keys 1) = spent ?keys 2" and four: "fst (?keys 4) \<notin> spent ?keys 2"
    using spent_Suc [of ?keys 1] unspent [OF draws, of 2] by (simp_all add: numeral_eq_Suc)
  show ?thesis
    unfolding forward_secrecy_after_dh_ratchet_def Let_def
  proof (rule setup_rule [OF X d], rule first_exchange [OF P draws], assumption, rule reply, assumption+)
    fix b a
    assume t: "talk P 2 (insert (fst (?keys 3)) (spent ?keys 1)) b a {} {}" "sending_chain_key b \<noteq> None" "sending_chain_key a \<noteq> None"
    obtain bs where "ratchet_to_bytes ser (order (skipped_keys a)) a = Ok bs" "ratchet_from_bytes P de bs = Ok a"
      by (rule talk_restored [OF P talk_swap [OF t(1)] serde])
    with last [OF talk_swap [OF t(1)] t(3) may_sendI [OF t(2)] four [folded two]] show "unwrap_then (ratchet_to_bytes ser (order (skipped_keys a)) a) (\<lambda>bs.
        unwrap_st (encrypt P (?nonces 2) (as_bytes ''after ratchet'') AD a) (\<lambda>alice (h2, ct2).
        unwrap_then (ratchet_from_bytes P de bs) (\<lambda>alice_old.
        unwrap_st (encrypt P (?nonces 3) (as_bytes ''from old state'') AD alice_old) (\<lambda>alice_old (_, ct_old).
        ct2 \<noteq> ct_old \<and> unwrap_st (decrypt P (?keys 4) h2 ct2 AD b) (\<lambda>bob pt2. pt2 = as_bytes ''after ratchet'')))))"
      by simp
  qed
qed

theorem cross_session_test:
  assumes X: "x3dh_prims_ok P" and P: "ratchet_prims_ok P" and d: "session_draws_ok P dr1" "session_draws_ok P dr2"
    and differ: "sd_nonces dr1 0 \<noteq> sd_nonces dr2 0"
  shows "cross_session_isolation P dr1 dr2"
proof -
  have draws: "draws_ok P (sd_keys dr1) (sd_nonces dr1)" "draws_ok P (sd_keys dr2) (sd_nonces dr2)"
    using d by (simp_all add: session_draws_ok_def)
  then have nonce: "length (sd_nonces dr1 0) = 24" "length (sd_nonces dr2 0) = 24"
    by (simp_all add: draws_ok_def)
  show ?thesis
    unfolding cross_session_isolation_def
    by (rule setup_rule [OF X d(1)], rule pair_rule [OF P draws(1)], rule setup_rule [OF X d(2)], rule pair_rule [OF P draws(2)],
        rule send_rule [OF P], assumption, unfold prod.case, rule send_rule [OF P], assumption, unfold prod.case)
      (use nonce differ in \<open>simp add: first_body_def\<close>)
qed

subsection \<open>Messages of another session\<close>

text \<open>
  The key that a receiver derives for a header with a ratchet key it has never seen: a ratchet
  step from its own root, then the position that the header names.
\<close>

definition foreign_key :: "prims \<Rightarrow> RatchetState \<Rightarrow> MessageHeader \<Rightarrow> bytes" where
  "foreign_key P st h =
     (case sending_keypair st of
        None \<Rightarrow> []
      | Some (_, sk) \<Rightarrow>
         (case dh_exchange P sk (h_ratchet_public_key h) of
            Inl e \<Rightarrow> []
          | Inr x \<Rightarrow> msg_key_at P (root_chain P (root_key st) x) (unat (h_message_number h))))"

definition opens_foreign :: "prims \<Rightarrow> RatchetState \<Rightarrow> MessageHeader \<Rightarrow> bytes \<Rightarrow> bytes \<Rightarrow> bool" where
  "opens_foreign P st h c ad \<longleftrightarrow> aead_open P (drop 24 c) (Some ad) (take 24 c) (foreign_key P st h) \<noteq> None"

lemma session_sides:
  assumes "session_inv P s"
  obtains C k where "party_ok P (drawn_keys s) C (ends s X)" "sending_keypair (ends s X) = Some k" "fst k \<in> drawn_keys s"
proof -
  obtain Y C kl kf where "in_sync P (drawn_keys s) C kl kf (ends s Y) (ends s (peer Y)) (net s Y) (net s (peer Y))"
    using assms by (auto simp: session_inv_def)
  then show ?thesis
    by (cases "X = Y") (auto simp: in_sync_def linked_def intro: that)
qed

text \<open>What a sender of a small session puts into the header and the body.\<close>

definition sent_by :: "prims \<Rightarrow> bytes set \<Rightarrow> nat \<Rightarrow> MessageHeader \<times> bytes \<Rightarrow> bool" where
  "sent_by P U n m \<longleftrightarrow> (\<exists>sk. box_keypair P (h_ratchet_public_key (fst m)) sk) \<and> h_ratchet_public_key (fst m) \<in> U \<and>
     unat (h_previous_chain_length (fst m)) \<le> n \<and> unat (h_message_number (fst m)) \<le> n \<and> 24 \<le> length (snd m)"

lemma talk_sent_by:
  assumes P: "ratchet_prims_ok P" and t: "talk P n U a b A B" and nonce: "length nonce = 24"
    and e: "encrypt P nonce p ad a = (a', Ok m)"
  shows "sent_by P U n m"
proof -
  obtain s X where s: "small_session P n s" "ends s X = a" "drawn_keys s = U" and wf: "ratchet_wf P a"
    using t by (auto simp: talk_def)
  obtain pk sk where k: "sending_keypair a = Some (pk, sk)" "box_keypair P pk sk"
    using wf by (auto simp: ratchet_wf_def)
  have inv: "session_inv P s"
    using s(1) by (simp add: small_session_def)
  have "pk \<in> U"
    by (rule session_sides [OF inv, of X]) (use k(1) s(2,3) in auto)
  moreover obtain ck where "sending_chain_key a = Some ck"
    using e by (cases "sending_chain_key a") (simp_all add: encrypt_def)
  note encrypt_eq [OF P this k(1), of nonce p ad]
  moreover have "unat (send_message_number a) \<le> n" "unat (previous_chain_length a) \<le> n"
    using s(1,2) by (auto simp: small_session_def)
  ultimately show ?thesis
    using e k(2) nonce by (auto simp: sent_by_def)
qed

text \<open>Another session's message: it is refused exactly when the cipher refuses it under that key.\<close>

lemma foreign_refused:
  assumes P: "ratchet_prims_ok P" and t: "talk P n U a b A B" and m: "sent_by P V k (h, c)" "k \<le> 1000" "U \<inter> V = {}"
    and drawn: "box_keypair P (fst d) (snd d)"
  shows "is_err (snd (decrypt P d h c ad a)) \<longleftrightarrow> \<not> opens_foreign P a h c ad"
proof -
  note prims = ratchet_prims [OF P]
  let ?k = "h_ratchet_public_key h"
  obtain s X where s: "session_inv P s" "ends s X = a" "drawn_keys s = U" and wf: "ratchet_wf P a"
    using t by (auto simp: talk_def small_session_def)
  obtain sk' where h: "box_keypair P ?k sk'" "?k \<notin> U" "unat (h_previous_chain_length h) \<le> 1000" "unat (h_message_number h) \<le> 1000" "24 \<le> length c"
    using m by (auto simp: sent_by_def)
  obtain C where C: "party_ok P U C a"
    by (rule session_sides [OF s(1), of X, unfolded s(2,3)])
  have free: "skipped_keys a (?k, n) = None" "remote_ratchet_key a \<noteq> Some ?k" for n
    using C h(2) unfolding party_ok_def by (metis not_Some_eq, metis)
  have len: "length ?k = 32"
    by (rule keypair_lengths [OF prims(2) h(1)])
  obtain pk sk where own: "sending_keypair a = Some (pk, sk)" "box_keypair P pk sk"
    using wf by (auto simp: ratchet_wf_def)
  obtain x where x: "dh_exchange P sk ?k = Ok x"
    by (rule dh_exchange_agree [OF prims(1,2) own(2) h(1)])
  obtain y where y: "dh_exchange P (snd d) ?k = Ok y"
    by (rule dh_exchange_agree [OF prims(1,2) drawn h(1)])
  obtain st1 where 1: "skip_message_keys_for_current_chain P (h_previous_chain_length h) a = (st1, Ok ())"
    "root_key st1 = root_key a" "sending_keypair st1 = sending_keypair a"
  proof (cases "receiving_chain_key a")
    case None
    then show ?thesis
      by (intro that [of a]) (simp_all add: skip_message_keys_for_current_chain_def)
  next
    case (Some ck)
    with wf obtain r where r: "remote_ratchet_key a = Some r"
      by (auto simp: ratchet_wf_def)
    have "\<not> MAX_SKIP < h_previous_chain_length h - recv_message_number a" if "\<not> h_previous_chain_length h < recv_message_number a"
      using h(3) that by (simp add: MAX_SKIP_def word_less_nat_alt unat_sub word_le_nat_alt not_less)
    then show ?thesis
      using skip_for_current_chain_eq [OF prims(3) r Some, of "h_previous_chain_length h"]
      by (cases "h_previous_chain_length h < recv_message_number a") (auto intro: that)
  qed
  obtain st2 where 2: "dh_ratchet_step P d ?k st1 = (st2, Ok ())" "remote_ratchet_key st2 = Some ?k"
    "receiving_chain_key st2 = Some (root_chain P (root_key a) x)" "recv_message_number st2 = 0"
    using dh_ratchet_step_eq [OF prims(3) _ x y, of st1 pk "fst d"] 1(2,3) own(1) by simp
  have "\<not> MAX_SKIP < h_message_number h"
    using h(4) by (simp add: MAX_SKIP_def word_less_nat_alt)
  then have "snd (decrypt P d h c ad a) = decrypt_with_key P (foreign_key P a h) c ad"
    using decrypt_new_key [OF prims(1) free(2) len free(1), of d c ad] 1(1) 2 own(1) x receive_at_eq [OF prims(3) 2(2,3), of "h_message_number h" c ad]
    by (simp add: foreign_key_def)
  moreover have "length (foreign_key P a h) = 32"
    using own(1) x by (simp add: foreign_key_def length_msg_key_at [OF prims(3)])
  ultimately show ?thesis
    using h(5) by (cases "aead_open P (drop 24 c) (Some ad) (take 24 c) (foreign_key P a h)")
      (simp_all add: decrypt_with_key_def opens_foreign_def aes_decrypt_eq [OF prims(1)])
qed

subsection \<open>Three users\<close>

text \<open>
  The two blocks of \<open>test_multi_party_sessions\<close> that start a session of Alice with a peer.  The
  program runs up to the attempts on the wrong messages, and goes on in \<open>k\<close>.
\<close>

definition pair_session :: "prims \<Rightarrow> session_draws \<Rightarrow> IdentityKeyPair \<Rightarrow> IdentityKeyPair \<Rightarrow> u32 \<Rightarrow>
    (RatchetState \<Rightarrow> RatchetState \<Rightarrow> bool) \<Rightarrow> bool" where
  "pair_session P dr alice_id peer_id starting_id k =
     unwrap_then (spk_generate P (sd_keys dr 0) peer_id 1) (\<lambda>spk.
     unwrap_then (generate_one_time_prekeys P (sd_otpks dr) 1 starting_id) (\<lambda>otpks.
     let bundle = \<lparr>rb_identity_key = ik_public_key peer_id, rb_signed_prekey = spk_public_key spk,
                   rb_signed_prekey_signature = spk_signature spk,
                   rb_one_time_prekey = Some (otpk_prekey_id (otpks ! 0), otpk_public_key (otpks ! 0))\<rparr> in
     unwrap_then (initiate_x3dh P (sd_ephemeral dr) alice_id bundle) (\<lambda>init.
     unwrap_then (accept_x3dh P peer_id (spk_secret_key spk) (Some (otpk_secret_key (otpks ! 0)))
         (ik_public_key alice_id) (xr_ephemeral_public_key init)) (\<lambda>secret.
     xr_shared_secret init = secret \<and>
     unwrap_then (init_sender P (sd_keys dr 1) (xr_shared_secret init) (spk_public_key spk)) (\<lambda>alice_ratchet.
     let peer_ratchet = init_receiver secret (spk_public_key spk, spk_secret_key spk) in
     k alice_ratchet peer_ratchet)))))"

definition multi_party :: "prims \<Rightarrow> session_draws \<Rightarrow> session_draws \<Rightarrow>
    (RatchetState \<Rightarrow> RatchetState \<Rightarrow> MessageHeader \<times> bytes \<Rightarrow> MessageHeader \<times> bytes \<Rightarrow> bool) \<Rightarrow> bool" where
  "multi_party P drb drc k =
     (sodium_init P \<and>
      unwrap_then (ik_generate P (sd_alice drb)) (\<lambda>alice_id.
      unwrap_then (ik_generate P (sd_bob drb)) (\<lambda>bob_id.
      unwrap_then (ik_generate P (sd_bob drc)) (\<lambda>carol_id.
      pair_session P drb alice_id bob_id 200 (\<lambda>alice_bob_ratchet bob_alice_ratchet.
      pair_session P drc alice_id carol_id 300 (\<lambda>alice_carol_ratchet carol_alice_ratchet.
      let ad = as_bytes ''multi-party'' in
      unwrap_st (encrypt P (sd_nonces drb 0) (as_bytes ''Secret for Bob only'') ad alice_bob_ratchet) (\<lambda>alice_bob_ratchet (h_bob, ct_bob).
      unwrap_st (encrypt P (sd_nonces drc 0) (as_bytes ''Secret for Carol only'') ad alice_carol_ratchet) (\<lambda>alice_carol_ratchet (h_carol, ct_carol).
      unwrap_st (decrypt P (sd_keys drb 2) h_bob ct_bob ad bob_alice_ratchet) (\<lambda>bob_alice_ratchet pt_bob.
      pt_bob = as_bytes ''Secret for Bob only'' \<and>
      unwrap_st (decrypt P (sd_keys drc 2) h_carol ct_carol ad carol_alice_ratchet) (\<lambda>carol_alice_ratchet pt_carol.
      pt_carol = as_bytes ''Secret for Carol only'' \<and>
      k bob_alice_ratchet carol_alice_ratchet (h_bob, ct_bob) (h_carol, ct_carol)))))))))))"

definition test_multi_party_sessions :: "prims \<Rightarrow> session_draws \<Rightarrow> session_draws \<Rightarrow> bool" where
  "test_multi_party_sessions P drb drc =
     multi_party P drb drc (\<lambda>bob_alice_ratchet carol_alice_ratchet (h_bob, ct_bob) (h_carol, ct_carol).
     let ad = as_bytes ''multi-party'' in
     (case decrypt P (sd_keys drb 3) h_carol ct_carol ad bob_alice_ratchet of (bob_alice_ratchet, bob_tries_carol) \<Rightarrow>
      is_err bob_tries_carol \<and>
      (case decrypt P (sd_keys drc 3) h_bob ct_bob ad carol_alice_ratchet of (carol_alice_ratchet, carol_tries_bob) \<Rightarrow>
       is_err carol_tries_bob)))"

definition fresh_draws :: "session_draws \<Rightarrow> session_draws \<Rightarrow> bool" where
  "fresh_draws dr1 dr2 \<longleftrightarrow> range (fst \<circ> sd_keys dr1) \<inter> range (fst \<circ> sd_keys dr2) = {}"

lemma pair_session_rule:
  assumes P: "x3dh_prims_ok P" and d: "session_draws_ok P dr" and a: "sign_keypair P (fst a) (snd a)"
    and k: "\<And>ss. length ss = 32 \<Longrightarrow> ratchet_pair P (sd_keys dr) ss k"
  shows "pair_session P dr \<lparr>ik_public_key = fst a, ik_secret_key = snd a\<rparr>
    \<lparr>ik_public_key = fst (sd_bob dr), ik_secret_key = snd (sd_bob dr)\<rparr> start k"
proof -
  have keys: "sign_keypair P (fst (sd_bob dr)) (snd (sd_bob dr))" "box_keypair P (fst (sd_keys dr 0)) (snd (sd_keys dr 0))"
    "\<forall>i. box_keypair P (fst (sd_otpks dr i)) (snd (sd_otpks dr i))"
    "box_keypair P (fst (sd_ephemeral dr)) (snd (sd_ephemeral dr))" "0 < (1 :: u32)"
    using d by (simp_all add: session_draws_ok_def draws_ok_def)
  show ?thesis
    by (rule session_agreed [OF P a keys, where start = start])
      (use k in \<open>simp add: pair_session_def ratchet_pair_def\<close>)
qed

lemma multi_party_cong:
  "multi_party P drb drc (\<lambda>b c m n. k b c m n \<longleftrightarrow> k' b c m n) \<Longrightarrow> multi_party P drb drc k \<longleftrightarrow> multi_party P drb drc k'"
  unfolding multi_party_def pair_session_def Let_def unwrap_st_def unwrap_then_def
  by (auto split: sum.splits prod.splits)

lemma talk_send_by:
  assumes P: "ratchet_prims_ok P" and nonce: "length nonce = 24" and t: "talk P n U a b A B"
    and a: "sending_chain_key a \<noteq> None" and n: "n < 1000"
    and k: "\<And>a' h c. talk P (Suc n) U a' b A (insert \<lparr>p_header = h, p_body = c, p_ad = ad, p_plain = p\<rparr> B) \<Longrightarrow>
      sending_chain_key a' \<noteq> None \<Longrightarrow> sent_by P U n (h, c) \<Longrightarrow> k a' (h, c)"
  shows "unwrap_st (encrypt P nonce p ad a) k"
proof (rule unwrap_with [where Q = "\<lambda>_. sent_by P U n"])
  show "unwrap_st (encrypt P nonce p ad a) (\<lambda>s m. sent_by P U n m \<longrightarrow> k s m)"
    by (rule talk_send [OF P nonce t a n], rule impI, rule k)
qed (rule talk_sent_by [OF P t nonce])

theorem multi_party_test:
  assumes X: "x3dh_prims_ok P" and P: "ratchet_prims_ok P" and d: "session_draws_ok P drb" "session_draws_ok P drc"
    and fresh: "fresh_draws drb drc"
  shows "test_multi_party_sessions P drb drc \<longleftrightarrow>
    multi_party P drb drc (\<lambda>bob carol (h_bob, ct_bob) (h_carol, ct_carol).
      \<not> opens_foreign P bob h_carol ct_carol (as_bytes ''multi-party'') \<and>
      \<not> opens_foreign P carol h_bob ct_bob (as_bytes ''multi-party''))"
    and "multi_party P drb drc (\<lambda>_ _ _ _. True)"
proof -
  let ?ad = "as_bytes ''multi-party''" and ?b = "sd_keys drb" and ?c = "sd_keys drc"
  let ?U = "\<lambda>keys. {fst (keys 1), fst (keys (0 :: nat))}" and ?V = "\<lambda>keys. {fst (keys 2), fst (keys 1), fst (keys (0 :: nat))}"
  have draws: "draws_ok P ?b (sd_nonces drb)" "draws_ok P ?c (sd_nonces drc)" and id: "sign_keypair P (fst (sd_alice drb)) (snd (sd_alice drb))"
    using d by (simp_all add: session_draws_ok_def)
  then have nonce: "length (sd_nonces drb 0) = 24" "length (sd_nonces drc 0) = 24"
    and kp: "box_keypair P (fst (?b i)) (snd (?b i))" "box_keypair P (fst (?c i)) (snd (?c i))" for i
    by (simp_all add: draws_ok_def)
  have I: "sodium_init P"
    by (rule ratchet_prims(5) [OF P])
  have new: "fst (?b 2) \<notin> ?U ?b" "fst (?c 2) \<notin> ?U ?c"
    using fresh_keys [OF draws(1)] fresh_keys [OF draws(2)] by simp_all
  have "fst (?b i) \<noteq> fst (?c j)" for i j
    using fresh unfolding fresh_draws_def by (metis comp_apply disjoint_iff rangeI)
  then have apart: "?V ?b \<inter> ?U ?c = {}" "?V ?c \<inter> ?U ?b = {}"
    by (simp_all add: eq_commute [of "fst (?c _)"])
  have reach: "multi_party P drb drc k"
    if k: "\<And>b c mb mc B C B' C'. talk P 1 (?V ?b) b B {} {} \<Longrightarrow> talk P 1 (?V ?c) c C {} {} \<Longrightarrow>
        sent_by P (?U ?b) 0 mb \<Longrightarrow> sent_by P (?U ?c) 0 mc \<Longrightarrow> k b c mb mc" for k
    unfolding multi_party_def generated [OF I] Let_def
    apply (rule conjI [OF I], rule pair_session_rule [OF X d(1) id], rule talk_start [OF P draws(1)], assumption)
    apply (rule pair_session_rule [OF X d(2) id], rule talk_start [OF P draws(2)], assumption)
    apply (rule talk_send_by [OF P nonce(1)], assumption, assumption, simp, unfold prod.case)
    apply (rule talk_send_by [OF P nonce(2)], assumption, assumption, simp, unfold prod.case)
    apply (rule talk_open [OF P draws(1)], erule talk_swap, rule insertI1, rule new(1), assumption, simp, rule conjI [OF refl])
    apply (rule talk_open [OF P draws(2)], erule talk_swap, rule insertI1, rule new(2), assumption, simp, rule conjI [OF refl])
    apply (rule k)
    apply simp_all
    done
  show "multi_party P drb drc (\<lambda>_ _ _ _. True)"
    by (rule reach) (rule TrueI)
  show "test_multi_party_sessions P drb drc \<longleftrightarrow> multi_party P drb drc (\<lambda>bob carol (h_bob, ct_bob) (h_carol, ct_carol).
      \<not> opens_foreign P bob h_carol ct_carol ?ad \<and> \<not> opens_foreign P carol h_bob ct_bob ?ad)"
    unfolding test_multi_party_sessions_def Let_def
  proof (rule multi_party_cong, rule reach)
    fix b c mb mc B C
    assume t: "talk P 1 (?V ?b) b B {} {}" "talk P 1 (?V ?c) c C {} {}" and m: "sent_by P (?U ?b) 0 mb" "sent_by P (?U ?c) 0 mc"
    note refused = foreign_refused [OF P t(1) _ _ apart(1) kp(1) [of 3], of 0] foreign_refused [OF P t(2) _ _ apart(2) kp(2) [of 3], of 0]
    show "(case mb of (h_bob, ct_bob) \<Rightarrow> \<lambda>(h_carol, ct_carol).
        case decrypt P (?b 3) h_carol ct_carol ?ad b of (b, r) \<Rightarrow> is_err r \<and>
        (case decrypt P (?c 3) h_bob ct_bob ?ad c of (c, r') \<Rightarrow> is_err r')) mc \<longleftrightarrow>
      (case mb of (h_bob, ct_bob) \<Rightarrow> \<lambda>(h_carol, ct_carol).
        \<not> opens_foreign P b h_carol ct_carol ?ad \<and> \<not> opens_foreign P c h_bob ct_bob ?ad) mc"
      using m by (cases mb; cases mc) (simp add: split_beta refused)
  qed
qed

subsection \<open>An old session and a new one\<close>

text \<open>\<open>test_forward_secrecy\<close> up to the messages that cross between the sessions.\<close>

definition forward_sessions :: "prims \<Rightarrow> session_draws \<Rightarrow> session_draws \<Rightarrow>
    (RatchetState \<Rightarrow> RatchetState \<Rightarrow> RatchetState \<Rightarrow> RatchetState \<Rightarrow> bool) \<Rightarrow> bool" where
  "forward_sessions P dr dr2 k =
     (let keys = sd_keys dr; nonces = sd_nonces dr; ad = as_bytes ''forward-secrecy'';
          keys2 = sd_keys dr2; nonces2 = sd_nonces dr2; ad2 = as_bytes ''forward-secrecy'' in
      setup_session P dr (\<lambda>alice_ratchet bob_ratchet _ _.
      talk_rounds P keys nonces ad ''Alice msg '' 0 [0 ..< 3] alice_ratchet bob_ratchet (\<lambda>alice_ratchet bob_ratchet.
      unwrap_st (encrypt P (nonces 3) (as_bytes ''Bob reply'') ad bob_ratchet) (\<lambda>bob_ratchet (h_reply, ct_reply).
      unwrap_st (decrypt P (keys 5) h_reply ct_reply ad alice_ratchet) (\<lambda>alice_ratchet pt_reply.
      pt_reply = as_bytes ''Bob reply'' \<and>
      setup_session P dr2 (\<lambda>alice2 bob2 _ _.
      talk_rounds P keys2 nonces2 ad2 ''New session msg '' 0 [0 ..< 5] alice2 bob2 (\<lambda>alice2 bob2.
      unwrap_st (encrypt P (nonces2 5) (as_bytes ''reply'') ad2 bob2) (\<lambda>bob2 (h_r, ct_r).
      unwrap_st (decrypt P (keys2 7) h_r ct_r ad2 alice2) (\<lambda>alice2 _.
      unwrap_st (encrypt P (nonces2 6) (as_bytes ''post-ratchet-advance'') ad2 alice2) (\<lambda>alice2 (h_new, ct_new).
      unwrap_st (decrypt P (keys2 8) h_new ct_new ad2 bob2) (\<lambda>bob2 pt_new.
      pt_new = as_bytes ''post-ratchet-advance'' \<and> k alice_ratchet bob_ratchet alice2 bob2)))))))))))"

definition test_forward_secrecy :: "prims \<Rightarrow> session_draws \<Rightarrow> session_draws \<Rightarrow> bool" where
  "test_forward_secrecy P dr dr2 =
     forward_sessions P dr dr2 (\<lambda>alice_ratchet bob_ratchet alice2 bob2.
     let ad = as_bytes ''forward-secrecy''; ad2 = as_bytes ''forward-secrecy'' in
     unwrap_st (encrypt P (sd_nonces dr2 7) (as_bytes ''only for new session'') ad2 alice2) (\<lambda>alice2 (h_from_new, ct_from_new).
     (case decrypt P (sd_keys dr 6) h_from_new ct_from_new ad bob_ratchet of (bob_ratchet, old_bob_result) \<Rightarrow>
      is_err old_bob_result \<and>
      unwrap_st (encrypt P (sd_nonces dr 4) (as_bytes ''from old session'') ad alice_ratchet) (\<lambda>alice_ratchet (h_from_old, ct_from_old).
      (case decrypt P (sd_keys dr2 9) h_from_old ct_from_old ad2 bob2 of (bob2, new_bob_result) \<Rightarrow> is_err new_bob_result)))))"

text \<open>Two continuations that agree wherever the program arrives.\<close>

lemma unwrap_st_iff: "unwrap_st m k \<longleftrightarrow> (\<exists>s r. m = (s, Ok r) \<and> k s r)"
  by (cases m; cases "snd m") auto

lemma unwrap_st_cong: "unwrap_st m K \<Longrightarrow> (\<And>s r. K s r \<Longrightarrow> k s r \<longleftrightarrow> k' s r) \<Longrightarrow> unwrap_st m k \<longleftrightarrow> unwrap_st m k'"
  by (auto simp: unwrap_st_iff)

lemma talk_rounds_cong:
  "talk_rounds P keys nonces ad label j is s r K \<Longrightarrow> (\<And>s r. K s r \<Longrightarrow> k s r \<longleftrightarrow> k' s r) \<Longrightarrow>
   talk_rounds P keys nonces ad label j is s r k \<longleftrightarrow> talk_rounds P keys nonces ad label j is s r k'"
  by (induction "is" arbitrary: j s r) (auto simp: unwrap_st_iff Let_def)

lemma setup_session_cong:
  "setup_session P dr K \<Longrightarrow> (\<And>a b i j. K a b i j \<Longrightarrow> k a b i j \<longleftrightarrow> k' a b i j) \<Longrightarrow>
   setup_session P dr k \<longleftrightarrow> setup_session P dr k'"
  unfolding setup_session_def Let_def unwrap_then_def by (auto split: sum.splits)

lemma conj_agree: "p \<and> K \<Longrightarrow> (K \<Longrightarrow> k \<longleftrightarrow> k') \<Longrightarrow> p \<and> k \<longleftrightarrow> p \<and> k'"
  by blast

lemma forward_sessions_cong:
  assumes "forward_sessions P dr dr2 (\<lambda>a b c d. k a b c d \<longleftrightarrow> k' a b c d)"
  shows "forward_sessions P dr dr2 k \<longleftrightarrow> forward_sessions P dr dr2 k'"
  using assms unfolding forward_sessions_def Let_def split_beta
  by (rule setup_session_cong) (elim talk_rounds_cong unwrap_st_cong setup_session_cong conj_agree)

text \<open>Both sides of a session of few messages, in whatever state.\<close>

definition in_talk :: "prims \<Rightarrow> bytes set \<Rightarrow> RatchetState \<Rightarrow> RatchetState \<Rightarrow> bool" where
  "in_talk P U a b \<longleftrightarrow> (\<exists>n A B. talk P n U a b A B \<and> n \<le> 100) \<and> sending_chain_key a \<noteq> None"

lemma in_talkI: "talk P n U a b A B \<Longrightarrow> n \<le> 100 \<Longrightarrow> sending_chain_key a \<noteq> None \<Longrightarrow> in_talk P U a b"
  unfolding in_talk_def by blast

lemma forward_sessions_run:
  assumes X: "x3dh_prims_ok P" and P: "ratchet_prims_ok P" and d: "session_draws_ok P dr" "session_draws_ok P dr2"
    and k: "\<And>a b a2 b2. in_talk P (spent (sd_keys dr) 4) a b \<Longrightarrow> in_talk P (spent (sd_keys dr2) 7) a2 b2 \<Longrightarrow> k a b a2 b2"
  shows "forward_sessions P dr dr2 k"
proof -
  have draws: "draws_ok P (sd_keys dr) (sd_nonces dr)" "draws_ok P (sd_keys dr2) (sd_nonces dr2)"
    using d by (simp_all add: session_draws_ok_def)
  then have nonce: "length (sd_nonces dr i) = 24" "length (sd_nonces dr2 i) = 24" for i
    by (simp_all add: draws_ok_def)
  have n: "[0 ..< 3] = 0 # [1 ..< 3]" "[0 ..< 5] = 0 # [1 ..< 5]"
    by (simp_all add: upt_rec)
  note start = setup_rule [OF X d(1)] first_exchange [OF P draws(1)] setup_rule [OF X d(2)] first_exchange [OF P draws(2)]
  have u: "fst (sd_keys dr 5) \<notin> spent (sd_keys dr) 3" "fst (sd_keys dr2 7) \<notin> spent (sd_keys dr2) 5"
      "fst (sd_keys dr2 8) \<notin> spent (sd_keys dr2) 6"
    using unspent [OF draws(1), of 3] unspent [OF draws(2), of 5] unspent [OF draws(2), of 6] by simp_all
  have grow: "insert (fst (sd_keys dr 5)) (spent (sd_keys dr) 3) = spent (sd_keys dr) 4"
      "insert (fst (sd_keys dr2 7)) (spent (sd_keys dr2) 5) = spent (sd_keys dr2) 6"
      "insert (fst (sd_keys dr2 8)) (spent (sd_keys dr2) 6) = spent (sd_keys dr2) 7"
    using spent_Suc [of "sd_keys dr" 3] spent_Suc [of "sd_keys dr2" 5] spent_Suc [of "sd_keys dr2" 6] by simp_all
  show ?thesis
    unfolding forward_sessions_def Let_def n talk_rounds.simps add_0
    apply (rule start(1), rule start(2), assumption, rule conjI [OF refl])
    apply (rule talk_rounds_rule [OF P draws(1), where j' = 3], assumption+, simp, simp)
    apply (rule exchange_rule [OF P draws(1)], erule talk_swap, assumption, erule may_sendI, simp, rule u(1), rule conjI [OF refl])
    apply (rule start(3), rule start(4), assumption, rule conjI [OF refl])
    apply (rule talk_rounds_rule [OF P draws(2), where j' = 5], assumption+, simp, simp)
    apply (rule exchange_rule [OF P draws(2)], erule talk_swap, assumption, erule may_sendI, simp, rule u(2))
    apply (rule exchange_rule [OF P draws(2)], erule talk_swap, assumption, erule may_sendI, simp)
    apply (unfold grow, rule u(3), rule conjI [OF refl])
    apply (rule k)
    apply (rule in_talkI, erule talk_swap, simp, assumption)
    apply (rule in_talkI, assumption, simp, assumption)
    done
qed

text \<open>A message from one session to the receiver of the other.\<close>

lemma crossing:
  assumes P: "ratchet_prims_ok P" and nonce: "length nonce = 24" and t: "in_talk P U a b" "in_talk P V c d" and apart: "V \<inter> U = {}"
    and drawn: "box_keypair P (fst pair) (snd pair)"
  obtains a' h body where "encrypt P nonce p ad a = (a', Ok (h, body))"
    "is_err (snd (decrypt P pair h body ad d)) \<longleftrightarrow> \<not> opens_foreign P d h body ad"
proof -
  obtain n A B where a: "talk P n U a b A B" "n \<le> 100" "sending_chain_key a \<noteq> None"
    using t(1) by (auto simp: in_talk_def)
  obtain m C D where d: "talk P m V d c D C"
    using t(2) by (auto simp: in_talk_def intro: talk_swap)
  have "unwrap_st (encrypt P nonce p ad a) (\<lambda>_. sent_by P U n)"
    by (rule talk_send_by [OF P nonce a(1,3)]) (use a(2) in simp_all)
  then obtain a' h body where e: "encrypt P nonce p ad a = (a', Ok (h, body))" "sent_by P U n (h, body)"
    by (auto simp: unwrap_st_iff)
  show ?thesis
    by (rule that [OF e(1)], rule foreign_refused [OF P d e(2) _ apart drawn]) (use a(2) in simp)
qed

theorem forward_secrecy_test:
  assumes X: "x3dh_prims_ok P" and P: "ratchet_prims_ok P" and d: "session_draws_ok P dr" "session_draws_ok P dr2"
    and fresh: "fresh_draws dr dr2"
  defines "ad \<equiv> as_bytes ''forward-secrecy''"
  shows "test_forward_secrecy P dr dr2 \<longleftrightarrow> forward_sessions P dr dr2 (\<lambda>alice bob alice2 bob2.
      unwrap_st (encrypt P (sd_nonces dr2 7) (as_bytes ''only for new session'') ad alice2) (\<lambda>_ (h, c). \<not> opens_foreign P bob h c ad) \<and>
      unwrap_st (encrypt P (sd_nonces dr 4) (as_bytes ''from old session'') ad alice) (\<lambda>_ (h, c). \<not> opens_foreign P bob2 h c ad))"
    and "forward_sessions P dr dr2 (\<lambda>_ _ _ _. True)"
proof -
  note run = forward_sessions_run [OF X P d]
  show "forward_sessions P dr dr2 (\<lambda>_ _ _ _. True)"
    by (rule run) (rule TrueI)
  have nonce: "length (sd_nonces dr i) = 24" "length (sd_nonces dr2 i) = 24"
    and kp: "box_keypair P (fst (sd_keys dr i)) (snd (sd_keys dr i))" "box_keypair P (fst (sd_keys dr2 i)) (snd (sd_keys dr2 i))" for i
    using d by (simp_all add: session_draws_ok_def draws_ok_def)
  have "fst (sd_keys dr i) \<noteq> fst (sd_keys dr2 j)" for i j
    using fresh unfolding fresh_draws_def by (metis comp_apply disjoint_iff rangeI)
  then have apart: "spent (sd_keys dr) 4 \<inter> spent (sd_keys dr2) 7 = {}"
    unfolding spent_def by blast
  show "test_forward_secrecy P dr dr2 \<longleftrightarrow> forward_sessions P dr dr2 (\<lambda>alice bob alice2 bob2.
      unwrap_st (encrypt P (sd_nonces dr2 7) (as_bytes ''only for new session'') ad alice2) (\<lambda>_ (h, c). \<not> opens_foreign P bob h c ad) \<and>
      unwrap_st (encrypt P (sd_nonces dr 4) (as_bytes ''from old session'') ad alice) (\<lambda>_ (h, c). \<not> opens_foreign P bob2 h c ad))"
    unfolding test_forward_secrecy_def Let_def ad_def [symmetric]
  proof (rule forward_sessions_cong, rule run)
    fix a b a2 b2
    assume t: "in_talk P (spent (sd_keys dr) 4) a b" "in_talk P (spent (sd_keys dr2) 7) a2 b2"
    obtain s h c where new: "encrypt P (sd_nonces dr2 7) (as_bytes ''only for new session'') ad a2 = (s, Ok (h, c))"
      "is_err (snd (decrypt P (sd_keys dr 6) h c ad b)) \<longleftrightarrow> \<not> opens_foreign P b h c ad"
      by (rule crossing [OF P nonce(2) t(2,1) apart kp(1)])
    obtain s' h' c' where old: "encrypt P (sd_nonces dr 4) (as_bytes ''from old session'') ad a = (s', Ok (h', c'))"
      "is_err (snd (decrypt P (sd_keys dr2 9) h' c' ad b2)) \<longleftrightarrow> \<not> opens_foreign P b2 h' c' ad"
      by (rule crossing [OF P nonce(1) t apart [unfolded Int_commute [of "spent (sd_keys dr) 4"]] kp(2)])
    show "unwrap_st (encrypt P (sd_nonces dr2 7) (as_bytes ''only for new session'') ad a2) (\<lambda>_ (h, c).
        case decrypt P (sd_keys dr 6) h c ad b of (_, r) \<Rightarrow> is_err r \<and>
        unwrap_st (encrypt P (sd_nonces dr 4) (as_bytes ''from old session'') ad a) (\<lambda>_ (h, c).
        case decrypt P (sd_keys dr2 9) h c ad b2 of (_, r) \<Rightarrow> is_err r)) \<longleftrightarrow>
      unwrap_st (encrypt P (sd_nonces dr2 7) (as_bytes ''only for new session'') ad a2) (\<lambda>_ (h, c). \<not> opens_foreign P b h c ad) \<and>
      unwrap_st (encrypt P (sd_nonces dr 4) (as_bytes ''from old session'') ad a) (\<lambda>_ (h, c). \<not> opens_foreign P b2 h c ad)"
      by (simp add: new(1) old(1) split_beta new(2) old(2))
  qed
qed

text \<open>Draws as the theorems assume them exist: the witnesses' packages, with two disjoint sets of keys.\<close>

definition demo_draws_from :: "u8 \<Rightarrow> session_draws" where
  "demo_draws_from b = demo_session_draws\<lparr>sd_keys := \<lambda>i. demo_pair (b + word_of_nat (min i 20)),
     sd_nonces := \<lambda>i. replicate 24 (b + word_of_nat (min i 60))\<rparr>"

lemma demo_draws_from_ok:
  "session_draws_ok demo_prims (demo_draws_from b)" "inj_on (sd_nonces (demo_draws_from b)) {..< 50}"
  "fresh_draws (demo_draws_from 1) (demo_draws_from 101)"
proof -
  have eq: "word_of_nat m = (word_of_nat n :: u8) \<longleftrightarrow> m = n" if "m \<le> 200" "n \<le> 200" for m n
    using that by (auto simp: of_nat_eq_iff word_of_nat_eq_iff take_bit_nat_eq_self)
  have "inj_on (\<lambda>i. fst (sd_keys (demo_draws_from b) i)) {..< 12}"
    by (rule inj_onI) (auto simp: demo_draws_from_def demo_pair_def replicate_eq_replicate eq)
  then show "session_draws_ok demo_prims (demo_draws_from b)"
    using demo_keys_ok(1) [unfolded identity_ok_def demo_ik_def]
    by (simp add: session_draws_ok_def draws_ok_def demo_draws_from_def demo_session_draws_def demo_keys_def demo_pair_ok)
  show "inj_on (sd_nonces (demo_draws_from b)) {..< 50}"
    by (rule inj_onI) (auto simp: demo_draws_from_def replicate_eq_replicate eq)
  have "1 + word_of_nat (min i 20) \<noteq> (101 + word_of_nat (min j 20) :: u8)" for i j
    using eq [of "1 + min i 20" "101 + min j 20"] by simp
  then show "fresh_draws (demo_draws_from 1) (demo_draws_from 101)"
    by (auto simp: fresh_draws_def demo_draws_from_def demo_pair_def replicate_eq_replicate)
qed

theorem session_tests_run:
  "double_ratchet_unique_message_keys demo_prims (demo_draws_from 1)"
  "cross_session_isolation demo_prims (demo_draws_from 1) (demo_draws_from 101)"
  "multi_party demo_prims (demo_draws_from 1) (demo_draws_from 101) (\<lambda>_ _ _ _. True)"
  "forward_sessions demo_prims (demo_draws_from 1) (demo_draws_from 101) (\<lambda>_ _ _ _. True)"
proof -
  note ok = demo_keys_ok(5) demo_ratchet_prims demo_draws_from_ok(1)
  show "double_ratchet_unique_message_keys demo_prims (demo_draws_from 1)"
    by (rule repeated_message_test [OF ok demo_draws_from_ok(2)])
  show "cross_session_isolation demo_prims (demo_draws_from 1) (demo_draws_from 101)"
    by (rule cross_session_test [OF ok ok(3)]) (simp add: demo_draws_from_def)
  show "multi_party demo_prims (demo_draws_from 1) (demo_draws_from 101) (\<lambda>_ _ _ _. True)"
    by (rule multi_party_test(2) [OF ok ok(3) demo_draws_from_ok(3)])
  show "forward_sessions demo_prims (demo_draws_from 1) (demo_draws_from 101) (\<lambda>_ _ _ _. True)"
    by (rule forward_secrecy_test(2) [OF ok ok(3) demo_draws_from_ok(3)])
qed

end
