(* ===== verification/Spec2Isabelle.thy ===== *)
theory Spec2Isabelle
  imports Security_Utils X3dh Ratchet_Restart Message_Payload Media Sealed_Sender Safety_Number
    Group Server_Auth Ratchet_Loop Ratchet_Replay Ratchet_Agreement Ratchet_Outage Ratchet_Wrap Sealed_Delivery
    Tests_Padding Tests_Ciphers Tests_Keys Tests_App Tests_Ratchet Tests_Rejections Tests_Json Tests_Flow
    Tests_Audit Tests_Sessions
begin

text \<open>
  The program.  Vaultex publishes the client cryptography of an end-to-end encrypted messenger
  (the crate \<open>crates/vaultex-crypto\<close>) and one server file,
  \<open>extracted/server-middleware/auth.rs\<close>, the authentication middleware.  A device has an
  identity key; it publishes a bundle of prekeys signed under it; a peer turns the bundle into a
  shared secret (X3DH) from which both start a Double Ratchet session; the plaintexts of the
  session are padded message payloads.  Beside this path stand sealed-sender envelopes and call
  payloads between identities, encrypted media files, safety numbers, group member lists, and
  the signed request headers that the server checks.  This development models all of that code.

  Where each part is.
  \<^item> \<open>Prelude\<close>, \<open>Rust_Std\<close>: words, bytes, \<open>Result\<close> and the question mark
    operator; the functions of the Rust standard library that the sources call.
  \<^item> \<open>Errors\<close>: \<open>errors.rs\<close>.  \<open>Primitives\<close>: the packages outside the repository
    (sodiumoxide, hkdf, hmac, sha2, hex) as the fields of the record \<open>prims\<close>, an argument of
    every operation that calls them, with what they document as named predicates
    (\<open>slices_ok\<close>, \<open>dh_ok\<close>, \<open>aead_ok\<close>, \<open>sign_ok\<close>, ...).  \<open>Demo_Prims\<close>: an
    executable instance of all of them.
  \<^item> \<open>Interfaces\<close>: the contracts between components as locales.  \<open>lossless\<close> and
    \<open>length_hiding\<close> are provided by \<open>Padding\<close> and \<open>Ratchet_Persistence\<close>, their
    composition \<open>layered\<close> by \<open>Message_Payload\<close>; \<open>sealed_channel\<close> by \<open>Media\<close> and \<open>Sealed_Sender\<close>;
    \<open>signed_requests\<close> by \<open>Auth\<close> and used by \<open>Server_Auth\<close>; \<open>keyed_set\<close> by
    \<open>Group\<close>; \<open>out_of_order_receiver\<close> by \<open>Ratchet_Chain\<close>; \<open>simulation\<close> by
    \<open>Ratchet_Refinement\<close>.
  \<^item> \<open>Security_Utils\<close> (\<open>security.rs\<close>), \<open>Aes_Gcm\<close> (\<open>aes_gcm.rs\<close>), \<open>Identity\<close>
    (\<open>identity.rs\<close>), \<open>Prekeys\<close> (\<open>prekeys.rs\<close>), \<open>X3dh\<close> (\<open>x3dh.rs\<close>),
    \<open>Padding\<close> (\<open>padding.rs\<close>), \<open>Message_Payload\<close> (\<open>message_payload.rs\<close>),
    \<open>Media\<close> (\<open>media.rs\<close>), \<open>Sealed_Sender\<close> (\<open>sealed_sender.rs\<close>),
    \<open>Safety_Number\<close> (\<open>safety_number.rs\<close>), \<open>Group\<close> (\<open>group.rs\<close>), \<open>Auth\<close>
    (\<open>auth.rs\<close>), \<open>Server_Auth\<close> (\<open>extracted/server-middleware/auth.rs\<close>): one theory
    per source file, its functions under their own names (methods of a type carry a prefix, such
    as \<open>ik_\<close> for \<open>IdentityKeyPair\<close>).
  \<^item> \<open>Double_Ratchet\<close>: the state and the operations of \<open>double_ratchet.rs\<close>, with
    \<open>to_bytes\<close> and \<open>from_bytes\<close> in \<open>Ratchet_Persistence\<close>.  \<open>Ratchet_Chain\<close>: one
    receiving chain.  \<open>Ratchet_Session\<close>: two parties and a network that reorders and loses,
    as a labelled step relation.  \<open>Ratchet_Safety\<close>: one device under arbitrary input.
    \<open>Ratchet_Refinement\<close>: the abstract post office that sessions implement.
    \<open>Ratchet_Mailbox\<close>: all messages in flight, delivered in any order.  \<open>Ratchet_Restart\<close>:
    sessions in which devices save and load their states.  \<open>Ratchet_Agreement\<close>: how the two
    states of a session stand to each other.  \<open>Ratchet_Loop\<close>: the loops over skipped messages
    round by round, with the number of rounds that a call runs.  \<open>Ratchet_Replay\<close>: messages
    presented again, to one receiver and in a session.  \<open>Ratchet_Outage\<close>: what the skipping
    limit means for the rest of a session.  \<open>Ratchet_Wrap\<close>: the message counters at the top of
    \<open>u32\<close>.  \<open>Sealed_Delivery\<close>: ratchet messages in sealed envelopes, as
    \<open>tests/e2e_message_flow.rs\<close> puts them together.
  \<^item> \<open>Test_Support\<close>, \<open>Tests_Padding\<close>, \<open>Tests_Ciphers\<close>, \<open>Tests_Keys\<close>, \<open>Tests_App\<close>,
    \<open>Tests_Ratchet\<close>: the \<open>#[test]\<close> functions of the modules, under their own names, as
    propositions about the model.  Their theorems (\<open>..._tests_pass\<close>) hold for every draw.
    \<open>Tests_Rejections\<close>: the tests that something is refused or differs, each shown to pass
    exactly when one call of the packages does not forge or two draws differ.  \<open>Tests_Json\<close>:
    the tests of the JSON text, under the text that \<open>serde_json\<close> writes for their payloads.
    \<open>Tests_Flow\<close>: the integration tests in \<open>tests/\<close> that run prekeys, X3DH and both ratchets.
    \<open>Tests_Audit\<close>: those of single components.  \<open>Tests_Sessions\<close>: those that compare
    ciphertexts, restore a ratchet or hand a message to another session, which refuses it exactly
    when the cipher does under a key of the other root.
  \<^item> This theory: the theorem that spans prekeys, X3DH, ratchet, padding and payload.

  How the code is modelled.  Every function takes its arguments and the packages; a method on
  \<open>&mut self\<close> returns the state it leaves, also when it returns an error.  A drawn key pair,
  nonce or fill and the reading of the clock are arguments.  \<open>u32\<close> and \<open>u64\<close> are words
  and wrap as in a release build; \<open>usize\<close> is a natural number, as no length nears its bound
  on a 64-bit machine.  A clock before 1970 is None: \<open>prekeys.rs\<close> panics then, and
  \<open>auth.rs\<close> and \<open>group.rs\<close> read 0.  A string is the list of its UTF-8 bytes.  The hash map
  of skipped keys is a partial map, and the order in which it is iterated is an argument of
  \<open>ratchet_to_bytes\<close>.  \<open>serde_json\<close> is a pair of functions per type, with the law that a
  written value reads back.  The server's database, HTTP types and \<open>verify_signature\<close> are the
  fields of \<open>server_env\<close>.  All loops of the code are bounded and modelled by structural
  recursion, so no fuel is needed and every definition is total; \<open>Ratchet_Loop\<close> shows that a
  call runs at most 1000 rounds of the loop over skipped messages.

  What the lemmas show.
  \<^item> The ratchet.  \<open>receiving\<close> is the invariant of one chain; from it follow delivery in
    any order and that only the sealing of a message is accepted.  \<open>consumed\<close> is what an accepted
    message leaves behind, and it lasts as long as the receiver stays on the chain, so the
    message is never accepted again.  \<open>in_sync\<close> is the invariant of two parties; it gives
    delivery in every reachable state, of one message or of all in any order, bare or in sealed
    envelopes, what the two states agree on, the refinement of the post office, the invisibility
    of restarts and, with \<open>used_up\<close>, that over a network that delivers copies what is accepted
    was sent, and no more often.
    \<open>ratchet_wf\<close> is the invariant under any input; it gives the possible errors and the growth
    of the cache.  The limit \<open>MAX_SKIP\<close> (1000) bounds one call, not a session, and headers act
    before they are authenticated; both are theorems.  A party that loses more than 1000 messages
    of a chain in a row accepts nothing in the rest of the session (\<open>cut_off\<close>), and the counters
    wrap, after which a replay is no longer refused as such.
  \<^item> Key agreement: both sides derive one secret, and an unsigned prekey yields none.
  \<^item> Wire forms: padding, payloads, envelopes, identity boxes, media files, stored keys and
    ratchet states come back unchanged; sizes reveal the bucket only (256 to 65536 by powers of
    two, then multiples of 65536).
  \<^item> Requests: the canonical message is unambiguous, honest clients pass, what passes is
    signed, recent and by the stored account that its headers name; a captured request passes again within 300 seconds.
  \<^item> Groups refine sets; safety numbers are symmetric and their shape is fixed.

  Not modelled.  Secrecy and other computational properties (the packages are functions with
  functional laws); timing (\<open>constant_time_eq\<close> is modelled by its result); log lines;
  whether overwritten memory is optimised away (\<open>zeroize\<close> and \<open>Drop\<close> are modelled by the
  values they write); derived \<open>Debug\<close> and \<open>Clone\<close>; \<open>debug_assert\<close>, which a release build
  drops; \<open>lib.rs\<close>, which only lists modules; the two tests that assert nothing
  (\<open>test_wipe_memory_empty_slice\<close>, \<open>safety_number_asymmetric\<close>); that the packages do not forge, on
  which the tests of rejections depend; the JSON text beyond the payloads of \<open>Tests_Json\<close>; the server beyond the middleware, which
  the repository does not contain.
\<close>

section \<open>From prekeys to payloads\<close>

lemma x3dh_session:
  assumes P: "x3dh_prims_ok P" and A: "aead_ok P"
    and alice: "identity_ok P alice" and bob: "identity_ok P bob"
    and spk: "spk_ok P (ik_public_key bob) spk" and otpk: "\<forall>k \<in> set_option otpk. otpk_ok P k"
    and eph: "box_keypair P epk esk" and rat: "box_keypair P apk ask" "apk \<noteq> spk_public_key spk"
  obtains r s0 where "initiate_x3dh P (epk, esk) alice (bundle_of (ik_public_key bob) spk otpk) = Ok r"
    "accept_x3dh P bob (spk_secret_key spk) (map_option otpk_secret_key otpk)
       (ik_public_key alice) (xr_ephemeral_public_key r) = Ok (xr_shared_secret r)"
    "session_start P (xr_shared_secret r) (apk, ask) (spk_public_key spk, spk_secret_key spk) s0"
proof -
  obtain r where r: "initiate_x3dh P (epk, esk) alice (bundle_of (ik_public_key bob) spk otpk) = Ok r"
    "accept_x3dh P bob (spk_secret_key spk) (map_option otpk_secret_key otpk)
       (ik_public_key alice) (xr_ephemeral_public_key r) = Ok (xr_shared_secret r)"
    by (rule x3dh_agree [OF P alice bob spk otpk eph])
  have S: "slices_ok P" and D: "dh_ok P" and K: "kdf_ok P" and I: "sodium_init P"
    using P by (simp_all add: x3dh_prims_ok_def)
  have kp: "box_keypair P (spk_public_key spk) (spk_secret_key spk)"
    using spk by (simp add: spk_ok_def)
  obtain x where "dh_exchange P ask (spk_public_key spk) = Ok x"
    by (rule dh_exchange_agree [OF S D rat(1) kp])
  from init_sender_eq [OF I K this, of apk "xr_shared_secret r"]
  obtain a where "init_sender P (apk, ask) (xr_shared_secret r) (spk_public_key spk) = Ok a"
    by blast
  then have "session_start P (xr_shared_secret r) (apk, ask) (spk_public_key spk, spk_secret_key spk)
     \<lparr>ends = case_party a (init_receiver (xr_shared_secret r) (spk_public_key spk, spk_secret_key spk)),
      net = \<lambda>_. {}, drawn_keys = {apk, spk_public_key spk}\<rparr>"
    using rat kp by (simp add: session_start_def)
  with r show ?thesis
    by (rule that)
qed

text \<open>
  C1: the whole path.  From Bob's published bundle, Alice's initiation and Bob's acceptance agree
  on a secret from which both ratchets start; in every session state reachable from there, a
  message in flight that carries a padded payload and is within the skipping limit decrypts, and
  the payload that the receiver parses is the one the sender built.
\<close>

theorem prekeys_to_payload:
  assumes "x3dh_prims_ok P" "aead_ok P" "identity_ok P alice" "identity_ok P bob"
    and "spk_ok P (ik_public_key bob) spk" "\<forall>k \<in> set_option otpk. otpk_ok P k"
    and "box_keypair P epk esk" "box_keypair P apk ask" "apk \<noteq> spk_public_key spk"
    and serde: "\<forall>x b. ser x = Inr b \<longrightarrow> de b = Inr x"
  shows "\<exists>r s0. initiate_x3dh P (epk, esk) alice (bundle_of (ik_public_key bob) spk otpk) = Ok r \<and>
    accept_x3dh P bob (spk_secret_key spk) (map_option otpk_secret_key otpk)
       (ik_public_key alice) (xr_ephemeral_public_key r) = Ok (xr_shared_secret r) \<and>
    session_start P (xr_shared_secret r) (apk, ask) (spk_public_key spk, spk_secret_key spk) s0 \<and>
    (\<forall>s p X pk sk payload rnd. session_reachable P s0 s \<and> p \<in> net s X \<and> box_keypair P pk sk \<and>
       pk \<notin> drawn_keys s \<and> gap_ok (ends s X) (p_header p) \<and> group_ok payload \<and>
       to_padded_bytes rnd ser payload = Ok (p_plain p) \<longrightarrow>
       and_then (snd (decrypt P (pk, sk) (p_header p) (p_body p) (p_ad p) (ends s X))) (from_padded_bytes de) =
         Ok payload)"
proof -
  have P: "ratchet_prims_ok P"
    using assms(1,2) by (simp add: x3dh_prims_ok_def ratchet_prims_ok_def)
  obtain r s0 where r: "initiate_x3dh P (epk, esk) alice (bundle_of (ik_public_key bob) spk otpk) = Ok r"
    "accept_x3dh P bob (spk_secret_key spk) (map_option otpk_secret_key otpk)
       (ik_public_key alice) (xr_ephemeral_public_key r) = Ok (xr_shared_secret r)"
    "session_start P (xr_shared_secret r) (apk, ask) (spk_public_key spk, spk_secret_key spk) s0"
    by (rule x3dh_session [OF assms(1-9)])
  have "and_then (snd (decrypt P (pk, sk) (p_header p) (p_body p) (p_ad p) (ends s X))) (from_padded_bytes de) = Ok payload"
    if asm: "session_reachable P s0 s" "p \<in> net s X" "box_keypair P pk sk" "pk \<notin> drawn_keys s"
      "gap_ok (ends s X) (p_header p)" "group_ok payload" "to_padded_bytes rnd ser payload = Ok (p_plain p)"
    for s p X pk sk payload rnd
  proof -
    obtain st' where "decrypt P (pk, sk) (p_header p) (p_body p) (p_ad p) (ends s X) = (st', receipt (ends s X) p)"
      by (rule deliver_outcome [OF P session_reachable_inv [OF P r(3) asm(1)] asm(2-4)])
    moreover have "from_padded_bytes de (p_plain p) = Ok payload"
      by (rule padded_payload_opens [OF serde asm(6,7)])
    ultimately show ?thesis
      using asm(5) by (simp add: receipt_def)
  qed
  with r show ?thesis
    by blast
qed

text \<open>One message of the whole path, with the witnesses' packages.\<close>

theorem prekeys_to_payload_witness:
  "\<exists>r s0. initiate_x3dh demo_prims (replicate 32 9, replicate 32 9) (demo_ik 1)
      (bundle_of (ik_public_key (demo_ik 2)) (demo_spk 2 3) (Some (demo_otpk 4))) = Ok r \<and>
    session_start demo_prims (xr_shared_secret r) (replicate 32 8, replicate 32 8) (replicate 32 3, replicate 32 3) s0"
proof -
  have ne: "replicate 32 8 \<noteq> spk_public_key (demo_spk 2 3)"
    by (simp add: demo_spk_def)
  have otpk: "\<forall>k \<in> set_option (Some (demo_otpk 4)). otpk_ok demo_prims k"
    by (simp add: demo_keys_ok)
  have serde: "\<forall>x b. demo_ser_payload x = Inr b \<longrightarrow> demo_de_payload b = Inr x"
    using demo_payload_serde by blast
  from prekeys_to_payload [OF demo_keys_ok(5) demo_laws(7) demo_keys_ok(1) demo_keys_ok(1) demo_keys_ok(2)
      otpk demo_keys_ok(4) demo_keys_ok(4) ne serde]
  show ?thesis
    by (simp only: demo_spk_def SignedPreKey.select_convs) blast
qed

end
